(* ===== verification/Prelude.thy ===== *)
theory Prelude
  imports "HOL-Library.Word"
begin

text \<open>
  Shared vocabulary of the development: bytes and characters, the C++ string operations the
  program uses (find, rfind, substr, c_str, operator[]), the exceptions of the program as one
  datatype, and the state-and-exception functions in which every effectful function of the program
  is written.
\<close>

section \<open>Bytes and characters\<close>

type_synonym byte = "8 word"
type_synonym bytes = "byte list"

text \<open>A C++ char is one byte, and so is a HOL \<open>char\<close>.\<close>

definition byte_of_char :: "char \<Rightarrow> byte" where
  "byte_of_char c = word_of_nat (of_char c)"

definition char_of_byte :: "byte \<Rightarrow> char" where
  "char_of_byte b = char_of (unat b)"

lemma of_char_less [simp]: "(of_char c :: nat) < 256"
  using of_char_mod_256 [of c, where 'a = nat] by (metis mod_less_divisor zero_less_numeral)

lemma unat_byte_less [simp]: "unat (b :: byte) < 256"
  by (rule order_less_le_trans [OF unsigned_less]) simp

lemma unat_byte_of_char [simp]: "unat (byte_of_char c) = of_char c"
  by (simp add: byte_of_char_def unat_of_nat)

lemma char_of_byte_of_char [simp]: "char_of_byte (byte_of_char c) = c"
  by (simp add: char_of_byte_def)

lemma of_char_of_byte [simp]: "(of_char (char_of_byte b) :: nat) = unat b"
  by (simp add: char_of_byte_def)

lemma byte_of_char_of_byte [simp]: "byte_of_char (char_of_byte b) = b"
  by (simp add: byte_of_char_def)

lemma inj_char_of_byte: "char_of_byte a = char_of_byte b \<longleftrightarrow> a = b"
  by (metis byte_of_char_of_byte)

lemma inj_byte_of_char: "byte_of_char a = byte_of_char b \<longleftrightarrow> a = b"
  by (metis char_of_byte_of_char)

abbreviation string_of_bytes :: "bytes \<Rightarrow> string" where
  "string_of_bytes \<equiv> map char_of_byte"

abbreviation bytes_of_string :: "string \<Rightarrow> bytes" where
  "bytes_of_string \<equiv> map byte_of_char"

lemma char_byte_comp [simp]: "char_of_byte \<circ> byte_of_char = id" "byte_of_char \<circ> char_of_byte = id"
  by (simp_all add: fun_eq_iff)

section \<open>The string operations of the C++ library\<close>

text \<open>
  A \<open>size_t\<close> position is a \<open>nat\<close>; the special value \<open>string::npos\<close> is
  \<open>None\<close>. \<open>find_from s c pos\<close> is \<open>s.find(c, pos)\<close>, \<open>rfind s c\<close> is
  \<open>s.rfind(c)\<close>, \<open>substr\<close> is \<open>s.substr(pos, len)\<close> for a position inside the
  string.
\<close>

definition find_from :: "string \<Rightarrow> char \<Rightarrow> nat \<Rightarrow> nat option" where
  "find_from s c pos = List.find (\<lambda>i. s ! i = c) [pos ..< length s]"

definition rfind :: "string \<Rightarrow> char \<Rightarrow> nat option" where
  "rfind s c = List.find (\<lambda>i. s ! i = c) (rev [0 ..< length s])"

definition substr :: "string \<Rightarrow> nat \<Rightarrow> nat \<Rightarrow> string" where
  "substr s pos len = take len (drop pos s)"

text \<open>The C string of a C++ string ends at the first NUL character.\<close>

definition c_str :: "string \<Rightarrow> string" where
  "c_str s = takeWhile (\<lambda>c. c \<noteq> CHR 0x00) s"

text \<open>
  Reading a character with \<open>s[i]\<close>: at \<open>i = s.size()\<close> a constant string yields NUL.
  Beyond that the behaviour of C++ is undefined; \<open>char_at\<close> is only ever used up to the
  size (see \<open>hexpair_in_bounds\<close> in theory Urlcode).
\<close>

definition char_at :: "string \<Rightarrow> nat \<Rightarrow> char" where
  "char_at s i = (if i < length s then s ! i else CHR 0x00)"

lemma find_from_Some:
  "find_from s c pos = Some i \<longleftrightarrow>
     pos \<le> i \<and> i < length s \<and> s ! i = c \<and> (\<forall>j. pos \<le> j \<and> j < i \<longrightarrow> s ! j \<noteq> c)"
proof
  assume "find_from s c pos = Some i"
  then obtain k where k: "k < length [pos ..< length s]" "s ! ([pos ..< length s] ! k) = c"
      "i = [pos ..< length s] ! k" "\<forall>j<k. s ! ([pos ..< length s] ! j) \<noteq> c"
    unfolding find_from_def find_Some_iff by blast
  have "\<forall>j. pos \<le> j \<and> j < i \<longrightarrow> s ! j \<noteq> c"
  proof (intro allI impI)
    fix j assume j: "pos \<le> j \<and> j < i"
    then have "j - pos < k" using k(1,3) by auto
    then show "s ! j \<noteq> c" using k(1,4) j by (auto dest!: spec [of _ "j - pos"])
  qed
  then show "pos \<le> i \<and> i < length s \<and> s ! i = c \<and> (\<forall>j. pos \<le> j \<and> j < i \<longrightarrow> s ! j \<noteq> c)"
    using k by auto
next
  assume a: "pos \<le> i \<and> i < length s \<and> s ! i = c \<and> (\<forall>j. pos \<le> j \<and> j < i \<longrightarrow> s ! j \<noteq> c)"
  then show "find_from s c pos = Some i"
    unfolding find_from_def find_Some_iff by (intro exI [of _ "i - pos"]) auto
qed

lemma find_from_None: "find_from s c pos = None \<longleftrightarrow> c \<notin> set (drop pos s)"
proof -
  have "c \<in> set (drop pos s) \<longleftrightarrow> (\<exists>i. pos \<le> i \<and> i < length s \<and> s ! i = c)"
  proof
    assume "c \<in> set (drop pos s)"
    then obtain k where "k < length s - pos" "drop pos s ! k = c"
      by (auto simp: in_set_conv_nth)
    then show "\<exists>i. pos \<le> i \<and> i < length s \<and> s ! i = c"
      by (intro exI [of _ "pos + k"]) auto
  next
    assume "\<exists>i. pos \<le> i \<and> i < length s \<and> s ! i = c"
    then obtain i where "pos \<le> i" "i < length s" "s ! i = c" by blast
    then have "i - pos < length (drop pos s)" "drop pos s ! (i - pos) = c" by auto
    then show "c \<in> set (drop pos s)" by (metis nth_mem)
  qed
  then show ?thesis by (auto simp: find_from_def find_None_iff)
qed

lemma find_from_bounds: "find_from s c pos = Some i \<Longrightarrow> pos \<le> i \<and> i < length s"
  by (simp add: find_from_Some)

text \<open>The two forms in which the parsers meet \<open>find\<close>: past a prefix of known length.\<close>

lemma find_from_append_Some:
  "c \<notin> set ys \<Longrightarrow> find_from (xs @ ys @ c # zs) c (length xs) = Some (length xs + length ys)"
  by (auto simp: find_from_Some nth_append in_set_conv_nth)

lemma find_from_append_None:
  "find_from (xs @ ys) c (length xs) = None \<longleftrightarrow> c \<notin> set ys"
  by (simp add: find_from_None)

lemma rfind_Some:
  "rfind s c = Some i \<longleftrightarrow> i < length s \<and> s ! i = c \<and> (\<forall>j. i < j \<and> j < length s \<longrightarrow> s ! j \<noteq> c)"
proof -
  have *: "rev [0..<length s] ! k = length s - Suc k" if "k < length s" for k
    using that by (simp add: rev_nth)
  show ?thesis
  proof
    assume "rfind s c = Some i"
    then obtain k where k: "k < length s" "s ! (length s - Suc k) = c" "i = length s - Suc k"
        "\<forall>j<k. s ! (length s - Suc j) \<noteq> c"
      unfolding rfind_def find_Some_iff by (auto simp: *)
    have "s ! j \<noteq> c" if "i < j" "j < length s" for j
    proof -
      have "length s - Suc j < k" "length s - Suc (length s - Suc j) = j"
        using that k(1,3) by auto
      then show ?thesis using k(4) by metis
    qed
    then show "i < length s \<and> s ! i = c \<and> (\<forall>j. i < j \<and> j < length s \<longrightarrow> s ! j \<noteq> c)"
      using k by auto
  next
    assume a: "i < length s \<and> s ! i = c \<and> (\<forall>j. i < j \<and> j < length s \<longrightarrow> s ! j \<noteq> c)"
    then show "rfind s c = Some i"
      unfolding rfind_def find_Some_iff
    proof (intro exI [of _ "length s - Suc i"] conjI allI impI)
      fix j assume "j < length s - Suc i"
      then have "i < length s - Suc j" "length s - Suc j < length s" "j < length s" by auto
      then show "s ! (rev [0..<length s] ! j) \<noteq> c" using a by (simp add: *)
    qed (use a in \<open>auto simp: *\<close>)
  qed
qed

lemma rfind_None: "rfind s c = None \<longleftrightarrow> c \<notin> set s"
  by (auto simp: rfind_def find_None_iff in_set_conv_nth)

lemma rfind_append:
  assumes "c \<notin> set ys"
  shows "rfind (xs @ c # ys) c = Some (length xs)"
proof -
  have "(xs @ c # ys) ! j \<noteq> c" if "length xs < j" "j < length (xs @ c # ys)" for j
  proof -
    have "(xs @ c # ys) ! j = ys ! (j - Suc (length xs))" "j - Suc (length xs) < length ys"
      using that by (auto simp: nth_append nth_Cons')
    then show ?thesis using assms nth_mem by metis
  qed
  then show ?thesis by (simp add: rfind_Some)
qed

lemma take_split: "n \<le> m \<Longrightarrow> take m xs = take n xs @ take (m - n) (drop n xs)"
  by (metis le_add_diff_inverse take_add)

section \<open>Decimal numbers\<close>

text \<open>What \<open>printf\<close> makes of an unsigned number with \<open>%d\<close>, \<open>%lu\<close> or \<open>%zu\<close>.\<close>

definition digit :: "nat \<Rightarrow> char" where
  "digit n = char_of (48 + n)"

fun decimal :: "nat \<Rightarrow> string" where
  "decimal n = (if n < 10 then [digit n] else decimal (n div 10) @ [digit (n mod 10)])"

declare decimal.simps [simp del]

section \<open>Exceptions\<close>

text \<open>
  The exception classes of nhbackup.h, and the two ways the process stops without an exception:
  \<open>Fatal\<close> is \<open>fatal()\<close>, which prints its message and calls \<open>exit(1)\<close>;
  \<open>AssertFailed\<close> is a failed \<open>assert\<close>, which calls \<open>abort()\<close>. Neither runs a
  catch clause. \<open>OutOfRange\<close> and \<open>LengthError\<close> are the library's
  \<open>std::out_of_range\<close> and \<open>std::length_error\<close>. \<open>Diverges\<close>
  stands for a loop that does not end: nothing after it happens and nothing catches it.
\<close>

type_synonym path = string
type_synonym errno = int

datatype exn =
    FileError string path errno
  | SftpFileError string path string "32 word"
  | ReadOnlyFile
  | WriteOnlyFile
  | BadHex string
  | BadHexDigit
  | HashError nat
  | BadIndexFile string
  | OutOfRange
  | LengthError
  | Fatal string
  | AssertFailed string
  | Diverges

text \<open>What a \<open>catch(...)\<close> clause can catch.\<close>

fun catchable :: "exn \<Rightarrow> bool" where
  "catchable (Fatal _) = False"
| "catchable (AssertFailed _) = False"
| "catchable Diverges = False"
| "catchable _ = True"

section \<open>Functions with state and exceptions\<close>

text \<open>
  A C++ function that reads and writes state \<open>'s\<close>, may throw, and returns an \<open>'a\<close>.
  The state survives an exception, as the globals of the program do.
\<close>

type_synonym ('s, 'a) prog = "'s \<Rightarrow> (exn + 'a) \<times> 's"

definition ret :: "'a \<Rightarrow> ('s, 'a) prog" where
  "ret x s = (Inr x, s)"

definition throw :: "exn \<Rightarrow> ('s, 'a) prog" where
  "throw e s = (Inl e, s)"

definition andThen :: "('s, 'a) prog \<Rightarrow> ('a \<Rightarrow> ('s, 'b) prog) \<Rightarrow> ('s, 'b) prog" where
  "andThen m f s = (case m s of (Inl e, s') \<Rightarrow> (Inl e, s') | (Inr x, s') \<Rightarrow> f x s')"

text \<open>\<open>try { m } catch(...) { h; throw; }\<close>\<close>

definition rethrowing :: "('s, 'a) prog \<Rightarrow> ('s \<Rightarrow> 's) \<Rightarrow> ('s, 'a) prog" where
  "rethrowing m h s =
     (case m s of
        (Inl e, s') \<Rightarrow> (Inl e, if catchable e then h s' else s')
      | (Inr x, s') \<Rightarrow> (Inr x, s'))"

text \<open>
  \<open>try { m } catch ... { ... }\<close>: the handler \<open>h\<close> says for each exception whether a
  clause matches it, and what that clause does.
\<close>

definition catching :: "('s, 'a) prog \<Rightarrow> (exn \<Rightarrow> ('s, 'a) prog option) \<Rightarrow> ('s, 'a) prog" where
  "catching m h s =
     (case m s of
        (Inl e, s') \<Rightarrow> (case h e of None \<Rightarrow> (Inl e, s') | Some k \<Rightarrow> k s')
      | (Inr x, s') \<Rightarrow> (Inr x, s'))"

lemma ret_simp [simp]: "ret x s = (Inr x, s)"
  by (simp add: ret_def)

lemma throw_simp [simp]: "throw e s = (Inl e, s)"
  by (simp add: throw_def)

lemma andThen_ok [simp]: "m s = (Inr x, s') \<Longrightarrow> andThen m f s = f x s'"
  by (simp add: andThen_def)

lemma andThen_exn [simp]: "m s = (Inl e, s') \<Longrightarrow> andThen m f s = (Inl e, s')"
  by (simp add: andThen_def)

lemma andThen_InrE:
  assumes "andThen m f s = (Inr y, t)"
  obtains x s' where "m s = (Inr x, s')" "f x s' = (Inr y, t)"
  using assms by (auto simp: andThen_def split: prod.splits sum.splits)

lemma andThen_cong [fundef_cong]:
  assumes "m s = m' s'" and "\<And>x t. m' s' = (Inr x, t) \<Longrightarrow> f x t = f' x t"
  shows "andThen m f s = andThen m' f' s'"
  using assms by (auto simp: andThen_def split: prod.splits sum.splits)

text \<open>A loop given as a partial function, inside a program: \<open>None\<close> is that it does not end.\<close>

definition terminating :: "'s \<Rightarrow> ((exn + 'a) \<times> 's) option \<Rightarrow> (exn + 'a) \<times> 's" where
  "terminating s r = (case r of None \<Rightarrow> (Inl Diverges, s) | Some x \<Rightarrow> x)"

lemma terminating_simps [simp]:
  "terminating s None = (Inl Diverges, s)" "terminating s (Some x) = x"
  by (simp_all add: terminating_def)

text \<open>The value of a run, if it did not throw.\<close>

definition value_of :: "(exn + 'a) \<times> 's \<Rightarrow> 'a option" where
  "value_of r = (case fst r of Inl _ \<Rightarrow> None | Inr x \<Rightarrow> Some x)"

lemma value_of_simps [simp]:
  "value_of (Inl e, s) = None" "value_of (Inr x, s) = Some x"
  by (simp_all add: value_of_def)

text \<open>Of an association list whose keys are distinct, the order does not matter.\<close>

lemma map_of_rev: "distinct (map fst kvs) \<Longrightarrow> map_of (rev kvs) = map_of kvs"
  by (metis distinct_rev map_of_inject_set rev_map set_rev)

section \<open>Interface: a text encoding\<close>

text \<open>
  The contract between the writers and the readers of the program's text formats: on the values
  that are ever written, decoding what was encoded gives the value back. Hashes in index files,
  URL-encoded names and whole index lines are instances.
\<close>

locale codec =
  fixes encode :: "'a \<Rightarrow> 'b"
    and decode :: "'b \<Rightarrow> 'a option"
    and valid :: "'a \<Rightarrow> bool"
  assumes decode_encode: "valid x \<Longrightarrow> decode (encode x) = Some x"
begin

lemma encode_inj: "inj_on encode {x. valid x}"
  by (rule inj_onI) (metis decode_encode mem_Collect_eq option.inject)

lemma encode_eq_iff: "valid x \<Longrightarrow> valid y \<Longrightarrow> encode x = encode y \<longleftrightarrow> x = y"
  using encode_inj by (auto simp: inj_on_def)

lemma decode_map_encode:
  "\<forall>x \<in> set xs. valid x \<Longrightarrow> map (decode \<circ> encode) xs = map Some xs"
  by (simp add: decode_encode)

end

section \<open>Diagnostics: the counters and the error stream\<close>

text \<open>
  The part of the global state that the error reporting functions of utils.cc change. The state
  types of the other theories extend this record.
\<close>

record diag =
  errors :: nat
  warnings :: nat
  stderr_lines :: "string list"

definition error :: "string \<Rightarrow> 'z diag_scheme \<Rightarrow> 'z diag_scheme" where
  "error msg d = d\<lparr>stderr_lines := stderr_lines d @ [''ERROR: '' @ c_str msg], errors := Suc (errors d)\<rparr>"

definition warning :: "string \<Rightarrow> 'z diag_scheme \<Rightarrow> 'z diag_scheme" where
  "warning msg d = d\<lparr>stderr_lines := stderr_lines d @ [''WARNING: '' @ c_str msg], warnings := Suc (warnings d)\<rparr>"

definition fatal :: "string \<Rightarrow> ('z diag_scheme, 'a) prog" where
  "fatal msg d = (Inl (Fatal msg), d\<lparr>stderr_lines := stderr_lines d @ [''FATAL: '' @ c_str msg]\<rparr>)"

lemma error_fields [simp]:
  "errors (error msg d) = Suc (errors d)" "warnings (error msg d) = warnings d"
  by (simp_all add: error_def)

lemma warning_fields [simp]:
  "errors (warning msg d) = errors d" "warnings (warning msg d) = Suc (warnings d)"
  by (simp_all add: warning_def)

text \<open>At most one error message apart.\<close>

definition noted :: "'z diag_scheme \<Rightarrow> 'z diag_scheme \<Rightarrow> bool" where
  "noted s s' \<longleftrightarrow> s' = s \<or> (\<exists>m. s' = error m s)"

lemma noted_simps [simp]: "noted s s" "noted s (error m s)"
  by (auto simp: noted_def)

end
