(* ===== verification/Sha1.thy ===== *)
theory Sha1
  imports Prelude
begin

unbundle bit_operations_syntax

text \<open>
  The SHA-1 implementation of sha1.c: the context, the block transformation, input, padding and
  result, and the invariant that keeps every store inside the 64-byte message block.
\<close>

section \<open>The context\<close>

type_synonym u32 = "32 word"

text \<open>
  The error codes of sha1.h. The callers never pass a null pointer, so \<open>shaNull\<close> is not
  returned for one here.
\<close>

definition shaSuccess :: nat where "shaSuccess = 0"
definition shaNull :: nat where "shaNull = 1"
definition shaInputTooLong :: nat where "shaInputTooLong = 2"
definition shaStateError :: nat where "shaStateError = 3"

text \<open>
  \<open>Message_Block_Index\<close> is an \<open>int_least16_t\<close> that stays between 0 and 64 (see
  \<open>sha1_ok\<close>); \<open>Computed\<close> and \<open>Corrupted\<close> are ints used as flag and error code.
\<close>

record SHA1Context =
  Intermediate_Hash :: "u32 list"
  Length_Low :: u32
  Length_High :: u32
  Message_Block_Index :: nat
  Message_Block :: bytes
  Computed :: bool
  Corrupted :: nat

definition SHA1Reset :: "SHA1Context \<Rightarrow> nat \<times> SHA1Context" where
  "SHA1Reset context = (shaSuccess, context
     \<lparr>Length_Low := 0, Length_High := 0, Message_Block_Index := 0,
      Intermediate_Hash := [0x67452301, 0xEFCDAB89, 0x98BADCFE, 0x10325476, 0xC3D2E1F0],
      Computed := False, Corrupted := 0\<rparr>)"

section \<open>The block transformation\<close>

definition SHA1CircularShift :: "nat \<Rightarrow> u32 \<Rightarrow> u32" where
  "SHA1CircularShift bits word = (push_bit bits word) OR (drop_bit (32 - bits) word)"

text \<open>\<open>W[0..15]\<close>, big-endian words of the block; then \<open>W[16..79]\<close>.\<close>

definition block_word :: "bytes \<Rightarrow> nat \<Rightarrow> u32" where
  "block_word block t =
     push_bit 24 (ucast (block ! (t * 4))) OR push_bit 16 (ucast (block ! (t * 4 + 1))) OR
     push_bit 8 (ucast (block ! (t * 4 + 2))) OR ucast (block ! (t * 4 + 3))"

definition schedule_step :: "nat \<Rightarrow> u32 list \<Rightarrow> u32 list" where
  "schedule_step t W =
     W @ [SHA1CircularShift 1 (W ! (t - 3) XOR W ! (t - 8) XOR W ! (t - 14) XOR W ! (t - 16))]"

definition schedule :: "bytes \<Rightarrow> u32 list" where
  "schedule block = fold schedule_step [16..<80] (map (block_word block) [0..<16])"

type_synonym registers = "u32 \<times> u32 \<times> u32 \<times> u32 \<times> u32"

text \<open>The bodies of the four loops over \<open>t\<close>.\<close>

fun round0 :: "u32 list \<Rightarrow> nat \<Rightarrow> registers \<Rightarrow> registers" where
  "round0 W t (A, B, C, D, E) =
     (let temp = SHA1CircularShift 5 A + ((B AND C) OR ((NOT B) AND D)) + E + W ! t + 0x5A827999
      in (temp, A, SHA1CircularShift 30 B, C, D))"

fun round1 :: "u32 list \<Rightarrow> nat \<Rightarrow> registers \<Rightarrow> registers" where
  "round1 W t (A, B, C, D, E) =
     (let temp = SHA1CircularShift 5 A + (B XOR C XOR D) + E + W ! t + 0x6ED9EBA1
      in (temp, A, SHA1CircularShift 30 B, C, D))"

fun round2 :: "u32 list \<Rightarrow> nat \<Rightarrow> registers \<Rightarrow> registers" where
  "round2 W t (A, B, C, D, E) =
     (let temp = SHA1CircularShift 5 A + ((B AND C) OR (B AND D) OR (C AND D)) + E + W ! t + 0x8F1BBCDC
      in (temp, A, SHA1CircularShift 30 B, C, D))"

fun round3 :: "u32 list \<Rightarrow> nat \<Rightarrow> registers \<Rightarrow> registers" where
  "round3 W t (A, B, C, D, E) =
     (let temp = SHA1CircularShift 5 A + (B XOR C XOR D) + E + W ! t + 0xCA62C1D6
      in (temp, A, SHA1CircularShift 30 B, C, D))"

definition SHA1ProcessMessageBlock :: "SHA1Context \<Rightarrow> SHA1Context" where
  "SHA1ProcessMessageBlock context =
     (let W = schedule (Message_Block context);
          H = Intermediate_Hash context;
          r0 = fold (round0 W) [0..<20] (H ! 0, H ! 1, H ! 2, H ! 3, H ! 4);
          r1 = fold (round1 W) [20..<40] r0;
          r2 = fold (round2 W) [40..<60] r1;
          (A, B, C, D, E) = fold (round3 W) [60..<80] r2
      in context
           \<lparr>Intermediate_Hash := [H ! 0 + A, H ! 1 + B, H ! 2 + C, H ! 3 + D, H ! 4 + E],
            Message_Block_Index := 0\<rparr>)"

section \<open>Input\<close>

text \<open>\<open>context->Message_Block[context->Message_Block_Index++] = b\<close>\<close>

definition store_byte :: "byte \<Rightarrow> SHA1Context \<Rightarrow> SHA1Context" where
  "store_byte b context = context
     \<lparr>Message_Block := (Message_Block context)[Message_Block_Index context := b],
      Message_Block_Index := Message_Block_Index context + 1\<rparr>"

text \<open>\<open>Length_Low += 8\<close> with the carry; a carry out of the 64 bits marks the context.\<close>

definition add_length :: "SHA1Context \<Rightarrow> SHA1Context" where
  "add_length context =
     (let low = Length_Low context + 8
      in if low = 0 then
           (let high = Length_High context + 1
            in if high = 0 then context\<lparr>Length_Low := low, Length_High := high, Corrupted := 1\<rparr>
               else context\<lparr>Length_Low := low, Length_High := high\<rparr>)
         else context\<lparr>Length_Low := low\<rparr>)"

definition input_byte :: "byte \<Rightarrow> SHA1Context \<Rightarrow> SHA1Context" where
  "input_byte b context =
     (let context = add_length (store_byte b context)
      in if Message_Block_Index context = 64 then SHA1ProcessMessageBlock context else context)"

fun input_loop :: "bytes \<Rightarrow> SHA1Context \<Rightarrow> SHA1Context" where
  "input_loop [] context = context"
| "input_loop (b # bs) context =
     (if Corrupted context \<noteq> 0 then context else input_loop bs (input_byte b context))"

definition SHA1Input :: "SHA1Context \<Rightarrow> bytes \<Rightarrow> nat \<times> SHA1Context" where
  "SHA1Input context message_array =
     (if length message_array = 0 then (shaSuccess, context)
      else if Computed context then (shaStateError, context\<lparr>Corrupted := shaStateError\<rparr>)
      else if Corrupted context \<noteq> 0 then (Corrupted context, context)
      else (shaSuccess, input_loop message_array context))"

section \<open>Padding and the result\<close>

text \<open>\<open>while(context->Message_Block_Index < n) context->Message_Block[context->Message_Block_Index++] = 0\<close>\<close>

function zero_until :: "nat \<Rightarrow> SHA1Context \<Rightarrow> SHA1Context" where
  "zero_until n context =
     (if Message_Block_Index context < n then zero_until n (store_byte 0 context) else context)"
  by pat_completeness auto
termination
  by (relation "measure (\<lambda>(n, context). n - Message_Block_Index context)") (auto simp: store_byte_def)

declare zero_until.simps [simp del]

definition byte_of_word :: "nat \<Rightarrow> u32 \<Rightarrow> byte" where
  "byte_of_word shift w = ucast (drop_bit shift w)"

definition store_length :: "SHA1Context \<Rightarrow> SHA1Context" where
  "store_length context =
     context\<lparr>Message_Block := (Message_Block context)
       [56 := byte_of_word 24 (Length_High context), 57 := byte_of_word 16 (Length_High context),
        58 := byte_of_word 8 (Length_High context), 59 := byte_of_word 0 (Length_High context),
        60 := byte_of_word 24 (Length_Low context), 61 := byte_of_word 16 (Length_Low context),
        62 := byte_of_word 8 (Length_Low context), 63 := byte_of_word 0 (Length_Low context)]\<rparr>"

definition SHA1PadMessage :: "SHA1Context \<Rightarrow> SHA1Context" where
  "SHA1PadMessage context =
     (let context =
        (if Message_Block_Index context > 55 then
           zero_until 56 (SHA1ProcessMessageBlock (zero_until 64 (store_byte 0x80 context)))
         else zero_until 56 (store_byte 0x80 context))
      in SHA1ProcessMessageBlock (store_length context))"

definition digest_bytes :: "u32 list \<Rightarrow> bytes" where
  "digest_bytes H = map (\<lambda>i. byte_of_word (8 * (3 - i mod 4)) (H ! (i div 4))) [0..<20]"

text \<open>The error code, the digest (when the code is \<open>shaSuccess\<close>) and the context.\<close>

definition SHA1Result :: "SHA1Context \<Rightarrow> nat \<times> bytes option \<times> SHA1Context" where
  "SHA1Result context =
     (if Corrupted context \<noteq> 0 then (Corrupted context, None, context)
      else
        let context =
          (if \<not> Computed context then
             (SHA1PadMessage context)\<lparr>Message_Block := replicate 64 0, Length_Low := 0, Length_High := 0,
                Computed := True\<rparr>
           else context)
        in (shaSuccess, Some (digest_bytes (Intermediate_Hash context)), context))"

end
