(* ===== verification/Sha1_Spec.thy ===== *)
theory Sha1_Spec
  imports Sha1
begin

unbundle bit_operations_syntax

text \<open>
  SHA-1 as the standard (FIPS 180-1) states it, on whole messages: padding, message schedule, the
  eighty steps with their functions and constants, and the digest. The streaming implementation of
  sha1.c computes it, whatever the sizes of the pieces it is fed.
\<close>

section \<open>The standard\<close>

text \<open>The big-endian value of a string of bytes.\<close>

definition big_endian :: "bytes \<Rightarrow> nat" where
  "big_endian bs = foldl (\<lambda>n b. 256 * n + unat b) 0 bs"

fun sched :: "bytes \<Rightarrow> nat \<Rightarrow> u32" where
  "sched block t =
     (if t < 16 then word_of_nat (big_endian (take 4 (drop (4 * t) block)))
      else word_rotl 1 (sched block (t - 3) XOR sched block (t - 8) XOR sched block (t - 14)
             XOR sched block (t - 16)))"

declare sched.simps [simp del]

definition f_t :: "nat \<Rightarrow> u32 \<Rightarrow> u32 \<Rightarrow> u32 \<Rightarrow> u32" where
  "f_t t B C D =
     (if t < 20 then (B AND C) OR (NOT B AND D)
      else if t < 40 then B XOR C XOR D
      else if t < 60 then (B AND C) OR (B AND D) OR (C AND D)
      else B XOR C XOR D)"

definition K_t :: "nat \<Rightarrow> u32" where
  "K_t t = (if t < 20 then 0x5A827999 else if t < 40 then 0x6ED9EBA1
            else if t < 60 then 0x8F1BBCDC else 0xCA62C1D6)"

fun sha1_step :: "(nat \<Rightarrow> u32) \<Rightarrow> nat \<Rightarrow> registers \<Rightarrow> registers" where
  "sha1_step W t (A, B, C, D, E) =
     (word_rotl 5 A + f_t t B C D + E + W t + K_t t, A, word_rotl 30 B, C, D)"

definition compress :: "u32 list \<Rightarrow> bytes \<Rightarrow> u32 list" where
  "compress H block =
     (let (A, B, C, D, E) = fold (sha1_step (sched block)) [0..<80] (H ! 0, H ! 1, H ! 2, H ! 3, H ! 4)
      in [H ! 0 + A, H ! 1 + B, H ! 2 + C, H ! 3 + D, H ! 4 + E])"

definition initial_hash :: "u32 list" where
  "initial_hash = [0x67452301, 0xEFCDAB89, 0x98BADCFE, 0x10325476, 0xC3D2E1F0]"

text \<open>A 1 bit, the fewest zeros that leave 8 bytes in the last block, and the length in bits.\<close>

definition length_field :: "nat \<Rightarrow> bytes" where
  "length_field bits = map (\<lambda>i. word_of_nat (bits div 256 ^ (7 - i))) [0..<8]"

definition padding :: "nat \<Rightarrow> bytes" where
  "padding len = 0x80 # replicate ((119 - len mod 64) mod 64) 0 @ length_field (8 * len)"

function blocks :: "bytes \<Rightarrow> bytes list" where
  "blocks bs = (if length bs < 64 then [] else take 64 bs # blocks (drop 64 bs))"
  by pat_completeness auto
termination
  by (relation "measure length") auto

declare blocks.simps [simp del]

definition be4 :: "u32 \<Rightarrow> bytes" where
  "be4 w = map (\<lambda>i. word_of_nat (unat w div 256 ^ (3 - i))) [0..<4]"

definition sha1 :: "bytes \<Rightarrow> bytes" where
  "sha1 m = concat (map be4 (foldl compress initial_hash (blocks (m @ padding (length m)))))"

section \<open>The block transformation\<close>

lemma SHA1CircularShift_rotl:
  assumes "n < 32"
  shows "SHA1CircularShift n w = word_rotl n w"
proof (rule bit_word_eqI)
  fix i assume "i < LENGTH(32)"
  then have i: "i < 32" by simp
  show "bit (SHA1CircularShift n w) i = bit (word_rotl n w) i"
  proof (cases "n \<le> i")
    case True
    then have "(i + (32 - n)) mod 32 = i - n" using assms i by (simp add: mod_if)
    moreover have "\<not> bit w (32 + i - n)" using True by (auto dest: bit_imp_le_length)
    ultimately show ?thesis using assms i True
      by (simp add: SHA1CircularShift_def bit_or_iff bit_push_bit_iff bit_drop_bit_eq bit_word_rotl_iff)
  next
    case False
    then have "(i + (32 - n)) mod 32 = 32 - n + i" using assms i by simp
    then show ?thesis using assms i False
      by (simp add: SHA1CircularShift_def bit_or_iff bit_push_bit_iff bit_drop_bit_eq bit_word_rotl_iff)
  qed
qed

lemma or_disjoint: "a AND b = 0 \<Longrightarrow> a OR b = a + b" for a b :: u32
  by (simp add: disjunctive_add_eq_or)

lemma bytes_to_word:
  fixes a b c d :: byte
  shows "push_bit 24 (ucast a) OR push_bit 16 (ucast b) OR push_bit 8 (ucast c) OR (ucast d :: u32) =
     word_of_nat (big_endian [a, b, c, d])"
proof -
  have small: "\<not> bit (x :: byte) n" if "8 \<le> n" for x n using that by (auto dest: bit_imp_le_length)
  have cd: "push_bit 8 (ucast c) OR (ucast d :: u32) = push_bit 8 (ucast c) + ucast d"
    by (rule or_disjoint, rule bit_word_eqI) (use small in \<open>auto simp: bit_simps\<close>)
  have bcd: "push_bit 16 (ucast b) OR (push_bit 8 (ucast c) OR (ucast d :: u32)) =
      push_bit 16 (ucast b) + (push_bit 8 (ucast c) OR ucast d)"
    by (rule or_disjoint, rule bit_word_eqI) (use small in \<open>auto simp: bit_simps\<close>)
  have abcd: "push_bit 24 (ucast a) OR (push_bit 16 (ucast b) OR (push_bit 8 (ucast c) OR (ucast d :: u32))) =
      push_bit 24 (ucast a) + (push_bit 16 (ucast b) OR (push_bit 8 (ucast c) OR ucast d))"
    by (rule or_disjoint, rule bit_word_eqI) (use small in \<open>auto simp: bit_simps\<close>)
  have u: "(word_of_nat (unat x) :: u32) = ucast x" for x :: byte by (simp add: word_eq_iff_unsigned)
  show ?thesis
    unfolding or.assoc unfolding abcd unfolding bcd unfolding cd
    by (simp add: big_endian_def u push_bit_eq_mult algebra_simps)
qed

lemma block_word_big_endian:
  assumes "length block = 64" "t < 16"
  shows "block_word block t = word_of_nat (big_endian (take 4 (drop (4 * t) block)))"
proof -
  have "take 4 (drop (4 * t) block) =
      [block ! (t * 4), block ! (t * 4 + 1), block ! (t * 4 + 2), block ! (t * 4 + 3)]"
    using assms by (auto intro!: nth_equalityI simp: less_Suc_eq numeral_eq_Suc ac_simps)
  then show ?thesis by (simp only: block_word_def bytes_to_word)
qed

lemma fold_schedule:
  assumes "length block = 64" "16 \<le> n"
  shows "fold schedule_step [16..<n] (map (block_word block) [0..<16]) = map (sched block) [0..<n]"
  using assms(2)
proof (induction n rule: dec_induct)
  case base
  then show ?case
    using assms(1) by (auto simp: sched.simps block_word_big_endian)
next
  case (step n)
  then show ?case
    by (simp add: schedule_step_def SHA1CircularShift_rotl sched.simps [of block n])
qed

lemma schedule_nth: "length block = 64 \<Longrightarrow> t < 80 \<Longrightarrow> schedule block ! t = sched block t"
  unfolding schedule_def by (subst fold_schedule) simp_all

text \<open>The four loops are the eighty steps.\<close>

lemma rounds:
  assumes "length block = 64"
  shows "t < 20 \<Longrightarrow> round0 (schedule block) t r = sha1_step (sched block) t r"
    and "20 \<le> t \<Longrightarrow> t < 40 \<Longrightarrow> round1 (schedule block) t r = sha1_step (sched block) t r"
    and "40 \<le> t \<Longrightarrow> t < 60 \<Longrightarrow> round2 (schedule block) t r = sha1_step (sched block) t r"
    and "60 \<le> t \<Longrightarrow> t < 80 \<Longrightarrow> round3 (schedule block) t r = sha1_step (sched block) t r"
  by (cases r; simp add: f_t_def K_t_def SHA1CircularShift_rotl schedule_nth [OF assms])+

lemma ProcessMessageBlock_compress:
  assumes "length (Message_Block context) = 64"
  shows "SHA1ProcessMessageBlock context = context
     \<lparr>Intermediate_Hash := compress (Intermediate_Hash context) (Message_Block context),
      Message_Block_Index := 0\<rparr>"
proof -
  let ?s = "sha1_step (sched (Message_Block context))" and ?W = "schedule (Message_Block context)"
  have upt: "[i..<j] @ [j..<k] = [i..<k]" if "i \<le> j" "j \<le> k" for i j k :: nat
    using that by (metis le_Suc_ex upt_add_eq_append)
  have split: "[0..<80] = [0..<20] @ [20..<40] @ [40..<60] @ [60..<(80::nat)]"
    by (simp only: upt)
  have "fold (round3 ?W) [60..<80] (fold (round2 ?W) [40..<60] (fold (round1 ?W) [20..<40]
      (fold (round0 ?W) [0..<20] r))) = fold ?s [0..<80] r" for r
  proof -
    have "fold (round0 ?W) [0..<20] x = fold ?s [0..<20] x" "fold (round1 ?W) [20..<40] x = fold ?s [20..<40] x"
      "fold (round2 ?W) [40..<60] x = fold ?s [40..<60] x" "fold (round3 ?W) [60..<80] x = fold ?s [60..<80] x" for x
      by ((rule fold_cong [OF refl refl], rule ext, simp only: set_upt atLeastLessThan_iff rounds [OF assms])+)
    then show ?thesis by (simp only: split fold_append comp_apply)
  qed
  then show ?thesis
    by (simp only: SHA1ProcessMessageBlock_def compress_def Let_def) (auto split: prod.splits)
qed


section \<open>Blocks\<close>

lemma blocks_append:
  "64 dvd length p \<Longrightarrow> blocks (p @ q) = blocks p @ blocks q"
proof (induction p rule: blocks.induct)
  case (1 p)
  show ?case
  proof (cases "length p < 64")
    case True
    then have "p = []" using 1(2) by (auto dest: dvd_imp_le)
    then show ?thesis by (simp add: blocks.simps [of "[]"])
  next
    case False
    then have "64 dvd length (drop 64 p)" using 1(2) by (simp add: dvd_minus_self)
    with False 1(1) show ?thesis
      by (simp add: blocks.simps [of "p @ q"] blocks.simps [of p])
  qed
qed

lemma blocks_one [simp]: "length b = 64 \<Longrightarrow> blocks b = [b]"
  by (simp add: blocks.simps [of b] blocks.simps [of "[]"])

lemma blocks_snoc: "64 dvd length p \<Longrightarrow> length b = 64 \<Longrightarrow> blocks (p @ b) = blocks p @ [b]"
  by (simp add: blocks_append)

lemma length_compress [simp]: "length (compress H b) = 5"
  by (simp add: compress_def split: prod.split)

lemma length_foldl_compress: "length H = 5 \<Longrightarrow> length (foldl compress H bs) = 5"
  by (induction bs arbitrary: H) simp_all

lemma length_hash [simp]: "length (foldl compress initial_hash bs) = 5"
  by (simp add: length_foldl_compress initial_hash_def)

section \<open>The streaming invariant\<close>

text \<open>
  The context after the bytes \<open>m\<close> have been input: the complete blocks are in the
  intermediate hash, the rest is at the front of the message block, the two length words hold the
  number of bits.
\<close>

definition bits_of_context :: "SHA1Context \<Rightarrow> nat" where
  "bits_of_context context = unat (Length_High context) * 2 ^ 32 + unat (Length_Low context)"

definition sha1_ok :: "SHA1Context \<Rightarrow> bool" where
  "sha1_ok context \<longleftrightarrow> length (Message_Block context) = 64 \<and> Message_Block_Index context < 64 \<and>
     length (Intermediate_Hash context) = 5"

definition absorbed :: "bytes \<Rightarrow> SHA1Context \<Rightarrow> bool" where
  "absorbed m context \<longleftrightarrow>
     (\<exists>p rest. m = p @ rest \<and> 64 dvd length p \<and> length rest < 64 \<and>
        length (Message_Block context) = 64 \<and> Message_Block_Index context = length rest \<and>
        take (length rest) (Message_Block context) = rest \<and>
        Intermediate_Hash context = foldl compress initial_hash (blocks p)) \<and>
     bits_of_context context = 8 * length m \<and> \<not> Computed context \<and> Corrupted context = 0"

lemma absorbed_ok: "absorbed m context \<Longrightarrow> sha1_ok context"
  by (auto simp: absorbed_def sha1_ok_def)

lemma Reset_absorbed:
  "length (Message_Block context) = 64 \<Longrightarrow> absorbed [] (snd (SHA1Reset context))"
  by (auto simp: absorbed_def SHA1Reset_def bits_of_context_def initial_hash_def
      blocks.simps [of "[]"] intro!: exI [of _ "[]"])

lemma add_length_bits:
  assumes "bits_of_context context = 8 * n" "8 * n + 8 < 2 ^ 64" "Corrupted context = 0"
  shows "bits_of_context (add_length context) = 8 * n + 8" "Corrupted (add_length context) = 0"
proof -
  let ?l = "Length_Low context" and ?h = "Length_High context"
  have lo: "unat ?l < 2 ^ 32" and hi: "unat ?h < 2 ^ 32"
    using unsigned_less [of ?l] unsigned_less [of ?h] by simp_all
  have dvd: "8 dvd unat ?l"
  proof -
    have "8 dvd unat ?h * 2 ^ 32 + unat ?l" using assms(1) by (simp add: bits_of_context_def)
    moreover have "8 dvd unat ?h * 2 ^ 32" by simp
    ultimately show ?thesis using dvd_add_right_iff by blast
  qed
  have l8: "unat (?l + 8) = (unat ?l + 8) mod 2 ^ 32" by (simp add: unat_word_ariths)
  have h1: "unat (?h + 1) = (unat ?h + 1) mod 2 ^ 32" by (simp add: unat_word_ariths)
  have "bits_of_context (add_length context) = 8 * n + 8 \<and> Corrupted (add_length context) = 0"
  proof (cases "unat ?l + 8 = 2 ^ 32")
    case True
    then have z: "?l + 8 = 0" using l8 by (simp add: unat_eq_0)
    have "unat ?h + 1 < 2 ^ 32" using True assms(1,2) by (simp add: bits_of_context_def)
    then have h: "unat (?h + 1) = unat ?h + 1" using h1 by simp
    then have "?h + 1 \<noteq> 0" by (metis Suc_eq_plus1 nat.distinct(1) unsigned_0)
    then show ?thesis
      using z h assms(1,3) True by (simp_all add: add_length_def bits_of_context_def Let_def)
  next
    case False
    then have "unat ?l + 8 < 2 ^ 32" using lo dvd by (auto elim!: dvdE)
    then have l: "unat (?l + 8) = unat ?l + 8" using l8 by simp
    then have "?l + 8 \<noteq> 0" by (metis add_is_0 unsigned_0 zero_neq_numeral)
    then show ?thesis
      using l assms(1,3) by (simp_all add: add_length_def bits_of_context_def Let_def)
  qed
  then show "bits_of_context (add_length context) = 8 * n + 8" "Corrupted (add_length context) = 0"
    by simp_all
qed

lemma add_length_frame [simp]:
  "Message_Block (add_length context) = Message_Block context"
  "Message_Block_Index (add_length context) = Message_Block_Index context"
  "Intermediate_Hash (add_length context) = Intermediate_Hash context"
  "Computed (add_length context) = Computed context"
  by (simp_all add: add_length_def Let_def)

lemma store_byte_frame [simp]:
  "Intermediate_Hash (store_byte b context) = Intermediate_Hash context"
  "Computed (store_byte b context) = Computed context"
  "Corrupted (store_byte b context) = Corrupted context"
  "length (Message_Block (store_byte b context)) = length (Message_Block context)"
  "Message_Block_Index (store_byte b context) = Message_Block_Index context + 1"
  "bits_of_context (store_byte b context) = bits_of_context context"
  by (simp_all add: store_byte_def bits_of_context_def)

lemma take_store_byte:
  "Message_Block_Index context < length (Message_Block context) \<Longrightarrow>
     take (Message_Block_Index context + 1) (Message_Block (store_byte b context)) =
     take (Message_Block_Index context) (Message_Block context) @ [b]"
  by (simp add: store_byte_def take_Suc_conv_app_nth)


lemma input_byte_absorbed:
  assumes "absorbed m context" "8 * (length m + 1) < 2 ^ 64"
  shows "absorbed (m @ [b]) (input_byte b context)"
proof -
  obtain p rest where m: "m = p @ rest" "64 dvd length p" "length rest < 64"
    and c: "length (Message_Block context) = 64" "Message_Block_Index context = length rest"
      "take (length rest) (Message_Block context) = rest"
      "Intermediate_Hash context = foldl compress initial_hash (blocks p)"
    and st: "bits_of_context context = 8 * length m" "\<not> Computed context" "Corrupted context = 0"
    using assms(1) by (auto simp: absorbed_def)
  define c2 where "c2 = add_length (store_byte b context)"
  have len: "length (Message_Block c2) = 64" "Message_Block_Index c2 = length (rest @ [b])"
      "Intermediate_Hash c2 = foldl compress initial_hash (blocks p)" "\<not> Computed c2"
    using c st by (simp_all add: c2_def)
  have tk: "take (length (rest @ [b])) (Message_Block c2) = rest @ [b]"
    using take_store_byte [of "context" b] c m(3) by (simp add: c2_def)
  have bits: "bits_of_context c2 = 8 * length (m @ [b])" "Corrupted c2 = 0"
    using add_length_bits [of "store_byte b context" "length m"] st assms(2) by (simp_all add: c2_def)
  show ?thesis
  proof (cases "length (rest @ [b]) = 64")
    case True
    then have blk: "Message_Block c2 = rest @ [b]" using tk len(1) by simp
    have "input_byte b context = SHA1ProcessMessageBlock c2"
      using True len(2) by (simp add: input_byte_def c2_def [symmetric] Let_def)
    also have "\<dots> = c2\<lparr>Intermediate_Hash := compress (Intermediate_Hash c2) (rest @ [b]),
        Message_Block_Index := 0\<rparr>"
      using ProcessMessageBlock_compress [OF len(1)] blk by simp
    finally have "input_byte b context = \<dots>" .
    moreover have "blocks (p @ rest @ [b]) = blocks p @ [rest @ [b]]"
      using blocks_snoc [OF m(2) True] by simp
    ultimately show ?thesis
      using m len bits True unfolding absorbed_def bits_of_context_def
      by (intro conjI exI [of _ "p @ rest @ [b]"] exI [of _ "[]"]) simp_all
  next
    case False
    then have "input_byte b context = c2"
      using len(2) by (simp add: input_byte_def c2_def [symmetric] Let_def)
    then show ?thesis
      using m len bits tk False unfolding absorbed_def
      by (intro conjI exI [of _ p] exI [of _ "rest @ [b]"]) simp_all
  qed
qed

lemma input_loop_absorbed:
  "absorbed m context \<Longrightarrow> 8 * length (m @ bs) < 2 ^ 64 \<Longrightarrow> absorbed (m @ bs) (input_loop bs context)"
proof (induction bs arbitrary: m "context")
  case (Cons b bs)
  have "absorbed (m @ [b]) (input_byte b context)"
    using input_byte_absorbed Cons.prems by simp
  then have "absorbed ((m @ [b]) @ bs) (input_loop bs (input_byte b context))"
    using Cons.IH [of "m @ [b]"] Cons.prems(2) by simp
  then show ?case using Cons.prems(1) by (simp add: absorbed_def)
qed simp

lemma SHA1Input_absorbed:
  assumes "absorbed m context" "8 * length (m @ bs) < 2 ^ 64"
  shows "fst (SHA1Input context bs) = shaSuccess \<and> absorbed (m @ bs) (snd (SHA1Input context bs))"
proof (cases "bs = []")
  case True
  then show ?thesis using assms(1) by (simp add: SHA1Input_def)
next
  case False
  then show ?thesis
    using assms(1) input_loop_absorbed [OF assms] by (simp add: SHA1Input_def absorbed_def)
qed

section \<open>Padding\<close>

lemma zero_until_closed:
  "Message_Block_Index context \<le> n \<Longrightarrow> n \<le> length (Message_Block context) \<Longrightarrow>
   zero_until n context = context
     \<lparr>Message_Block := take (Message_Block_Index context) (Message_Block context) @
         replicate (n - Message_Block_Index context) 0 @ drop n (Message_Block context),
      Message_Block_Index := n\<rparr>"
proof (induction n "context" rule: zero_until.induct)
  case (1 n c)
  let ?i = "Message_Block_Index c"
  show ?case
  proof (cases "?i < n")
    case True
    have lt: "?i < length (Message_Block c)" using True 1(3) by simp
    have "zero_until n (store_byte 0 c) = (store_byte 0 c)
       \<lparr>Message_Block := (take ?i (Message_Block c) @ [0]) @ replicate (n - (?i + 1)) 0 @
          drop n (Message_Block c), Message_Block_Index := n\<rparr>"
      using 1(1) [OF True] True 1(3) take_store_byte [OF lt, of 0] by (simp add: store_byte_def)
    moreover have "replicate (n - ?i) (0::byte) = 0 # replicate (n - (?i + 1)) 0"
      using True by (simp add: Suc_diff_Suc flip: replicate_Suc)
    ultimately show ?thesis using True by (subst zero_until.simps) (simp add: store_byte_def)
  next
    case False
    then have "?i = n" using 1(2) by simp
    then show ?thesis by (subst zero_until.simps) simp
  qed
qed

lemma word_unsigned_cast: "(ucast w :: byte) = word_of_nat (unat w)" for w :: u32
  by simp

lemma byte_of_word_nat: "byte_of_word k w = word_of_nat (unat w div 2 ^ k)"
proof -
  have "unat w < 2 ^ 32" using unsigned_less [of w] by simp
  then have e: "unat (drop_bit k w) = unat w div 2 ^ k"
    by (simp add: unsigned_drop_bit_eq take_bit_nat_eq_self flip: drop_bit_eq_div)
  have "byte_of_word k w = word_of_nat (unat (drop_bit k w))"
    unfolding byte_of_word_def by (rule word_unsigned_cast)
  then show ?thesis by (simp only: e)
qed

lemma store_length_field:
  assumes "length (Message_Block context) = 64"
  shows "Message_Block (store_length context) =
     take 56 (Message_Block context) @ length_field (bits_of_context context)"
proof -
  let ?h = "unat (Length_High context)" and ?l = "unat (Length_Low context)"
  let ?n = "?h * 2 ^ 32 + ?l"
  have lo: "?l < 2 ^ 32" using unsigned_less [of "Length_Low context"] by simp
  have high: "?n div 2 ^ (32 + j) = ?h div 2 ^ j" for j
    using lo by (simp add: power_add div_mult2_eq)
  have low: "(word_of_nat (?n div 2 ^ j) :: byte) = word_of_nat (?l div 2 ^ j)" if "j + 8 \<le> 32" for j
  proof -
    define k where "k = 24 - j"
    have "8 + k + j = 32" using that by (simp add: k_def)
    then have "?h * 2 ^ 32 = ?h * 2 ^ (8 + k) * 2 ^ j" by (simp only: mult.assoc flip: power_add)
    then have "?n div 2 ^ j = ?h * 2 ^ (8 + k) + ?l div 2 ^ j" by (simp only:) simp
    moreover have "(word_of_nat (?h * 2 ^ (8 + k)) :: byte) = 0"
      by (subst word_of_nat_eq_0_iff) (simp add: power_add)
    ultimately show ?thesis by simp
  qed
  have upt8: "[0..<8] = [0, 1, 2, 3, 4, 5, 6, 7 :: nat]" by (simp add: upt_rec)
  have split: "length_field ?n =
     [word_of_nat (?n div 2 ^ (32 + 24)), word_of_nat (?n div 2 ^ (32 + 16)),
      word_of_nat (?n div 2 ^ (32 + 8)), word_of_nat (?n div 2 ^ (32 + 0)),
      word_of_nat (?n div 2 ^ 24), word_of_nat (?n div 2 ^ 16),
      word_of_nat (?n div 2 ^ 8), word_of_nat (?n div 2 ^ 0)]"
    by (simp add: length_field_def upt8)
  have lows: "(word_of_nat (?n div 2 ^ 24) :: byte) = word_of_nat (?l div 2 ^ 24)"
      "(word_of_nat (?n div 2 ^ 16) :: byte) = word_of_nat (?l div 2 ^ 16)"
      "(word_of_nat (?n div 2 ^ 8) :: byte) = word_of_nat (?l div 2 ^ 8)"
      "(word_of_nat (?n div 2 ^ 0) :: byte) = word_of_nat (?l div 2 ^ 0)"
    by (rule low; simp)+
  have field: "length_field (bits_of_context context) =
     [byte_of_word 24 (Length_High context), byte_of_word 16 (Length_High context),
      byte_of_word 8 (Length_High context), byte_of_word 0 (Length_High context),
      byte_of_word 24 (Length_Low context), byte_of_word 16 (Length_Low context),
      byte_of_word 8 (Length_Low context), byte_of_word 0 (Length_Low context)]"
    by (simp only: bits_of_context_def byte_of_word_nat split high lows)
  show ?thesis unfolding field store_length_def using assms
    by (auto intro!: nth_equalityI simp: nth_append nth_list_update nth_Cons')
qed

text \<open>
  \<open>pad_from pre c\<close>: the message block starts with \<open>pre\<close> and the index is past it.
  Zero-filling up to 64 or 56 then gives the block in closed form.
\<close>

lemma store_byte_closed:
  assumes "length (Message_Block c) = 64" "take (Message_Block_Index c) (Message_Block c) = rest"
    "Message_Block_Index c = length rest" "length rest < 64"
  shows "take (length rest + 1) (Message_Block (store_byte b c)) = rest @ [b]"
  using take_store_byte [of c b] assms by simp

lemma zero_fill:
  assumes "length (Message_Block c) = 64" "take (length pre) (Message_Block c) = pre"
    "Message_Block_Index c = length pre" "length pre \<le> n" "n \<le> 64"
  shows "Intermediate_Hash (zero_until n c) = Intermediate_Hash c"
    "bits_of_context (zero_until n c) = bits_of_context c"
    "Computed (zero_until n c) = Computed c" "Corrupted (zero_until n c) = Corrupted c"
    "take n (Message_Block (zero_until n c)) = pre @ replicate (n - length pre) 0"
    "length (Message_Block (zero_until n c)) = 64" "Message_Block_Index (zero_until n c) = n"
proof -
  have c: "zero_until n c = c\<lparr>Message_Block := pre @ replicate (n - length pre) 0 @ drop n (Message_Block c),
      Message_Block_Index := n\<rparr>"
    using zero_until_closed [of c n] assms by simp
  show "Intermediate_Hash (zero_until n c) = Intermediate_Hash c"
    "bits_of_context (zero_until n c) = bits_of_context c"
    "Computed (zero_until n c) = Computed c" "Corrupted (zero_until n c) = Corrupted c"
    "take n (Message_Block (zero_until n c)) = pre @ replicate (n - length pre) 0"
    "length (Message_Block (zero_until n c)) = 64" "Message_Block_Index (zero_until n c) = n"
    using assms by (simp_all add: c bits_of_context_def)
qed

lemma store_length_frame [simp]:
  "Intermediate_Hash (store_length c) = Intermediate_Hash c"
  "Computed (store_length c) = Computed c" "Corrupted (store_length c) = Corrupted c"
  "length (Message_Block (store_length c)) = length (Message_Block c)"
  by (simp_all add: store_length_def)

lemma length_length_field [simp]: "length (length_field n) = 8"
  by (simp add: length_field_def)

text \<open>From a zero-filled block: the length goes in, the block is processed.\<close>

lemma finish_block:
  assumes "length (Message_Block c) = 64"
  shows "SHA1ProcessMessageBlock (store_length c) = (store_length c)
    \<lparr>Intermediate_Hash := compress (Intermediate_Hash c)
         (take 56 (Message_Block c) @ length_field (bits_of_context c)), Message_Block_Index := 0\<rparr>"
  using ProcessMessageBlock_compress [of "store_length c"] assms by (simp add: store_length_field)

lemma padding_short:
  "length p mod 64 = 0 \<Longrightarrow> length rest \<le> 55 \<Longrightarrow> padding (length (p @ rest)) =
     0x80 # replicate (55 - length rest) 0 @ length_field (8 * length (p @ rest))"
proof -
  assume a: "length p mod 64 = 0" "length rest \<le> 55"
  then have "(length p + length rest) mod 64 = length rest" by (metis add_0 le_less_trans mod_add_left_eq mod_less numeral_less_iff semiring_norm(76,78,79,80,81) nat_less_le)
  then have "(119 - (length p + length rest) mod 64) mod 64 = 55 - length rest" using a(2)
    by (simp add: mod_if)
  then show ?thesis by (simp add: padding_def)
qed

lemma padding_long:
  "length p mod 64 = 0 \<Longrightarrow> 55 < length rest \<Longrightarrow> length rest < 64 \<Longrightarrow> padding (length (p @ rest)) =
     (0x80 # replicate (63 - length rest) 0) @ replicate 56 0 @ length_field (8 * length (p @ rest))"
proof -
  assume a: "length p mod 64 = 0" "55 < length rest" "length rest < 64"
  then have "(length p + length rest) mod 64 = length rest" by (metis add_0 mod_add_left_eq mod_less)
  then have "(119 - (length p + length rest) mod 64) mod 64 = (63 - length rest) + 56" using a(2,3)
    by simp
  then show ?thesis by (simp add: padding_def replicate_add)
qed

lemma PadMessage_hash:
  assumes "absorbed m context"
  shows "Intermediate_Hash (SHA1PadMessage context) =
      foldl compress initial_hash (blocks (m @ padding (length m)))"
    and "length (Message_Block (SHA1PadMessage context)) = 64"
    and "Corrupted (SHA1PadMessage context) = 0"
proof -
  obtain p rest where m: "m = p @ rest" "64 dvd length p" "length rest < 64"
    and c: "length (Message_Block context) = 64" "Message_Block_Index context = length rest"
      "take (length rest) (Message_Block context) = rest"
      "Intermediate_Hash context = foldl compress initial_hash (blocks p)"
    and st: "bits_of_context context = 8 * length m" "\<not> Computed context" "Corrupted context = 0"
    using assms by (auto simp: absorbed_def)
  define c1 where "c1 = store_byte 0x80 context"
  have c1: "length (Message_Block c1) = 64" "Message_Block_Index c1 = length (rest @ [0x80])"
      "take (length (rest @ [0x80])) (Message_Block c1) = rest @ [0x80]"
      "Intermediate_Hash c1 = foldl compress initial_hash (blocks p)"
      "bits_of_context c1 = 8 * length m" "Corrupted c1 = 0"
    using c st m(3) store_byte_closed [of "context" rest "0x80"] by (simp_all add: c1_def)
  have dv: "length p mod 64 = 0" using m(2) by simp
  have "Intermediate_Hash (SHA1PadMessage context) =
      foldl compress initial_hash (blocks (m @ padding (length m))) \<and>
    length (Message_Block (SHA1PadMessage context)) = 64 \<and> Corrupted (SHA1PadMessage context) = 0"
  proof (cases "length rest \<le> 55")
    case True
    define c2 where "c2 = zero_until 56 c1"
    note z = zero_fill [OF c1(1,3,2), of 56, folded c2_def]
    have pad: "SHA1PadMessage context = SHA1ProcessMessageBlock (store_length c2)"
      using True c(2) by (simp add: SHA1PadMessage_def c1_def c2_def Let_def)
    define last where "last = rest @ 0x80 # replicate (55 - length rest) 0 @ length_field (8 * length m)"
    have len: "length last = 64" using True by (simp add: last_def)
    have "m @ padding (length m) = p @ last"
      using padding_short [OF dv True] by (simp add: m(1) last_def)
    then have b: "blocks (m @ padding (length m)) = blocks p @ [last]"
      using blocks_snoc [OF m(2) len] by simp
    have "take 56 (Message_Block c2) @ length_field (bits_of_context c2) = last"
      using z True c1 by (simp add: last_def)
    then show ?thesis
      using finish_block [of c2] z True c1 by (simp add: pad b)
  next
    case False
    define c2 where "c2 = SHA1ProcessMessageBlock (zero_until 64 c1)"
    define c3 where "c3 = zero_until 56 c2"
    note y = zero_fill [OF c1(1,3,2), of 64]
    define mid where "mid = rest @ 0x80 # replicate (63 - length rest) 0"
    have mid: "Message_Block (zero_until 64 c1) = mid" "length mid = 64"
      using y m(3) by (simp_all add: mid_def)
    have c2: "Intermediate_Hash c2 = compress (Intermediate_Hash c1) mid" "Message_Block c2 = mid"
        "Message_Block_Index c2 = 0" "bits_of_context c2 = bits_of_context c1" "Corrupted c2 = 0"
      using ProcessMessageBlock_compress [of "zero_until 64 c1"] mid y m(3) c1
      by (simp_all add: c2_def bits_of_context_def)
    note z = zero_fill [of c2 "[]" 56, folded c3_def]
    have pad: "SHA1PadMessage context = SHA1ProcessMessageBlock (store_length c3)"
      using False c(2) by (simp add: SHA1PadMessage_def c1_def c2_def c3_def Let_def)
    define last where "last = replicate 56 0 @ length_field (8 * length m)"
    have len: "length last = 64" by (simp add: last_def)
    have "m @ padding (length m) = (p @ mid) @ last"
      using padding_long [OF dv _ m(3)] False by (simp add: m(1) mid_def last_def)
    moreover have "64 dvd length (p @ mid)" using m(2) mid(2) by simp
    then have "blocks ((p @ mid) @ last) = blocks p @ [mid, last]"
      using blocks_snoc [OF m(2) mid(2)] by (simp only: blocks_snoc [OF _ len]) simp
    ultimately have b: "blocks (m @ padding (length m)) = blocks p @ [mid, last]"
      by simp
    have "take 56 (Message_Block c3) @ length_field (bits_of_context c3) = last"
      using z c2 c1 mid(2) by (simp add: last_def)
    then show ?thesis
      using finish_block [of c3] z c2 c1 mid(2) by (simp add: pad b)
  qed
  then show "Intermediate_Hash (SHA1PadMessage context) =
      foldl compress initial_hash (blocks (m @ padding (length m)))"
    "length (Message_Block (SHA1PadMessage context)) = 64" "Corrupted (SHA1PadMessage context) = 0"
    by simp_all
qed

section \<open>The whole computation\<close>

lemma list5: "length H = 5 \<Longrightarrow> H = [H ! 0, H ! 1, H ! 2, H ! 3, H ! 4]"
  by (auto intro!: nth_equalityI simp: less_Suc_eq numeral_eq_Suc)

lemma digest_bytes_be4:
  assumes "length H = 5"
  shows "digest_bytes H = concat (map be4 H)"
proof -
  have upt4: "[0..<4] = [0, 1, 2, 3 :: nat]" by (simp add: upt_rec)
  have b: "be4 w = [byte_of_word 24 w, byte_of_word 16 w, byte_of_word 8 w, byte_of_word 0 w]" for w
    by (simp add: be4_def upt4 byte_of_word_nat)
  have upt20: "[0..<20] = [0,1,2,3,4,5,6,7,8,9,10,11,12,13,14,15,16,17,18,19 :: nat]"
    by (simp add: upt_rec)
  show ?thesis
    by (subst (2) list5 [OF assms]) (simp add: digest_bytes_def upt20 b)
qed

lemma SHA1Result_absorbed:
  assumes "absorbed m context"
  shows "fst (SHA1Result context) = shaSuccess"
    and "fst (snd (SHA1Result context)) = Some (sha1 m)"
  using assms PadMessage_hash [OF assms]
  by (auto simp: SHA1Result_def Let_def sha1_def digest_bytes_be4 absorbed_def)

lemma length_sha1 [simp]: "length (sha1 m) = 20"
  using digest_bytes_be4 [OF length_hash, of "blocks (m @ padding (length m))"]
  by (simp add: sha1_def digest_bytes_def flip: digest_bytes_be4)

section \<open>Bounds\<close>

text \<open>The block is never left, whatever is put in and in whatever state.\<close>

lemma ProcessMessageBlock_ok:
  "length (Message_Block c) = 64 \<Longrightarrow> sha1_ok (SHA1ProcessMessageBlock c)"
  by (simp add: ProcessMessageBlock_compress sha1_ok_def)

lemma input_byte_ok:
  assumes "sha1_ok c"
  shows "sha1_ok (input_byte b c)"
proof (cases "Message_Block_Index c = 63")
  case True
  then show ?thesis using assms ProcessMessageBlock_ok [of "add_length (store_byte b c)"]
    by (simp add: input_byte_def Let_def sha1_ok_def)
next
  case False
  then show ?thesis using assms by (simp add: input_byte_def Let_def sha1_ok_def)
qed

lemma input_loop_ok: "sha1_ok c \<Longrightarrow> sha1_ok (input_loop bs c)"
  by (induction bs arbitrary: c) (simp_all add: input_byte_ok)

lemma SHA1Input_ok: "sha1_ok c \<Longrightarrow> sha1_ok (snd (SHA1Input c bs))"
  using input_loop_ok by (auto simp: SHA1Input_def) (auto simp: sha1_ok_def)

lemma PadMessage_ok:
  assumes "sha1_ok c"
  shows "sha1_ok (SHA1PadMessage c)"
proof -
  let ?c = "store_byte 0x80 c"
  have fill: "length (Message_Block (zero_until n d)) = 64"
    if "Message_Block_Index d \<le> n" "n \<le> 64" "length (Message_Block d) = 64" for n and d :: SHA1Context
    using that zero_until_closed [of d n] by simp
  have "length (Message_Block (SHA1ProcessMessageBlock (zero_until 64 ?c))) = 64"
      "Message_Block_Index (SHA1ProcessMessageBlock (zero_until 64 ?c)) = 0"
    using assms fill [of ?c 64] ProcessMessageBlock_compress [of "zero_until 64 ?c"] by (simp_all add: sha1_ok_def)
  then show ?thesis
    using assms fill [of ?c 56] fill [of "SHA1ProcessMessageBlock (zero_until 64 ?c)" 56]
    by (auto simp: SHA1PadMessage_def Let_def sha1_ok_def ProcessMessageBlock_compress)
qed

lemma SHA1Result_ok: "sha1_ok c \<Longrightarrow> sha1_ok (snd (snd (SHA1Result c)))"
  using PadMessage_ok by (auto simp: SHA1Result_def Let_def) (auto simp: sha1_ok_def)

text \<open>The length counter, with the marking of a wrap.\<close>

lemma mod_zero_top: "0 < x \<Longrightarrow> x \<le> m \<Longrightarrow> x mod m = 0 \<longleftrightarrow> x = m" for x m :: nat
  by (cases "x < m") auto

lemma add_length_exact:
  assumes "8 dvd bits_of_context c"
  shows "bits_of_context (add_length c) = (bits_of_context c + 8) mod 2 ^ 64 \<and>
    Corrupted (add_length c) = (if 2 ^ 64 \<le> bits_of_context c + 8 then shaNull else Corrupted c)"
proof -
  let ?l = "unat (Length_Low c)" and ?h = "unat (Length_High c)"
  have b: "?l < 2 ^ 32" "?h < 2 ^ 32" by (rule order_less_le_trans [OF unsigned_less], simp)+
  have "8 dvd ?h * (2 ^ 32 :: nat)" by (rule dvd_mult) simp
  then have d: "8 dvd ?l" using assms unfolding bits_of_context_def by (simp only: dvd_add_right_iff)
  then obtain k where "?l = 8 * k" by (rule dvdE)
  then have room: "?l + 8 \<le> 2 ^ 32" using b(1) by simp
  have low: "unat (Length_Low c + 8) = (?l + 8) mod 2 ^ 32" by (simp add: unat_word_ariths)
  have high: "unat (Length_High c + 1) = (?h + 1) mod 2 ^ 32" by (simp add: unat_word_ariths)
  have z: "Length_Low c + 8 = 0 \<longleftrightarrow> ?l + 8 = 2 ^ 32"
  proof -
    have "Length_Low c + 8 = 0 \<longleftrightarrow> unat (Length_Low c + 8) = 0" by (simp add: unat_eq_0)
    also have "\<dots> \<longleftrightarrow> ?l + 8 = 2 ^ 32" unfolding low using mod_zero_top room by simp
    finally show ?thesis .
  qed
  have zh: "Length_High c + 1 = 0 \<longleftrightarrow> ?h + 1 = 2 ^ 32"
  proof -
    have "Length_High c + 1 = 0 \<longleftrightarrow> unat (Length_High c + 1) = 0" by (simp add: unat_eq_0)
    also have "\<dots> \<longleftrightarrow> ?h + 1 = 2 ^ 32" unfolding high using mod_zero_top b(2) by simp
    finally show ?thesis .
  qed
  show ?thesis
  proof (cases "Length_Low c + 8 = 0")
    case True
    then have l: "?l = 2 ^ 32 - 8" using z by simp
    show ?thesis
    proof (cases "Length_High c + 1 = 0")
      case h: True
      then have "?h = 2 ^ 32 - 1" using zh by simp
      then show ?thesis using True h l by (simp add: add_length_def Let_def bits_of_context_def shaNull_def)
    next
      case False
      then have "?h + 1 < 2 ^ 32" using b(2) zh by simp
      then show ?thesis using True False l high
        by (simp add: add_length_def Let_def bits_of_context_def shaNull_def)
    qed
  next
    case False
    then have "?l + 8 < 2 ^ 32" using z room by simp
    then show ?thesis using False low b(2)
      by (simp add: add_length_def Let_def bits_of_context_def)
  qed
qed

end
