(* ===== verification/FileIO.thy ===== *)
theory FileIO
  imports Prelude
begin

text \<open>
  The class \<open>File\<close> of nhbackup.h and file.cc: buffered reading and writing on top of the
  virtual functions \<open>readbytes\<close>, \<open>writebytes\<close> and \<open>synchronize\<close>, which are
  arguments here. The interfaces \<open>byte_source\<close> and \<open>byte_sink\<close> state what a subclass
  promises; inside them the buffering is proved to be invisible.
\<close>

section \<open>State\<close>

datatype file_mode = ModeNone | Reading | Writing

definition BUFFER_SIZE :: nat where
  "BUFFER_SIZE = 4096"

text \<open>
  The pointers \<open>next\<close> and \<open>top\<close> are offsets into \<open>buffer\<close> (both 0 where the
  code has null pointers); \<open>dev\<close> is the state of the subclass.
\<close>

record 'd fileobj =
  buffer :: bytes
  next_pos :: nat
  top_pos :: nat
  mode :: file_mode
  eof :: bool
  dev :: 'd

definition File :: "bytes \<Rightarrow> 'd \<Rightarrow> 'd fileobj" where
  "File garbage d = \<lparr>buffer = garbage, next_pos = 0, top_pos = 0, mode = ModeNone, eof = False, dev = d\<rparr>"

type_synonym 'd reader = "nat \<Rightarrow> ('d, bytes) prog"
type_synonym 'd writer = "bytes \<Rightarrow> ('d, unit) prog"

text \<open>Running a function of the subclass inside the file.\<close>

definition on_dev :: "('d, 'a) prog \<Rightarrow> ('d fileobj, 'a) prog" where
  "on_dev m f = (case m (dev f) of (r, d) \<Rightarrow> (r, f\<lparr>dev := d\<rparr>))"

section \<open>Reading\<close>

definition fill :: "'d reader \<Rightarrow> ('d fileobj, nat) prog" where
  "fill readbytes f =
     (if mode f = Writing then (Inl (AssertFailed ''mode != writing''), f)
      else
        let f = f\<lparr>mode := Reading\<rparr>
        in if \<not> eof f then
             andThen (on_dev (readbytes BUFFER_SIZE))
               (\<lambda>bs f. (Inr (length bs),
                  f\<lparr>buffer := bs @ drop (length bs) (buffer f), next_pos := 0, top_pos := length bs,
                    eof := (bs = [])\<rparr>)) f
           else (Inr 0, f))"

text \<open>\<open>None\<close> is the result \<open>EOF\<close>.\<close>

definition getch :: "'d reader \<Rightarrow> ('d fileobj, byte option) prog" where
  "getch readbytes f =
     andThen (\<lambda>f. if next_pos f = top_pos f then fill readbytes f else (Inr 1, f))
       (\<lambda>n f. if n = 0 then (Inr None, f)
              else (Inr (Some (buffer f ! next_pos f)), f\<lparr>next_pos := next_pos f + 1\<rparr>)) f"

text \<open>
  \<open>getline\<close> may not return on a device that never ends, hence the option: \<open>None\<close> is
  "does not return". The value is the line, or \<open>None\<close> at end of file.
\<close>

partial_function (option) getline_loop ::
  "'d reader \<Rightarrow> string \<Rightarrow> 'd fileobj \<Rightarrow> ((exn + string option) \<times> 'd fileobj) option" where
  "getline_loop readbytes r f =
     (case getch readbytes f of
        (Inl e, f') \<Rightarrow> Some (Inl e, f')
      | (Inr None, f') \<Rightarrow> Some (Inr (if r \<noteq> [] then Some r else None), f')
      | (Inr (Some c), f') \<Rightarrow>
          if c = 0x0A then Some (Inr (Some r), f')
          else getline_loop readbytes (r @ [char_of_byte c]) f')"

declare getline_loop.simps [code]

definition getline :: "'d reader \<Rightarrow> 'd fileobj \<Rightarrow> ((exn + string option) \<times> 'd fileobj) option" where
  "getline readbytes f = getline_loop readbytes [] f"

text \<open>The middle of the loop of \<open>getbytes\<close>: from the buffer, or past it for large reads.\<close>

definition getbytes_chunk :: "'d reader \<Rightarrow> nat \<Rightarrow> ('d fileobj, bytes) prog" where
  "getbytes_chunk readbytes mx f =
     (if next_pos f < top_pos f then
        let n = (if top_pos f - next_pos f < mx then top_pos f - next_pos f else mx)
        in (Inr (take n (drop (next_pos f) (buffer f))), f\<lparr>next_pos := next_pos f + n\<rparr>)
      else on_dev (readbytes mx) f)"

function getbytes_loop :: "'d reader \<Rightarrow> bool \<Rightarrow> nat \<Rightarrow> bytes \<Rightarrow> ('d fileobj, bytes) prog" where
  "getbytes_loop readbytes all mx got f =
     (case (if next_pos f = top_pos f \<and> mx < BUFFER_SIZE \<and> \<not> eof f then fill readbytes f
            else (Inr 1, f)) of
        (Inl e, f1) \<Rightarrow> (Inl e, f1)
      | (Inr filled, f1) \<Rightarrow>
          if filled = 0 then (Inr got, f1)
          else
            (case getbytes_chunk readbytes mx f1 of
               (Inl e, f2) \<Rightarrow> (Inl e, f2)
             | (Inr bs, f2) \<Rightarrow>
                 let f3 = (if bs = [] then f2\<lparr>eof := True\<rparr> else f2)
                 in if all \<and> \<not> eof f3 \<and> length bs < mx
                    then getbytes_loop readbytes all (mx - length bs) (got @ bs) f3
                    else (Inr (got @ bs), f3)))"
  by pat_completeness auto
termination
  by (relation "measure (\<lambda>(_, _, mx, _, _). mx)") (auto split: if_splits)

declare getbytes_loop.simps [simp del]

definition getbytes :: "'d reader \<Rightarrow> nat \<Rightarrow> bool \<Rightarrow> ('d fileobj, bytes) prog" where
  "getbytes readbytes mx all f =
     (if mode f \<noteq> Reading
      then andThen (fill readbytes) (\<lambda>n. if n = 0 then ret [] else getbytes_loop readbytes all mx []) f
      else getbytes_loop readbytes all mx [] f)"

text \<open>
  The loop \<open>while((n = f->getbytes(buffer, sizeof buffer, false))) ...\<close> of hashing and of both
  copies: every chunk is handed to \<open>sink\<close>, which has a state of its own (the hash, the
  destination file). \<open>None\<close> if it does not end.
\<close>

partial_function (option) read_loop ::
  "'d reader \<Rightarrow> nat \<Rightarrow> (bytes \<Rightarrow> ('s, unit) prog) \<Rightarrow> 'd fileobj \<Rightarrow> 's \<Rightarrow>
     ((exn + unit) \<times> 'd fileobj \<times> 's) option" where
  "read_loop readbytes sz sink f s =
     (case getbytes readbytes sz False f of
        (Inl e, f') \<Rightarrow> Some (Inl e, f', s)
      | (Inr bs, f') \<Rightarrow>
          if bs = [] then Some (Inr (), f', s)
          else (case sink bs s of
                  (Inl e, s') \<Rightarrow> Some (Inl e, f', s')
                | (Inr _, s') \<Rightarrow> read_loop readbytes sz sink f' s'))"

declare read_loop.simps [code]

text \<open>The same with the chunks already there.\<close>

fun for_chunks :: "(bytes \<Rightarrow> ('s, unit) prog) \<Rightarrow> bytes list \<Rightarrow> ('s, unit) prog" where
  "for_chunks sink [] s = (Inr (), s)"
| "for_chunks sink (c # cs) s = andThen (sink c) (\<lambda>_. for_chunks sink cs) s"

text \<open>Non-empty chunks of at most \<open>sz\<close> bytes.\<close>

definition chunking :: "nat \<Rightarrow> bytes list \<Rightarrow> bool" where
  "chunking sz cs \<longleftrightarrow> (\<forall>c \<in> set cs. c \<noteq> [] \<and> length c \<le> sz)"

section \<open>The view of a caller\<close>

text \<open>
  What a reader sees of a file is the bytes still to come. A line ends before a newline or at the
  end; there is none when nothing is left.
\<close>

definition line_of :: "bytes \<Rightarrow> bytes" where
  "line_of bs = takeWhile (\<lambda>b. b \<noteq> 0x0A) bs"

definition after_line :: "bytes \<Rightarrow> bytes" where
  "after_line bs = drop (Suc (length (line_of bs))) bs"

definition getline_text :: "bytes \<Rightarrow> (string \<times> bytes) option" where
  "getline_text bs =
     (if bs = [] then None else Some (string_of_bytes (line_of bs), after_line bs))"

lemma line_of_simps [simp]:
  "line_of [] = []" "line_of (b # bs) = (if b = 0x0A then [] else b # line_of bs)"
  by (simp_all add: line_of_def)

lemma after_line_simps [simp]:
  "after_line [] = []" "after_line (b # bs) = (if b = 0x0A then bs else after_line bs)"
  by (simp_all add: after_line_def)

lemma after_line_shorter: "bs \<noteq> [] \<Longrightarrow> length (after_line bs) < length bs"
  by (simp add: after_line_def)

section \<open>Writing\<close>

definition flush :: "'d writer \<Rightarrow> ('d, unit) prog \<Rightarrow> ('d fileobj, unit) prog" where
  "flush writebytes synchronize f =
     (if mode f = Reading then (Inl (AssertFailed ''mode != reading''), f)
      else
        andThen
          (\<lambda>f. if mode f = Writing then
                 (if next_pos f \<noteq> 0 then on_dev (writebytes (take (next_pos f) (buffer f))) f
                  else (Inr (), f))
               else (Inr (), f\<lparr>mode := Writing\<rparr>))
          (\<lambda>_ f. on_dev synchronize (f\<lparr>next_pos := 0, top_pos := BUFFER_SIZE\<rparr>)) f)"

definition put_byte :: "'d writer \<Rightarrow> ('d, unit) prog \<Rightarrow> byte \<Rightarrow> ('d fileobj, unit) prog" where
  "put_byte writebytes synchronize c f =
     andThen (\<lambda>f. if next_pos f = top_pos f then flush writebytes synchronize f else (Inr (), f))
       (\<lambda>_ f. (Inr (), f\<lparr>buffer := (buffer f)[next_pos f := c], next_pos := next_pos f + 1\<rparr>)) f"

fun put :: "'d writer \<Rightarrow> ('d, unit) prog \<Rightarrow> bytes \<Rightarrow> ('d fileobj, unit) prog" where
  "put writebytes synchronize [] f = (Inr (), f)"
| "put writebytes synchronize (c # s) f =
     andThen (put_byte writebytes synchronize c) (\<lambda>_. put writebytes synchronize s) f"

text \<open>The destructor: unflushed output is a failed assertion.\<close>

definition File_destructor_ok :: "'d fileobj \<Rightarrow> bool" where
  "File_destructor_ok f = (mode f = Writing \<longrightarrow> next_pos f = 0)"

section \<open>The equations of the operations\<close>

lemma fill_eof: "mode f \<noteq> Writing \<Longrightarrow> eof f \<Longrightarrow> fill rb f = (Inr 0, f\<lparr>mode := Reading\<rparr>)"
  by (simp add: fill_def Let_def)

lemma fill_read:
  assumes "mode f \<noteq> Writing" "\<not> eof f"
  shows "fill rb f =
    (case rb BUFFER_SIZE (dev f) of
       (Inl e, d) \<Rightarrow> (Inl e, f\<lparr>mode := Reading, dev := d\<rparr>)
     | (Inr bs, d) \<Rightarrow>
         (Inr (length bs),
          f\<lparr>mode := Reading, dev := d, buffer := bs @ drop (length bs) (buffer f), next_pos := 0,
            top_pos := length bs, eof := (bs = [])\<rparr>))"
  using assms by (simp add: fill_def Let_def on_dev_def andThen_def split: prod.split sum.split)

lemma getch_buffered:
  "next_pos f \<noteq> top_pos f \<Longrightarrow>
     getch rb f = (Inr (Some (buffer f ! next_pos f)), f\<lparr>next_pos := next_pos f + 1\<rparr>)"
  by (simp add: getch_def andThen_def)

lemma getch_fill:
  "next_pos f = top_pos f \<Longrightarrow>
     getch rb f =
       (case fill rb f of
          (Inl e, f') \<Rightarrow> (Inl e, f')
        | (Inr n, f') \<Rightarrow>
            if n = 0 then (Inr None, f')
            else (Inr (Some (buffer f' ! next_pos f')), f'\<lparr>next_pos := next_pos f' + 1\<rparr>))"
  by (simp add: getch_def andThen_def)

section \<open>Interface: a byte source\<close>

text \<open>
  What \<open>readbytes\<close> promises (nhbackup.h: "Read up to SPACE bytes.  Return actual number
  read."): it takes the bytes off the front of what remains, and returns none only at the end.
\<close>

locale byte_source =
  fixes readbytes :: "'d reader"
    and remaining :: "'d \<Rightarrow> bytes"
  assumes read_front:
      "readbytes n d = (Inr bs, d') \<Longrightarrow> remaining d = bs @ remaining d' \<and> length bs \<le> n"
    and read_progress:
      "readbytes n d = (Inr [], d') \<Longrightarrow> 0 < n \<Longrightarrow> remaining d = []"
begin

text \<open>The bytes a file still has to deliver: the rest of its buffer, then the device.\<close>

definition unread :: "'d fileobj \<Rightarrow> bytes" where
  "unread f = take (top_pos f - next_pos f) (drop (next_pos f) (buffer f)) @ remaining (dev f)"

definition reader_ok :: "'d fileobj \<Rightarrow> bool" where
  "reader_ok f \<longleftrightarrow>
     length (buffer f) = BUFFER_SIZE \<and> next_pos f \<le> top_pos f \<and> top_pos f \<le> BUFFER_SIZE \<and>
     mode f \<noteq> Writing \<and> (mode f = ModeNone \<longrightarrow> next_pos f = top_pos f \<and> \<not> eof f) \<and>
     (eof f \<longrightarrow> next_pos f = top_pos f \<and> remaining (dev f) = [])"

lemma File_reader_ok: "length garbage = BUFFER_SIZE \<Longrightarrow> reader_ok (File garbage d)"
  by (simp add: reader_ok_def File_def)

lemma File_unread [simp]: "unread (File garbage d) = remaining d"
  by (simp add: unread_def File_def)

lemma fill_ok:
  assumes "reader_ok f" "next_pos f = top_pos f" "fill readbytes f = (Inr n, f')"
  shows "reader_ok f' \<and> unread f' = unread f \<and> mode f' = Reading \<and>
    (n = 0 \<longrightarrow> unread f = [] \<and> next_pos f' = top_pos f') \<and> (n \<noteq> 0 \<longrightarrow> next_pos f' < top_pos f')"
proof (cases "eof f")
  case True
  then have "n = 0" "f' = f\<lparr>mode := Reading\<rparr>"
    using assms fill_eof [of f readbytes] by (simp_all add: reader_ok_def)
  then show ?thesis using assms(1,2) True by (simp add: reader_ok_def unread_def)
next
  case False
  obtain r d' where rb: "readbytes BUFFER_SIZE (dev f) = (r, d')" by fastforce
  have w: "mode f \<noteq> Writing" using assms(1) by (simp add: reader_ok_def)
  note eq = assms(3) [unfolded fill_read [OF w False] rb]
  obtain bs where r: "r = Inr bs" using eq by (cases r) simp_all
  have n: "n = length bs"
    and f': "f' = f\<lparr>mode := Reading, dev := d', buffer := bs @ drop (length bs) (buffer f),
                next_pos := 0, top_pos := length bs, eof := (bs = [])\<rparr>"
    using eq by (auto simp: r)
  have fr: "remaining (dev f) = bs @ remaining d'" "length bs \<le> BUFFER_SIZE"
    using read_front rb r by auto
  have "bs = [] \<Longrightarrow> remaining (dev f) = []"
    using read_progress rb r by (auto simp: BUFFER_SIZE_def)
  with fr assms(1,2) False show ?thesis
    by (auto simp: f' n reader_ok_def unread_def)
qed

lemma unread_Cons:
  assumes "reader_ok f" "next_pos f < top_pos f"
  shows "unread f = buffer f ! next_pos f # unread (f\<lparr>next_pos := next_pos f + 1\<rparr>)"
proof -
  have "next_pos f < length (buffer f)" using assms by (simp add: reader_ok_def)
  then have "drop (next_pos f) (buffer f) = buffer f ! next_pos f # drop (next_pos f + 1) (buffer f)"
    by (simp add: Cons_nth_drop_Suc)
  moreover have "top_pos f - next_pos f = Suc (top_pos f - (next_pos f + 1))"
    using assms(2) by simp
  ultimately show ?thesis by (simp add: unread_def)
qed

lemma advance_ok:
  "reader_ok f \<Longrightarrow> next_pos f + n \<le> top_pos f \<Longrightarrow> mode f = Reading \<Longrightarrow> 
    reader_ok (f\<lparr>next_pos := next_pos f + n\<rparr>)"
  by (auto simp: reader_ok_def)

lemma reading_if_buffered: "reader_ok f \<Longrightarrow> next_pos f < top_pos f \<Longrightarrow> mode f = Reading"
  by (cases "mode f") (auto simp: reader_ok_def)

lemma getch_ok:
  assumes "reader_ok f" "getch readbytes f = (Inr r, f')"
  shows "reader_ok f' \<and>
    (case r of None \<Rightarrow> unread f = [] \<and> unread f' = [] | Some c \<Rightarrow> unread f = c # unread f')"
proof (cases "next_pos f = top_pos f")
  case True
  obtain n f1 where f1: "fill readbytes f = (Inr n, f1)"
    using assms(2) getch_fill [OF True, of readbytes] by (auto split: prod.splits sum.splits)
  note ok = fill_ok [OF assms(1) True f1]
  show ?thesis
  proof (cases "n = 0")
    case True
    then show ?thesis using ok assms(2) getch_fill [OF \<open>next_pos f = top_pos f\<close>, of readbytes] f1
      by simp
  next
    case False
    then have "r = Some (buffer f1 ! next_pos f1)" "f' = f1\<lparr>next_pos := next_pos f1 + 1\<rparr>"
      using assms(2) getch_fill [OF \<open>next_pos f = top_pos f\<close>, of readbytes] f1 by simp_all
    then show ?thesis using ok False unread_Cons [of f1] advance_ok [of f1 1] by simp
  qed
next
  case False
  then have "next_pos f < top_pos f" using assms(1) by (simp add: reader_ok_def)
  moreover have "r = Some (buffer f ! next_pos f)" "f' = f\<lparr>next_pos := next_pos f + 1\<rparr>"
    using assms(2) getch_buffered [OF False, of readbytes] by simp_all
  ultimately show ?thesis
    using assms(1) unread_Cons [of f] advance_ok [of f 1] reading_if_buffered by simp
qed

text \<open>Lines: what is returned and what is left depend on the unread bytes only.\<close>

lemma getline_loop_ok:
  assumes "reader_ok f" "getline_loop readbytes r f = Some (Inr x, f')"
  shows "reader_ok f' \<and> unread f' = after_line (unread f) \<and>
     x = (if r = [] \<and> unread f = [] then None else Some (r @ string_of_bytes (line_of (unread f))))"
  using assms
proof (induction "unread f" arbitrary: r f)
  case Nil
  obtain y g where y: "getch readbytes f = (Inr y, g)"
    using Nil.prems(2) by (subst (asm) getline_loop.simps) (auto split: prod.splits sum.splits)
  have ok: "reader_ok g" "y = None" "unread g = []"
    using getch_ok [OF Nil.prems(1) y] Nil.hyps by (auto split: option.splits)
  then show ?case
    using Nil.prems(2) Nil.hyps by (subst (asm) getline_loop.simps) (auto simp: y split: if_splits)
next
  case (Cons c cs)
  obtain y g where y: "getch readbytes f = (Inr y, g)"
    using Cons.prems(2) by (subst (asm) getline_loop.simps) (auto split: prod.splits sum.splits)
  have ok: "reader_ok g" "y = Some c" "unread g = cs"
    using getch_ok [OF Cons.prems(1) y] Cons.hyps(2) by (auto split: option.splits)
  have step: "getline_loop readbytes r f =
      (if c = 0x0A then Some (Inr (Some r), g) else getline_loop readbytes (r @ [char_of_byte c]) g)"
    by (subst getline_loop.simps) (simp add: y ok(2))
  show ?case
  proof (cases "c = 0x0A")
    case True
    then show ?thesis using Cons.prems(2) Cons.hyps(2) ok step by (auto simp flip: Cons.hyps(2))
  next
    case False
    then have "getline_loop readbytes (r @ [char_of_byte c]) g = Some (Inr x, f')"
      using Cons.prems(2) step by simp
    from Cons.hyps(1) [OF ok(3) [symmetric] ok(1) this]
    have "reader_ok f' \<and> unread f' = after_line cs \<and>
        x = Some ((r @ [char_of_byte c]) @ string_of_bytes (line_of cs))"
      using ok(3) by simp
    then show ?thesis using False by (simp flip: Cons.hyps(2))
  qed
qed

lemma getline_ok:
  assumes "reader_ok f" "getline readbytes f = Some (Inr x, f')"
  shows "reader_ok f' \<and> unread f' = after_line (unread f) \<and>
     x = map_option fst (getline_text (unread f))"
  using getline_loop_ok [OF assms(1), of "[]"] assms(2)
  by (simp add: getline_def getline_text_def)

text \<open>Blocks.\<close>

lemma getbytes_chunk_ok:
  assumes "reader_ok f" "mode f = Reading" "getbytes_chunk readbytes mx f = (Inr bs, f')" "0 < mx"
  shows "unread f = bs @ unread f' \<and> length bs \<le> mx \<and> (bs = [] \<longrightarrow> unread f = []) \<and>
     reader_ok f' \<and> mode f' = Reading"
proof (cases "next_pos f < top_pos f")
  case True
  let ?n = "min mx (top_pos f - next_pos f)"
  have "getbytes_chunk readbytes mx f =
      (Inr (take ?n (drop (next_pos f) (buffer f))), f\<lparr>next_pos := next_pos f + ?n\<rparr>)"
    using True by (simp add: getbytes_chunk_def Let_def min_def)
  then have eq: "bs = take ?n (drop (next_pos f) (buffer f))" "f' = f\<lparr>next_pos := next_pos f + ?n\<rparr>"
    using assms(3) by simp_all
  have l: "length (buffer f) = BUFFER_SIZE" "top_pos f \<le> BUFFER_SIZE"
    using assms(1) by (simp_all add: reader_ok_def)
  have "take (top_pos f - next_pos f) (drop (next_pos f) (buffer f)) =
      bs @ take (top_pos f - (next_pos f + ?n)) (drop (next_pos f + ?n) (buffer f))"
    using take_split [of ?n "top_pos f - next_pos f" "drop (next_pos f) (buffer f)"]
    by (simp add: eq(1) add.commute)
  moreover have "reader_ok f'" unfolding eq(2) using True assms(1,2) by (intro advance_ok) auto
  moreover have "length bs = ?n" using l True by (simp add: eq(1))
  ultimately show ?thesis using True assms(2,4) by (auto simp: unread_def eq(2))
next
  case False
  obtain rr d' where rb: "readbytes mx (dev f) = (rr, d')" by fastforce
  have eq: "rr = Inr bs" "f' = f\<lparr>dev := d'\<rparr>"
    using assms(3) False by (auto simp: getbytes_chunk_def on_dev_def rb)
  have fr: "remaining (dev f) = bs @ remaining d'" "length bs \<le> mx"
    using read_front rb eq(1) by auto
  have "bs = [] \<Longrightarrow> remaining (dev f) = []"
    using read_progress rb eq(1) assms(4) by auto
  then show ?thesis using fr False assms(1,2) by (auto simp: eq(2) unread_def reader_ok_def)
qed

lemma unread_Nil:
  "reader_ok f \<Longrightarrow> unread f = [] \<longleftrightarrow> next_pos f = top_pos f \<and> remaining (dev f) = []"
  by (auto simp: reader_ok_def unread_def)

lemma set_eof_ok: "reader_ok f \<Longrightarrow> unread f = [] \<Longrightarrow> mode f = Reading \<Longrightarrow> reader_ok (f\<lparr>eof := True\<rparr>)"
  by (simp add: unread_Nil) (simp add: reader_ok_def)

lemma set_eof_unread [simp]: "unread (f\<lparr>eof := b\<rparr>) = unread f"
  by (simp add: unread_def)

lemma eof_unread: "reader_ok f \<Longrightarrow> eof f \<Longrightarrow> unread f = []"
  by (simp add: reader_ok_def unread_def)

lemma refill_ok:
  assumes "reader_ok f" "mode f = Reading"
    and "(if next_pos f = top_pos f \<and> mx < BUFFER_SIZE \<and> \<not> eof f then fill readbytes f
          else (Inr 1, f)) = (Inr n, f')"
  shows "reader_ok f' \<and> mode f' = Reading \<and> unread f' = unread f \<and> (n = 0 \<longrightarrow> unread f = [])"
  using assms fill_ok [OF assms(1), of n f'] by (auto split: if_splits)

lemma getbytes_loop_ok:
  assumes "reader_ok f" "mode f = Reading" "0 < mx"
    and "getbytes_loop readbytes all mx got f = (Inr bs, f')"
  shows "\<exists>x. bs = got @ x \<and> unread f = x @ unread f' \<and> length x \<le> mx \<and>
     (x = [] \<longrightarrow> unread f = []) \<and> (all \<longrightarrow> length x < mx \<longrightarrow> unread f' = []) \<and>
     reader_ok f' \<and> mode f' = Reading"
  using assms
proof (induction mx arbitrary: got f rule: less_induct)
  case (less mx)
  note prems = less.prems
  obtain n f1 where f1: "(if next_pos f = top_pos f \<and> mx < BUFFER_SIZE \<and> \<not> eof f
      then fill readbytes f else (Inr 1, f)) = (Inr n, f1)"
    using prems(4) by (subst (asm) getbytes_loop.simps) (auto split: prod.splits sum.splits)
  note ok1 = refill_ok [OF prems(1,2) f1]
  show ?case
  proof (cases "n = 0")
    case True
    then have "bs = got" "f' = f1"
      using prems(4) by (subst (asm) getbytes_loop.simps, simp add: f1)+
    then show ?thesis using True ok1 by simp
  next
    case False
    obtain c f2 where f2: "getbytes_chunk readbytes mx f1 = (Inr c, f2)"
      using prems(4) False
      by (subst (asm) getbytes_loop.simps) (auto simp: f1 split: prod.splits sum.splits)
    have ok2: "unread f = c @ unread f2" "length c \<le> mx" "c = [] \<longrightarrow> unread f = []"
        "reader_ok f2" "mode f2 = Reading"
      using getbytes_chunk_ok [OF _ _ f2 prems(3)] ok1 by auto
    define f3 where "f3 = (if c = [] then f2\<lparr>eof := True\<rparr> else f2)"
    have ok3: "reader_ok f3" "mode f3 = Reading" "unread f3 = unread f2"
      using ok2 set_eof_ok [of f2] by (auto simp: f3_def)
    have step: "getbytes_loop readbytes all mx got f =
        (if all \<and> \<not> eof f3 \<and> length c < mx
         then getbytes_loop readbytes all (mx - length c) (got @ c) f3 else (Inr (got @ c), f3))"
      by (subst getbytes_loop.simps) (simp add: f1 f2 False f3_def Let_def)
    show ?thesis
    proof (cases "all \<and> \<not> eof f3 \<and> length c < mx")
      case True
      then have "c \<noteq> []" by (auto simp: f3_def)
      with True have lt: "mx - length c < mx" "0 < mx - length c" by (cases c; simp)+
      have rec: "getbytes_loop readbytes all (mx - length c) (got @ c) f3 = (Inr bs, f')"
        using prems(4) step True by simp
      obtain x where x: "bs = (got @ c) @ x" "unread f3 = x @ unread f'" "length x \<le> mx - length c"
          "all \<longrightarrow> length x < mx - length c \<longrightarrow> unread f' = []" "reader_ok f'" "mode f' = Reading"
        using less.IH [OF lt(1) ok3(1,2) lt(2) rec] by auto
      show ?thesis
        using x ok2(1,2) ok3(3) \<open>c \<noteq> []\<close> by (intro exI [of _ "c @ x"]) auto
    next
      case False
      then have "bs = got @ c" "f' = f3" using prems(4) step by auto
      then show ?thesis
        using ok2 ok3 False eof_unread [OF ok3(1)] by (intro exI [of _ c]) auto
    qed
  qed
qed

text \<open>
  \<open>getbytes\<close> returns a non-empty piece of the front of what is unread, unless nothing is;
  with \<open>all\<close> it returns exactly as much as was asked for and is there. The request must not
  be empty: a request for no bytes marks the file as ended (see \<open>getbytes_zero_eof\<close>).
\<close>

lemma getbytes_ok:
  assumes "reader_ok f" "0 < mx" "getbytes readbytes mx all f = (Inr bs, f')"
  shows "reader_ok f' \<and> unread f = bs @ unread f' \<and> length bs \<le> mx \<and>
     (bs = [] \<longrightarrow> unread f = []) \<and> (all \<longrightarrow> length bs = min mx (length (unread f)))"
proof -
  have *: "length x = min mx (length (unread g))"
    if "unread g = x @ unread h" "length x \<le> mx" "length x < mx \<longrightarrow> unread h = []" for x g h
    using that by (cases "length x < mx") auto
  show ?thesis
  proof (cases "mode f = Reading")
    case True
    then show ?thesis
      using getbytes_loop_ok [OF assms(1) True assms(2), of all "[]"] assms(3) *
      by (auto simp: getbytes_def)
  next
    case False
    then have m: "next_pos f = top_pos f" using assms(1) by (cases "mode f") (auto simp: reader_ok_def)
    obtain n f1 where f1: "fill readbytes f = (Inr n, f1)"
      and r: "(if n = 0 then ret [] else getbytes_loop readbytes all mx []) f1 = (Inr bs, f')"
      using assms(3) False by (auto simp: getbytes_def elim: andThen_InrE)
    note ok1 = fill_ok [OF assms(1) m f1]
    show ?thesis
    proof (cases "n = 0")
      case True
      then show ?thesis using ok1 r by auto
    next
      case False
      then show ?thesis
        using getbytes_loop_ok [of f1 mx all "[]" bs f'] ok1 r assms(2) * by auto
    qed
  qed
qed

text \<open>
  A request for nothing marks the file as ended, whatever is still to come: the contract of
  \<open>getbytes\<close> needs a positive request.
\<close>

lemma getbytes_zero_eof:
  "mode f = Reading \<Longrightarrow> next_pos f < top_pos f \<Longrightarrow>
     getbytes readbytes 0 all f = (Inr [], f\<lparr>eof := True\<rparr>)"
  by (simp add: getbytes_def getbytes_loop.simps [of readbytes all 0] getbytes_chunk_def Let_def)

text \<open>
  The read loop hands on the bytes in order, in non-empty chunks of at most the buffer's size; if
  it returns normally, all of them.
\<close>

lemma read_loop_ok:
  assumes "reader_ok f" "0 < sz" "read_loop readbytes sz sink f s = Some (Inr (), f', s')"
  shows "\<exists>cs. chunking sz cs \<and> concat cs = unread f \<and> for_chunks sink cs s = (Inr (), s')"
  using assms
proof (induction "length (unread f)" arbitrary: f s rule: less_induct)
  case less
  obtain bs f1 where f1: "getbytes readbytes sz False f = (Inr bs, f1)"
    using less.prems(3) by (subst (asm) read_loop.simps) (auto split: prod.splits sum.splits)
  note ok1 = getbytes_ok [OF less.prems(1,2) f1]
  show ?case
  proof (cases "bs = []")
    case True
    then have "unread f = []" using ok1 by blast
    moreover have "s' = s"
      using less.prems(3) True by (simp add: f1 read_loop.simps [of readbytes sz sink f])
    ultimately show ?thesis by (intro exI [of _ "[]"]) (simp add: chunking_def)
  next
    case False
    then obtain s1 where s1: "sink bs s = (Inr (), s1)"
        "read_loop readbytes sz sink f1 s1 = Some (Inr (), f', s')"
      using less.prems(3)
      by (auto simp: f1 read_loop.simps [of readbytes sz sink f] split: prod.splits sum.splits)
    have "length (unread f1) < length (unread f)" using ok1 False by (cases bs) auto
    then obtain cs where "chunking sz cs" "concat cs = unread f1" "for_chunks sink cs s1 = (Inr (), s')"
      using less.hyps [of f1 s1] ok1 less.prems(2) s1(2) by auto
    then show ?thesis
      using ok1 False s1(1) by (intro exI [of _ "bs # cs"]) (simp add: chunking_def)
  qed
qed

end

section \<open>Interface: a byte source that does not fail\<close>

text \<open>Where no read fails, the loops return: the value is there, not only right if there.\<close>

locale reliable_source = byte_source +
  assumes read_total: "\<exists>bs d'. readbytes n d = (Inr bs, d')"
begin

lemma fill_total: "reader_ok f \<Longrightarrow> \<exists>n f'. fill readbytes f = (Inr n, f')"
  using read_total [of BUFFER_SIZE "dev f"]
  by (cases "eof f") (auto simp: fill_eof fill_read reader_ok_def)

lemma getch_total:
  assumes "reader_ok f"
  shows "\<exists>r f'. getch readbytes f = (Inr r, f')"
proof (cases "next_pos f = top_pos f")
  case True
  then show ?thesis
    using fill_total [OF assms] by (auto simp: getch_fill)
qed (simp add: getch_buffered)

lemma getline_loop_total:
  "reader_ok f \<Longrightarrow> \<exists>x f'. getline_loop readbytes r f = Some (Inr x, f')"
proof (induction "unread f" arbitrary: r f)
  case Nil
  obtain y g where y: "getch readbytes f = (Inr y, g)"
    using getch_total [OF Nil.prems] by blast
  then have "y = None" using getch_ok [OF Nil.prems y] Nil.hyps by (auto split: option.splits)
  then show ?case by (subst getline_loop.simps) (simp add: y)
next
  case (Cons c cs)
  obtain y g where y: "getch readbytes f = (Inr y, g)"
    using getch_total [OF Cons.prems] by blast
  then have "y = Some c" "reader_ok g" "cs = unread g"
    using getch_ok [OF Cons.prems y] Cons.hyps(2) by (auto split: option.splits)
  then show ?case
    using Cons.hyps(1) [of g "r @ [char_of_byte c]"] by (subst getline_loop.simps) (simp add: y)
qed

text \<open>Total correctness of \<open>getline\<close>, in terms of the caller's view.\<close>

lemma getline_correct:
  assumes "reader_ok f"
  obtains f' where
    "getline readbytes f = Some (Inr (map_option fst (getline_text (unread f))), f')"
    "reader_ok f'" "unread f' = after_line (unread f)"
proof -
  obtain x f' where "getline readbytes f = Some (Inr x, f')"
    using getline_loop_total [OF assms, of "[]"] by (auto simp: getline_def)
  with getline_ok [OF assms this] that show ?thesis by auto
qed

lemma chunk_total: "\<exists>bs f'. getbytes_chunk readbytes mx f = (Inr bs, f')"
  using read_total [of mx "dev f"] by (auto simp: getbytes_chunk_def on_dev_def)

lemma getbytes_loop_total:
  "reader_ok f \<Longrightarrow> mode f = Reading \<Longrightarrow> 0 < mx \<Longrightarrow>
     \<exists>bs f'. getbytes_loop readbytes all mx got f = (Inr bs, f')"
proof (induction mx arbitrary: got f rule: less_induct)
  case (less mx)
  obtain n f1 where f1: "(if next_pos f = top_pos f \<and> mx < BUFFER_SIZE \<and> \<not> eof f
      then fill readbytes f else (Inr 1, f)) = (Inr n, f1)"
    using fill_total [OF less.prems(1)] by (cases "next_pos f = top_pos f \<and> mx < BUFFER_SIZE \<and> \<not> eof f") auto
  note ok1 = refill_ok [OF less.prems(1,2) f1]
  obtain c f2 where f2: "getbytes_chunk readbytes mx f1 = (Inr c, f2)"
    using chunk_total by blast
  have ok2: "reader_ok f2" "mode f2 = Reading" "c = [] \<longrightarrow> unread f2 = []"
    using getbytes_chunk_ok [OF _ _ f2 less.prems(3)] ok1 by auto
  define f3 where "f3 = (if c = [] then f2\<lparr>eof := True\<rparr> else f2)"
  have ok3: "reader_ok f3" "mode f3 = Reading"
    using ok2 set_eof_ok [of f2] by (auto simp: f3_def)
  have rec: "\<exists>bs f'. getbytes_loop readbytes all (mx - length c) (got @ c) f3 = (Inr bs, f')"
    if "\<not> eof f3" "length c < mx"
  proof -
    have "c \<noteq> []" using that(1) by (auto simp: f3_def)
    with that(2) have lt: "mx - length c < mx" "0 < mx - length c" by (cases c; simp)+
    show ?thesis by (rule less.IH [OF lt(1) ok3 lt(2)])
  qed
  show ?case
    by (subst getbytes_loop.simps) (use rec in \<open>auto simp: f1 f2 Let_def f3_def [symmetric]\<close>)
qed

lemma getbytes_total:
  assumes "reader_ok f" "0 < mx"
  shows "\<exists>bs f'. getbytes readbytes mx all f = (Inr bs, f')"
proof (cases "mode f = Reading")
  case True
  then show ?thesis using getbytes_loop_total [OF assms(1) True assms(2)] by (simp add: getbytes_def)
next
  case False
  then have m: "next_pos f = top_pos f" using assms(1) by (cases "mode f") (auto simp: reader_ok_def)
  obtain n f1 where f1: "fill readbytes f = (Inr n, f1)" using fill_total [OF assms(1)] by blast
  then show ?thesis
    using fill_ok [OF assms(1) m f1] getbytes_loop_total [of f1 mx all "[]"] assms(2) False
    by (auto simp: getbytes_def)
qed

text \<open>The read loop ends, with every chunk handed on or with an exception of the sink.\<close>

lemma read_loop_total:
  assumes "reader_ok f" "0 < sz"
  shows "\<exists>r f' s'. read_loop readbytes sz sink f s = Some (r, f', s') \<and> reader_ok f' \<and>
    (\<exists>cs rest. chunking sz cs \<and> concat cs @ rest = unread f \<and> for_chunks sink cs s = (r, s') \<and>
       (r = Inr () \<longrightarrow> rest = []))"
  using assms
proof (induction "length (unread f)" arbitrary: f s rule: less_induct)
  case less
  obtain bs f1 where f1: "getbytes readbytes sz False f = (Inr bs, f1)"
    using getbytes_total [OF less.prems] by blast
  note ok1 = getbytes_ok [OF less.prems f1] and unf = read_loop.simps [of readbytes sz sink f]
  obtain q s1 where q: "sink bs s = (q, s1)" by fastforce
  consider "bs = []" | e where "bs \<noteq> []" "q = Inl e" | "bs \<noteq> []" "q = Inr ()"
    by (cases q) auto
  then show ?case
  proof cases
    case 1
    then have "unread f = []" "reader_ok f1" using ok1 by blast+
    with 1 show ?thesis by (intro exI [of _ "Inr ()"] exI [of _ f1] exI [of _ s] conjI exI [of _ "[]"])
        (simp_all add: unf f1 chunking_def)
  next
    case 2
    then show ?thesis using ok1 q
      by (intro exI [of _ "Inl e"] exI [of _ f1] exI [of _ s1] conjI exI [of _ "[bs]"] exI [of _ "unread f1"])
        (simp_all add: unf f1 chunking_def)
  next
    case 3
    then have lt: "length (unread f1) < length (unread f)" using ok1 by (cases bs) auto
    obtain r f' s' cs rest where ih: "read_loop readbytes sz sink f1 s1 = Some (r, f', s')"
        "reader_ok f'" "chunking sz cs" "concat cs @ rest = unread f1" "for_chunks sink cs s1 = (r, s')"
        "r = Inr () \<longrightarrow> rest = []"
      using less.hyps [OF lt _ less.prems(2), of s1] ok1 by blast
    then show ?thesis using ok1 q 3
      by (intro exI [of _ r] exI [of _ f'] exI [of _ s'] conjI exI [of _ "bs # cs"] exI [of _ rest])
        (simp_all add: unf f1 chunking_def)
  qed
qed

end

section \<open>Interface: a byte sink\<close>

text \<open>
  What \<open>writebytes\<close> promises (nhbackup.h: "Write NBYTES"): all the bytes are appended.
  \<open>synchronize\<close> only waits. The promise holds as long as the file is there, \<open>live\<close>.
\<close>

locale byte_sink =
  fixes writebytes :: "'d writer"
    and synchronize :: "('d, unit) prog"
    and written :: "'d \<Rightarrow> bytes"
    and live :: "'d \<Rightarrow> bool"
  assumes write_appends: "writebytes bs d = (Inr (), d') \<Longrightarrow> live d \<Longrightarrow> live d' \<and> written d' = written d @ bs"
    and synchronize_keeps: "synchronize d = (Inr (), d') \<Longrightarrow> live d \<Longrightarrow> live d' \<and> written d' = written d"
begin

text \<open>Everything put into the file so far, whether it has left the buffer or not.\<close>

definition out_bytes :: "'d fileobj \<Rightarrow> bytes" where
  "out_bytes f = written (dev f) @ (if mode f = Writing then take (next_pos f) (buffer f) else [])"

definition writer_ok :: "'d fileobj \<Rightarrow> bool" where
  "writer_ok f \<longleftrightarrow>
     length (buffer f) = BUFFER_SIZE \<and> next_pos f \<le> top_pos f \<and> mode f \<noteq> Reading \<and>
     (mode f = Writing \<longrightarrow> top_pos f = BUFFER_SIZE) \<and> (mode f = ModeNone \<longrightarrow> top_pos f = 0)"

lemma File_writer_ok: "length garbage = BUFFER_SIZE \<Longrightarrow> writer_ok (File garbage d)"
  by (simp add: writer_ok_def File_def)

lemma File_out_bytes [simp]: "out_bytes (File garbage d) = written d"
  by (simp add: out_bytes_def File_def)

lemma flush_ok:
  assumes "writer_ok f" "flush writebytes synchronize f = (Inr (), f')" "live (dev f)"
  shows "live (dev f') \<and> writer_ok f' \<and> out_bytes f' = out_bytes f \<and> written (dev f') = out_bytes f' \<and>
    mode f' = Writing \<and> next_pos f' = 0 \<and> File_destructor_ok f'"
proof -
  have nr: "mode f \<noteq> Reading" using assms(1) by (simp add: writer_ok_def)
  obtain g where g: "(if mode f = Writing then
                 (if next_pos f \<noteq> 0 then on_dev (writebytes (take (next_pos f) (buffer f))) f
                  else (Inr (), f))
               else (Inr (), f\<lparr>mode := Writing\<rparr>)) = (Inr (), g)"
    and h: "on_dev synchronize (g\<lparr>next_pos := 0, top_pos := BUFFER_SIZE\<rparr>) = (Inr (), f')"
    using assms(2) nr by (auto simp: flush_def elim!: andThen_InrE)
  have G: "live (dev g) \<and> written (dev g) = out_bytes f \<and> buffer g = buffer f \<and> mode g = Writing"
  proof (cases "mode f = Writing \<and> next_pos f \<noteq> 0")
    case True
    then obtain d where "writebytes (take (next_pos f) (buffer f)) (dev f) = (Inr (), d)"
        "g = f\<lparr>dev := d\<rparr>"
      using g by (auto simp: on_dev_def split: prod.splits)
    then show ?thesis using True write_appends assms(3) by (simp add: out_bytes_def)
  next
    case False
    then show ?thesis using g nr assms(3) by (auto simp: out_bytes_def split: if_splits)
  qed
  obtain d' where d': "synchronize (dev g) = (Inr (), d')"
      "f' = g\<lparr>next_pos := 0, top_pos := BUFFER_SIZE, dev := d'\<rparr>"
    using h by (auto simp: on_dev_def split: prod.splits)
  have "live d' \<and> written d' = written (dev g)" using synchronize_keeps d'(1) G by blast
  then show ?thesis using assms(1) G
    by (simp add: d'(2) writer_ok_def out_bytes_def File_destructor_ok_def)
qed

lemma put_byte_ok:
  assumes "writer_ok f" "put_byte writebytes synchronize c f = (Inr (), f')" "live (dev f)"
  shows "live (dev f') \<and> writer_ok f' \<and> out_bytes f' = out_bytes f @ [c] \<and> mode f' = Writing"
proof -
  obtain g where g: "(if next_pos f = top_pos f then flush writebytes synchronize f else (Inr (), f)) = (Inr (), g)"
    and f': "f' = g\<lparr>buffer := (buffer g)[next_pos g := c], next_pos := next_pos g + 1\<rparr>"
    using assms(2) by (auto simp: put_byte_def elim!: andThen_InrE)
  have G: "live (dev g)" "writer_ok g" "out_bytes g = out_bytes f" "mode g = Writing" "next_pos g < BUFFER_SIZE"
    using g assms(1,3) flush_ok [OF assms(1) _ assms(3), of g]
    by (auto simp: writer_ok_def BUFFER_SIZE_def split: if_splits) (cases "mode f"; auto)+
  then have "take (next_pos g + 1) ((buffer g)[next_pos g := c]) = take (next_pos g) (buffer g) @ [c]"
    by (simp add: writer_ok_def take_Suc_conv_app_nth)
  then show ?thesis using G by (simp add: f' writer_ok_def out_bytes_def)
qed

lemma put_ok:
  "writer_ok f \<Longrightarrow> put writebytes synchronize s f = (Inr (), f') \<Longrightarrow> live (dev f) \<Longrightarrow>
     live (dev f') \<and> writer_ok f' \<and> out_bytes f' = out_bytes f @ s"
proof (induction s arbitrary: f)
  case (Cons c s)
  obtain g where "put_byte writebytes synchronize c f = (Inr (), g)"
      "put writebytes synchronize s g = (Inr (), f')"
    using Cons.prems(2) by (auto elim: andThen_InrE)
  then show ?case using put_byte_ok [OF Cons.prems(1), of c g] Cons.prems(3) Cons.IH [of g] by simp
qed simp

text \<open>Writing a text and flushing puts exactly that text on the device.\<close>

lemma put_flush_ok:
  assumes "writer_ok f" "put writebytes synchronize s f = (Inr (), g)"
    "flush writebytes synchronize g = (Inr (), f')" "live (dev f)"
  shows "written (dev f') = out_bytes f @ s \<and> File_destructor_ok f'"
  using put_ok [OF assms(1,2,4)] flush_ok [OF _ assms(3)] by auto

end

end
