(* ===== verification/Filesystem.thy ===== *)
theory Filesystem
  imports FileIO
begin

text \<open>
  The abstract class \<open>Filesystem\<close> of nhbackup.h as the table of its virtual functions, the
  default implementations and \<open>makedirs\<close> of file.cc, and the life of a \<open>File\<close>
  object that a file system opens. The interface \<open>directories\<close> states what
  \<open>makedirs\<close> needs of \<open>exists\<close> and \<open>mkdir\<close>.
\<close>

section \<open>The virtual functions\<close>

datatype filetype = RegularFile | Directory | SymbolicLink | UnknownFileType

datatype open_mode = ReadOnly | Overwrite | NoOverwrite

text \<open>The errno values the code names (Linux).\<close>

definition ENOENT :: errno where "ENOENT = 2"
definition ENOSYS :: errno where "ENOSYS = 38"
definition EEXIST :: errno where "EEXIST = 17"
definition ENAMETOOLONG :: errno where "ENAMETOOLONG = 36"

text \<open>
  \<open>'w\<close> is the state of everything outside the process, \<open>'d\<close> what the subclass of
  \<open>File\<close> that \<open>open\<close> returns keeps besides the buffer. Reading changes only the
  latter; writing and closing change the outside too. \<open>fs_local\<close> is the comparison
  \<open>fs == &local\<close>.
\<close>

record ('d, 'w) filesystem =
  fs_local :: bool
  fs_rename :: "path \<Rightarrow> path \<Rightarrow> ('w, unit) prog"
  fs_link :: "path \<Rightarrow> path \<Rightarrow> ('w, unit) prog"
  fs_remove :: "path \<Rightarrow> ('w, unit) prog"
  fs_open :: "path \<Rightarrow> open_mode \<Rightarrow> ('w, 'd) prog"
  fs_mkdir :: "path \<Rightarrow> nat \<Rightarrow> ('w, unit) prog"
  fs_mknod :: "path \<Rightarrow> nat \<Rightarrow> nat \<Rightarrow> ('w, unit) prog"
  fs_lchown :: "path \<Rightarrow> nat \<Rightarrow> nat \<Rightarrow> ('w, unit) prog"
  fs_chmod :: "path \<Rightarrow> nat \<Rightarrow> ('w, unit) prog"
  fs_symlink :: "string \<Rightarrow> path \<Rightarrow> ('w, unit) prog"
  fs_exists :: "path \<Rightarrow> ('w, bool) prog"
  fs_contents :: "path \<Rightarrow> ('w, string list) prog"
  fs_type :: "path \<Rightarrow> ('w, filetype) prog"
  fs_readlink :: "path \<Rightarrow> ('w, string) prog"
  fs_ismount :: "path \<Rightarrow> ('w, bool) prog"
  fs_utimes :: "path \<Rightarrow> int \<Rightarrow> int \<Rightarrow> ('w, unit) prog"
  fs_prefigure_exists :: "path \<Rightarrow> ('w, unit) prog"
  file_readbytes :: "'d reader"
  file_writebytes :: "('d \<times> 'w) writer"
  file_synchronize :: "('d \<times> 'w, unit) prog"
  file_destroy :: "'d \<Rightarrow> ('w, unit) prog"

text \<open>
  The functions a subclass may leave alone: the remote file system has no links, devices,
  ownership or times.
\<close>

definition Filesystem_link :: "path \<Rightarrow> path \<Rightarrow> ('w, unit) prog" where
  "Filesystem_link path newpath = throw (FileError ''linking'' path ENOSYS)"

definition Filesystem_mknod :: "path \<Rightarrow> nat \<Rightarrow> nat \<Rightarrow> ('w, unit) prog" where
  "Filesystem_mknod path m rdev = throw (FileError ''creating device'' path ENOSYS)"

definition Filesystem_lchown :: "path \<Rightarrow> nat \<Rightarrow> nat \<Rightarrow> ('w, unit) prog" where
  "Filesystem_lchown path uid gid = throw (FileError ''changing ownership of'' path ENOSYS)"

definition Filesystem_chmod :: "path \<Rightarrow> nat \<Rightarrow> ('w, unit) prog" where
  "Filesystem_chmod path m = throw (FileError ''changing permissions of'' path ENOSYS)"

definition Filesystem_symlink :: "string \<Rightarrow> path \<Rightarrow> ('w, unit) prog" where
  "Filesystem_symlink target path = throw (FileError ''creating symlink'' path ENOSYS)"

definition Filesystem_utimes :: "path \<Rightarrow> int \<Rightarrow> int \<Rightarrow> ('w, unit) prog" where
  "Filesystem_utimes path atime mtime = throw (FileError ''setting file times'' path ENOSYS)"

definition Filesystem_readlink :: "path \<Rightarrow> ('w, string) prog" where
  "Filesystem_readlink path = throw (FileError ''reading symlink'' path ENOSYS)"

definition Filesystem_ismount :: "path \<Rightarrow> ('w, bool) prog" where
  "Filesystem_ismount path = throw (FileError ''checking mount point'' path ENOSYS)"

definition Filesystem_prefigure_exists :: "path \<Rightarrow> ('w, unit) prog" where
  "Filesystem_prefigure_exists path = ret ()"

text \<open>The defaults of \<open>File\<close>.\<close>

definition File_readbytes :: "'d reader" where
  "File_readbytes space = throw WriteOnlyFile"

definition File_writebytes :: "'d writer" where
  "File_writebytes buf = throw ReadOnlyFile"

definition File_synchronize :: "('d, unit) prog" where
  "File_synchronize = ret ()"

text \<open>
  \<open>delete f\<close>: the destructor of the subclass, then \<open>~File\<close>, whose assertion fails
  for unflushed output, also while an exception of the former unwinds.
\<close>

definition delete_File :: "('d, 'w) filesystem \<Rightarrow> 'e fileobj \<Rightarrow> 'd \<Rightarrow> ('w, unit) prog" where
  "delete_File fs f d w =
     (case file_destroy fs d w of
        (r, w') \<Rightarrow> if File_destructor_ok f then (r, w')
                  else (Inl (AssertFailed ''next == buffer''), w'))"

text \<open>A file and the outside as one, for the writing functions of class \<open>File\<close>, and apart.\<close>

definition with_world :: "'d fileobj \<Rightarrow> 'w \<Rightarrow> ('d \<times> 'w) fileobj" where
  "with_world f w = \<lparr>buffer = buffer f, next_pos = next_pos f, top_pos = top_pos f, mode = mode f,
     eof = eof f, dev = (dev f, w)\<rparr>"

definition without_world :: "('d \<times> 'w) fileobj \<Rightarrow> 'd fileobj" where
  "without_world f = \<lparr>buffer = buffer f, next_pos = next_pos f, top_pos = top_pos f, mode = mode f,
     eof = eof f, dev = fst (dev f)\<rparr>"

section \<open>Making directories\<close>

text \<open>The loop over \<open>n\<close>: every proper prefix that ends before a slash.\<close>

fun makedirs_loop :: "('d, 'w) filesystem \<Rightarrow> path \<Rightarrow> nat list \<Rightarrow> ('w, unit) prog" where
  "makedirs_loop fs path [] w = (Inr (), w)"
| "makedirs_loop fs path (n # ns) w =
     (if path ! n = CHR ''/'' then
        andThen (fs_exists fs (take n path))
          (\<lambda>found. andThen (if \<not> found then fs_mkdir fs (take n path) 511 else ret ())
            (\<lambda>_. makedirs_loop fs path ns)) w
      else makedirs_loop fs path ns w)"

definition makedirs :: "('d, 'w) filesystem \<Rightarrow> path \<Rightarrow> ('w, unit) prog" where
  "makedirs fs path =
     andThen (fs_exists fs path)
       (\<lambda>found. if found then ret ()
                else andThen (makedirs_loop fs path [1 ..< length path]) (\<lambda>_. fs_mkdir fs path 511))"

section \<open>Path components\<close>

text \<open>The scanner's state: the components that are complete, and the one being read.\<close>

fun scan_char :: "string list \<times> string \<Rightarrow> char \<Rightarrow> string list \<times> string" where
  "scan_char (cs, cur) c =
     (if c = CHR ''/'' then (if cur = [] then (cs, []) else (cs @ [cur], [])) else (cs, cur @ [c]))"

definition scan :: "path \<Rightarrow> string list \<times> string" where
  "scan p = foldl scan_char ([], []) p"

definition components :: "path \<Rightarrow> string list" where
  "components p = (case scan p of (cs, cur) \<Rightarrow> if cur = [] then cs else cs @ [cur])"

lemma scan_Nil [simp]: "scan [] = ([], [])"
  by (simp add: scan_def)

lemma scan_snoc: "scan (p @ [c]) = scan_char (scan p) c"
  by (simp add: scan_def)

lemma scan_append: "scan (p @ q) = foldl scan_char (scan p) q"
  by (simp add: scan_def)

lemma components_slash: "components (p @ ''/'') = components p"
  by (cases "scan p") (simp add: components_def scan_snoc)

text \<open>Components are not empty, and made of characters of the path other than slashes.\<close>

lemma scan_chars:
  "[] \<notin> set (fst (scan p))"
  "c \<in> set (snd (scan p) # fst (scan p)) \<Longrightarrow> x \<in> set c \<Longrightarrow> x \<in> set p \<and> x \<noteq> CHR ''/''"
proof -
  show "[] \<notin> set (fst (scan p))"
  proof (induction p rule: rev_induct)
    case (snoc a p)
    then show ?case by (cases "scan p") (simp add: scan_snoc)
  qed simp
  show "c \<in> set (snd (scan p) # fst (scan p)) \<Longrightarrow> x \<in> set c \<Longrightarrow> x \<in> set p \<and> x \<noteq> CHR ''/''"
  proof (induction p arbitrary: c rule: rev_induct)
    case (snoc a p)
    show ?case using snoc.IH [of c] snoc.IH [of "snd (scan p)"] snoc.prems
      by (cases "scan p") (auto simp: scan_snoc split: if_splits)
  qed simp
qed

lemma components_names: "c \<in> set (components p) \<Longrightarrow> c \<noteq> []"
  "c \<in> set (components p) \<Longrightarrow> x \<in> set c \<Longrightarrow> x \<in> set p \<and> x \<noteq> CHR ''/''"
proof -
  have eq: "components p = fst (scan p) @ (if snd (scan p) = [] then [] else [snd (scan p)])"
    by (cases "scan p") (simp add: components_def)
  show "c \<in> set (components p) \<Longrightarrow> c \<noteq> []"
    using scan_chars(1) [of p] unfolding eq by (auto split: if_splits)
  show "c \<in> set (components p) \<Longrightarrow> x \<in> set c \<Longrightarrow> x \<in> set p \<and> x \<noteq> CHR ''/''"
    using scan_chars(2) [of c p x] unfolding eq by (auto split: if_splits)
qed

text \<open>The complete components are those of an earlier place where \<open>makedirs\<close> stops.\<close>

lemma scan_earlier:
  "fst (scan p) \<noteq> [] \<Longrightarrow>
     \<exists>m. 1 \<le> m \<and> m < length p \<and> p ! m = CHR ''/'' \<and> components (take m p) = fst (scan p)"
proof (induction p rule: rev_induct)
  case (snoc c p)
  obtain cs cur where sp: "scan p = (cs, cur)" by fastforce
  show ?case
  proof (cases "c = CHR ''/'' \<and> cur \<noteq> []")
    case True
    then have "p \<noteq> []" using sp by auto
    then show ?thesis using True sp
      by (intro exI [of _ "length p"]) (auto simp: scan_snoc components_def Suc_le_eq)
  next
    case False
    then have f: "fst (scan (p @ [c])) = cs" using sp by (auto simp: scan_snoc)
    then obtain m where "1 \<le> m" "m < length p" "p ! m = CHR ''/''" "components (take m p) = cs"
      using snoc sp by auto
    then show ?thesis using f by (intro exI [of _ m]) (simp add: nth_append)
  qed
qed simp

lemma foldl_scan_grows: "\<exists>ds. fst (foldl scan_char (cs, cur) q) = cs @ ds"
proof (induction q arbitrary: cs cur)
  case (Cons c q)
  then show ?case
    by (cases "c = CHR ''/''"; cases "cur = []"; simp) (metis append_assoc)+
qed simp

lemma scan_slash: "scan (p @ ''/'') = (components p, [])"
  by (cases "scan p") (simp add: components_def scan_snoc)

definition stops :: "path \<Rightarrow> string list set" where
  "stops p = (\<lambda>k. take k (components p)) ` {..length (fst (scan p))}"

lemma components_stop:
  assumes "n < length p" "p ! n = CHR ''/''"
  shows "components (take n p) \<in> stops p"
proof -
  let ?cs = "components (take n p)"
  have p: "p = (take n p @ ''/'') @ drop (Suc n) p"
    using assms id_take_nth_drop by fastforce
  obtain ds where ds: "fst (scan p) = ?cs @ ds"
    using foldl_scan_grows [of ?cs "[]" "drop (Suc n) p"] scan_slash [of "take n p"]
      scan_append [of "take n p @ ''/''" "drop (Suc n) p"] p by auto
  moreover have "components p = fst (scan p) @ (if snd (scan p) = [] then [] else [snd (scan p)])"
    by (cases "scan p") (simp add: components_def)
  ultimately obtain es where "components p = ?cs @ es" by simp
  then show ?thesis using ds unfolding stops_def by (intro image_eqI [of _ _ "length ?cs"]) simp_all
qed

text \<open>A path that does not end in a slash has a last component, which no stop is.\<close>

lemma scan_last:
  assumes "p \<noteq> []" "last p \<noteq> CHR ''/''"
  shows "components p = fst (scan p) @ [snd (scan p)]" "components p \<notin> stops p"
proof -
  have "p = butlast p @ [last p]" using assms(1) by simp
  then have "scan p = scan_char (scan (butlast p)) (last p)" by (metis scan_snoc)
  then have "snd (scan p) \<noteq> []" using assms(2) by (cases "scan (butlast p)") auto
  then show c: "components p = fst (scan p) @ [snd (scan p)]"
    by (cases "scan p") (simp add: components_def)
  have "length c \<le> length (fst (scan p))" if "c \<in> stops p" for c
    using that by (auto simp: stops_def)
  then show "components p \<notin> stops p" using c by force
qed

section \<open>Interface: directories that can be made\<close>

text \<open>
  The paths the contracts speak of: not empty, no NUL (a C string ends there), no component
  \<open>.\<close> or \<open>..\<close>. Such a path is resolved from where it starts, the root or the current
  directory, by its components.
\<close>

definition plain_path :: "path \<Rightarrow> bool" where
  "plain_path p \<longleftrightarrow>
     p \<noteq> [] \<and> CHR 0x00 \<notin> set p \<and> ''.'' \<notin> set (components p) \<and> ''..'' \<notin> set (components p)"

type_synonym place = "bool \<times> string list"

definition resolve :: "path \<Rightarrow> place" where
  "resolve p = (hd p = CHR ''/'', components p)"

lemma plain_c_str [simp]: "plain_path p \<Longrightarrow> c_str p = p"
  by (auto simp: plain_path_def c_str_def takeWhile_eq_all_conv)

lemma stops_plain: "c \<in> stops p \<Longrightarrow> set c \<subseteq> set (components p)"
  by (auto simp: stops_def dest: in_set_takeD)

lemma plain_stop:
  assumes "plain_path p" "1 \<le> n" "n < length p" "p ! n = CHR ''/''"
  shows "plain_path (take n p)" "hd (take n p) = hd p"
proof -
  show "plain_path (take n p)"
    using assms stops_plain [OF components_stop [OF assms(3,4)]]
    by (auto simp: plain_path_def dest: in_set_takeD)
  show "hd (take n p) = hd p" using assms by (cases p) (auto simp: take_Cons split: nat.split)
qed

text \<open>
  What \<open>exists\<close> and \<open>mkdir\<close> promise on a writable file system, for the paths that start
  at the same place: \<open>present\<close> are the component lists that exist, \<open>dirs\<close> those that
  are directories. No promise is made about a path through something that is not a directory.
\<close>

locale directories =
  fixes fs :: "('d, 'w) filesystem"
    and absolute :: bool
    and present dirs :: "'w \<Rightarrow> string list set"
  assumes exists_law: "plain_path p \<Longrightarrow> (hd p = CHR ''/'') = absolute \<Longrightarrow>
      \<forall>k. take k (components p) \<in> present w \<longrightarrow> take k (components p) \<in> dirs w \<Longrightarrow>
      fs_exists fs p w = (Inr (components p \<in> present w), w)"
    and mkdir_law: "plain_path p \<Longrightarrow> (hd p = CHR ''/'') = absolute \<Longrightarrow>
      components p \<notin> present w \<Longrightarrow> butlast (components p) \<in> dirs w \<Longrightarrow>
      \<exists>w'. fs_mkdir fs p m w = (Inr (), w') \<and> present w' = insert (components p) (present w) \<and>
         dirs w' = insert (components p) (dirs w)"
    and mkdir_present: "plain_path p \<Longrightarrow> (hd p = CHR ''/'') = absolute \<Longrightarrow>
      components p \<in> dirs w \<Longrightarrow>
      fs_mkdir fs p m w = (Inl (FileError ''creating directory'' p EEXIST), w)"
    and top_dir: "[] \<in> dirs w"
    and dirs_present: "dirs w \<subseteq> present w"
begin

definition here :: "path \<Rightarrow> bool" where
  "here p \<longleftrightarrow> plain_path p \<and> (hd p = CHR ''/'') = absolute"

text \<open>No prefix of the path is something else than a directory.\<close>

definition clear_path :: "path \<Rightarrow> 'w \<Rightarrow> bool" where
  "clear_path p w \<longleftrightarrow> (\<forall>k. take k (components p) \<in> present w \<longrightarrow> take k (components p) \<in> dirs w)"

lemma exists_here: "here p \<Longrightarrow> clear_path p w \<Longrightarrow> fs_exists fs p w = (Inr (components p \<in> present w), w)"
  using exists_law by (simp add: here_def clear_path_def)

lemma here_stop: "here p \<Longrightarrow> 1 \<le> n \<Longrightarrow> n < length p \<Longrightarrow> p ! n = CHR ''/'' \<Longrightarrow> here (take n p)"
  by (simp add: here_def plain_stop)

lemma clear_stop: "clear_path p w \<Longrightarrow> n < length p \<Longrightarrow> p ! n = CHR ''/'' \<Longrightarrow> clear_path (take n p) w"
  using components_stop [of n p] by (auto simp: clear_path_def stops_def)

definition made :: "path \<Rightarrow> nat \<Rightarrow> 'w \<Rightarrow> 'w \<Rightarrow> bool" where
  "made p n w w' \<longleftrightarrow>
     (\<forall>m. 1 \<le> m \<and> m < n \<and> p ! m = CHR ''/'' \<longrightarrow> components (take m p) \<in> dirs w') \<and>
     clear_path p w' \<and> present w \<subseteq> present w' \<and> present w' \<subseteq> present w \<union> stops p \<and> dirs w \<subseteq> dirs w'"

lemma mkdir_made:
  assumes "here q" "made p n w v" "components q \<notin> present v" "butlast (components q) \<in> dirs v" "components q \<in> stops p"
  shows "\<exists>v'. fs_mkdir fs q m v = (Inr (), v') \<and> components q \<in> dirs v' \<and> made p n w v'"
proof -
  obtain v' where v': "fs_mkdir fs q m v = (Inr (), v')" "present v' = insert (components q) (present v)"
      "dirs v' = insert (components q) (dirs v)"
    using mkdir_law [OF _ _ assms(3,4)] assms(1) unfolding here_def by blast
  then show ?thesis using assms(2,5) unfolding made_def clear_path_def
    by (intro exI [of _ v']) auto
qed

text \<open>The parent of what is to be made next is there already.\<close>

lemma parent_made:
  assumes "made p n w v" "n \<le> length p" "scan (take n p) = (cs, cur)"
  shows "cs \<in> dirs v"
proof (cases "cs = []")
  case True
  then show ?thesis by (simp add: top_dir)
next
  case False
  then obtain m where m: "1 \<le> m" "m < length (take n p)" "take n p ! m = CHR ''/''"
      "components (take m (take n p)) = cs"
    using scan_earlier [of "take n p"] assms(3) by auto
  from m(2) assms(2) have lt: "m < n" by simp
  then have "p ! m = CHR ''/''" "components (take m p) = cs" using m(3,4) by simp_all
  then show ?thesis using assms(1) m(1) lt by (auto simp: made_def)
qed

lemma made_Suc:
  "made p n w v \<Longrightarrow> (p ! n = CHR ''/'' \<longrightarrow> components (take n p) \<in> dirs v) \<Longrightarrow> made p (Suc n) w v"
  by (auto simp: made_def less_Suc_eq)

lemma makedirs_loop_made:
  "1 \<le> n \<Longrightarrow> n \<le> length p \<Longrightarrow> made p n w v \<Longrightarrow> here p \<Longrightarrow>
     \<exists>v'. makedirs_loop fs p [n ..< length p] v = (Inr (), v') \<and> made p (length p) w v'"
proof (induction "length p - n" arbitrary: n v)
  case 0
  then show ?case by simp
next
  case (Suc k)
  then have n: "n < length p" "[n ..< length p] = n # [Suc n ..< length p]"
    by (auto simp: upt_conv_Cons)
  have rest: "\<exists>v'. makedirs_loop fs p [Suc n ..< length p] u = (Inr (), v') \<and> made p (length p) w v'"
    if "made p n w u" "p ! n = CHR ''/'' \<longrightarrow> components (take n p) \<in> dirs u" for u
    using Suc.hyps(1) [of "Suc n" u] Suc.hyps(2) n(1) made_Suc [OF that] Suc.prems(4) by simp
  show ?case
  proof (cases "p ! n = CHR ''/''")
    case False
    then show ?thesis using rest [OF Suc.prems(3)] by (simp add: n(2))
  next
    case True
    note below = components_stop [OF n(1) True]
    have here: "here (take n p)" using here_stop [OF Suc.prems(4,1) n(1) True] .
    have ex: "fs_exists fs (take n p) v = (Inr (components (take n p) \<in> present v), v)"
      using exists_here [OF here] clear_stop [OF _ n(1) True] Suc.prems(3) by (simp add: made_def)
    show ?thesis
    proof (cases "components (take n p) \<in> present v")
      case p: True
      then have "components (take n p) \<in> dirs v"
        using Suc.prems(3) below by (auto simp: made_def clear_path_def stops_def)
      then show ?thesis using rest [OF Suc.prems(3)] p True
        by (simp add: n(2) ex andThen_def)
    next
      case p: False
      obtain cs cur where sc: "scan (take n p) = (cs, cur)" by fastforce
      have "cs \<in> dirs v" using parent_made [OF Suc.prems(3,2) sc] .
      moreover have "cur \<noteq> []"
        using p \<open>cs \<in> dirs v\<close> dirs_present [of v] sc by (auto simp: components_def)
      ultimately have "butlast (components (take n p)) \<in> dirs v" using sc by (simp add: components_def)
      then obtain u where u: "fs_mkdir fs (take n p) 511 v = (Inr (), u)"
          "components (take n p) \<in> dirs u" "made p n w u"
        using mkdir_made [OF here Suc.prems(3) p _ below] by blast
      then show ?thesis using rest [OF u(3)] True p
        by (simp add: n(2) ex andThen_def)
    qed
  qed
qed

lemma made_start: "clear_path p w \<Longrightarrow> made p 1 w w"
  by (auto simp: made_def)

text \<open>
  \<open>makedirs\<close> makes the directory, with its parents, and nothing else.
\<close>

lemma makedirs_ok:
  assumes "here p" "clear_path p w" "last p \<noteq> CHR ''/''"
  shows "\<exists>w'. makedirs fs p w = (Inr (), w') \<and> components p \<in> dirs w' \<and> dirs w \<subseteq> dirs w' \<and>
    present w \<subseteq> present w' \<and> present w' \<subseteq> present w \<union> range (\<lambda>k. take k (components p))"
proof -
  note ex = exists_here [OF assms(1,2)]
  have ne: "p \<noteq> []" using assms(1) by (simp add: here_def plain_path_def)
  show ?thesis
  proof (cases "components p \<in> present w")
    case True
    moreover have "take (length (components p)) (components p) = components p" by simp
    ultimately have "components p \<in> dirs w" using assms(2) unfolding clear_path_def by metis
    then show ?thesis using True by (auto simp: makedirs_def ex andThen_def)
  next
    case False
    obtain v where v: "makedirs_loop fs p [1 ..< length p] w = (Inr (), v)" "made p (length p) w v"
      using makedirs_loop_made [of 1 p w w] made_start [OF assms(2)] ne assms(1) by (auto simp: Suc_le_eq)
    note last = scan_last [OF ne assms(3)]
    have new: "components p \<notin> present v"
      using v(2) False last(2) by (auto simp: made_def)
    have "fst (scan p) \<in> dirs v"
      using parent_made [OF v(2) order_refl] by (cases "scan p") simp
    then have "butlast (components p) \<in> dirs v" by (subst last(1)) simp
    then obtain w' where w': "fs_mkdir fs p 511 v = (Inr (), w')"
        "present w' = insert (components p) (present v)" "dirs w' = insert (components p) (dirs v)"
      using mkdir_law [OF _ _ new] assms(1) unfolding here_def by blast
    have "makedirs fs p w = (Inr (), w')"
      using False v(1) w'(1) by (simp add: makedirs_def ex andThen_def)
    moreover have "components p \<in> range (\<lambda>k. take k (components p))"
      by (rule range_eqI [of _ _ "length (components p)"]) simp
    moreover have "stops p \<subseteq> range (\<lambda>k. take k (components p))" by (auto simp: stops_def)
    moreover have "present w \<subseteq> present v" "present v \<subseteq> present w \<union> stops p" "dirs w \<subseteq> dirs v"
      using v(2) by (simp_all add: made_def)
    ultimately show ?thesis using w'(2,3) by (intro exI [of _ w'] conjI) auto
  qed
qed

text \<open>
  A path with a slash at its end is not made: the loop makes the directory itself, and the last
  \<open>mkdir\<close> fails on what is there.
\<close>

lemma makedirs_slash:
  assumes "here p" "clear_path p w" "components p \<notin> present w"
  shows "\<exists>w'. makedirs fs (p @ ''/'') w =
    (Inl (FileError ''creating directory'' (p @ ''/'') EEXIST), w') \<and> components p \<in> dirs w'"
proof -
  let ?p = "p @ ''/''"
  have c: "components ?p = components p" by (rule components_slash)
  have ne: "p \<noteq> []" using assms(1) by (simp add: here_def plain_path_def)
  have here: "here ?p" using assms(1) c ne by (auto simp: here_def plain_path_def)
  have clear: "clear_path ?p w" using assms(2) by (simp only: clear_path_def c)
  obtain v where v: "makedirs_loop fs ?p [1 ..< length ?p] w = (Inr (), v)" "made ?p (length ?p) w v"
    using makedirs_loop_made [of 1 ?p w w] made_start [OF clear] here by auto
  have "1 \<le> length p \<and> length p < length ?p \<and> ?p ! length p = CHR ''/''"
    using ne by (simp add: nth_append Suc_le_eq)
  then have d: "components p \<in> dirs v" using v(2) unfolding made_def by fastforce
  have m: "fs_mkdir fs ?p 511 v = (Inl (FileError ''creating directory'' ?p EEXIST), v)"
    using mkdir_present [of ?p v] here d c unfolding here_def by simp
  have "makedirs fs ?p w = (Inl (FileError ''creating directory'' ?p EEXIST), v)"
    using assms(3) c v(1) m exists_here [OF here clear]
    by (simp add: makedirs_def andThen_def)
  then show ?thesis using d by blast
qed

end

section \<open>Interface: a store of files\<close>

text \<open>What there is at a place.\<close>

datatype entry = Absent | Regular bytes | Folder | Symlink | Special

text \<open>No part of the way to a place is something else than a directory.\<close>

definition unobstructed :: "(place \<Rightarrow> entry) \<Rightarrow> place \<Rightarrow> bool" where
  "unobstructed v k \<longleftrightarrow> (\<forall>j < length (snd k). v (fst k, take j (snd k)) = Absent \<or> v (fst k, take j (snd k)) = Folder)"

text \<open>
  What verification and cleanup rely on: \<open>view\<close> is what there is at every place; an opened
  regular file delivers its bytes (in pieces of any size), opening what is absent fails with
  \<open>ENOENT\<close>, and removing takes one file away and leaves everything else. Nothing is promised
  about opening a directory or a device, or a path through a file.
\<close>

locale file_store = reliable_source "file_readbytes fs" remaining
  for fs :: "('d, 'w) filesystem" and remaining :: "'d \<Rightarrow> bytes" +
  fixes view :: "'w \<Rightarrow> place \<Rightarrow> entry"
  assumes open_found: "plain_path p \<Longrightarrow> view w (resolve p) = Regular bs \<Longrightarrow>
      \<exists>d w'. fs_open fs p ReadOnly w = (Inr d, w') \<and> remaining d = bs \<and> view w' = view w"
    and open_missing: "plain_path p \<Longrightarrow> view w (resolve p) = Absent \<Longrightarrow>
      unobstructed (view w) (resolve p) \<Longrightarrow>
      \<exists>w'. fs_open fs p ReadOnly w = (Inl (FileError ''opening'' p ENOENT), w') \<and> view w' = view w"
    and destroy_ok: "\<exists>w'. file_destroy fs d w = (Inr (), w') \<and> view w' = view w"
    and remove_ok: "plain_path p \<Longrightarrow> view w (resolve p) = Regular bs \<Longrightarrow>
      \<exists>w'. fs_remove fs p w = (Inr (), w') \<and> view w' = (view w)(resolve p := Absent)"
begin

lemma delete_reader:
  "mode f \<noteq> Writing \<Longrightarrow> \<exists>w'. delete_File fs f d w = (Inr (), w') \<and> view w' = view w"
  using destroy_ok [of d w] by (auto simp: delete_File_def File_destructor_ok_def)

end

text \<open>
  With directories that can be listed, each name once, and types that can be told: what the walk of
  cleanup needs. A name is a component that a path can end in.
\<close>

definition plain_name :: "string \<Rightarrow> bool" where
  "plain_name n \<longleftrightarrow> n \<noteq> [] \<and> CHR ''/'' \<notin> set n \<and> CHR 0x00 \<notin> set n \<and> n \<noteq> ''.'' \<and> n \<noteq> ''..''"

fun filetype_of :: "entry \<Rightarrow> filetype" where
  "filetype_of (Regular bs) = RegularFile"
| "filetype_of Folder = Directory"
| "filetype_of Symlink = SymbolicLink"
| "filetype_of _ = UnknownFileType"

locale directory_store = file_store fs remaining view
  for fs :: "('d, 'w) filesystem" and remaining :: "'d \<Rightarrow> bytes" and view :: "'w \<Rightarrow> place \<Rightarrow> entry" +
  assumes contents_ok: "plain_path p \<Longrightarrow> view w (resolve p) = Folder \<Longrightarrow>
      \<exists>names w'. fs_contents fs p w = (Inr names, w') \<and> view w' = view w \<and> distinct names \<and>
        set names = {n. plain_name n \<and> view w (fst (resolve p), snd (resolve p) @ [n]) \<noteq> Absent}"
    and type_ok: "plain_path p \<Longrightarrow> view w (resolve p) \<noteq> Absent \<Longrightarrow>
      \<exists>w'. fs_type fs p w = (Inr (filetype_of (view w (resolve p))), w') \<and> view w' = view w"

end
