(* ===== verification/LocalFs.thy ===== *)
theory LocalFs
  imports Filesystem
begin

text \<open>
  The local file system of local.cc: \<open>LocalFile\<close> on a file descriptor and
  \<open>LocalFilesystem\<close>, over the system calls, which are an argument. A call either fails with
  an errno value or gives a result.
\<close>

section \<open>The system calls\<close>

datatype inode_type = S_IFREG | S_IFDIR | S_IFLNK | S_IFCHR | S_IFBLK | S_IFSOCK | S_IFIFO

record stat =
  st_type :: inode_type
  st_perm :: nat
  st_size :: nat
  st_dev :: nat
  st_ino :: nat
  st_nlink :: nat
  st_uid :: "32 word"
  st_gid :: "32 word"
  st_rdev :: nat
  st_atime :: int
  st_ctime :: int
  st_mtime :: int

datatype open_flags = O_RDONLY | O_WRONLY_CREAT_TRUNC | O_WRONLY_CREAT_EXCL

text \<open>
  \<open>'w\<close> is the state of the kernel, \<open>'fd\<close> an open file description. \<open>sys_mmap fd
  offset size\<close> gives the bytes mapped. \<open>sys_opendir\<close> gives the names that
  \<open>readdir\<close> delivers, and the errno value it ends with (0 for none).
\<close>

record ('fd, 'w) posix =
  sys_open :: "string \<Rightarrow> open_flags \<Rightarrow> 'w \<Rightarrow> (errno + 'fd) \<times> 'w"
  sys_read :: "nat \<Rightarrow> 'fd \<Rightarrow> (errno + bytes) \<times> 'fd"
  sys_write :: "bytes \<Rightarrow> 'fd \<times> 'w \<Rightarrow> (errno + nat) \<times> ('fd \<times> 'w)"
  sys_close :: "'fd \<Rightarrow> 'w \<Rightarrow> (errno + unit) \<times> 'w"
  sys_fstat :: "'fd \<Rightarrow> 'w \<Rightarrow> errno + stat"
  sys_mmap :: "'fd \<Rightarrow> nat \<Rightarrow> nat \<Rightarrow> 'w \<Rightarrow> (errno + bytes) \<times> 'w"
  sys_munmap :: "nat \<Rightarrow> 'w \<Rightarrow> (errno + unit) \<times> 'w"
  sys_rename :: "string \<Rightarrow> string \<Rightarrow> 'w \<Rightarrow> (errno + unit) \<times> 'w"
  sys_link :: "string \<Rightarrow> string \<Rightarrow> 'w \<Rightarrow> (errno + unit) \<times> 'w"
  sys_remove :: "string \<Rightarrow> 'w \<Rightarrow> (errno + unit) \<times> 'w"
  sys_mkdir :: "string \<Rightarrow> nat \<Rightarrow> 'w \<Rightarrow> (errno + unit) \<times> 'w"
  sys_mknod :: "string \<Rightarrow> nat \<Rightarrow> nat \<Rightarrow> 'w \<Rightarrow> (errno + unit) \<times> 'w"
  sys_lchown :: "string \<Rightarrow> nat \<Rightarrow> nat \<Rightarrow> 'w \<Rightarrow> (errno + unit) \<times> 'w"
  sys_chmod :: "string \<Rightarrow> nat \<Rightarrow> 'w \<Rightarrow> (errno + unit) \<times> 'w"
  sys_symlink :: "string \<Rightarrow> string \<Rightarrow> 'w \<Rightarrow> (errno + unit) \<times> 'w"
  sys_utimes :: "string \<Rightarrow> int \<Rightarrow> int \<Rightarrow> 'w \<Rightarrow> (errno + unit) \<times> 'w"
  sys_stat :: "string \<Rightarrow> 'w \<Rightarrow> errno + stat"
  sys_lstat :: "string \<Rightarrow> 'w \<Rightarrow> errno + stat"
  sys_opendir :: "string \<Rightarrow> 'w \<Rightarrow> errno + (string list \<times> errno)"
  sys_closedir :: "string \<Rightarrow> 'w \<Rightarrow> errno + unit"
  sys_readlink :: "string \<Rightarrow> nat \<Rightarrow> 'w \<Rightarrow> errno + string"

text \<open>\<open>if(call < 0) throw FileError(doing, path, errno);\<close>\<close>

definition checked :: "string \<Rightarrow> path \<Rightarrow> (errno + 'a) \<times> 's \<Rightarrow> (exn + 'a) \<times> 's" where
  "checked doing path r =
     (case r of (Inl e, s) \<Rightarrow> (Inl (FileError doing path e), s) | (Inr x, s) \<Rightarrow> (Inr x, s))"

lemma checked_simps [simp]:
  "checked doing path (Inl e, s) = (Inl (FileError doing path e), s)"
  "checked doing path (Inr x, s) = (Inr x, s)"
  by (simp_all add: checked_def)

section \<open>Local files\<close>

text \<open>A \<open>LocalFile\<close> keeps its path, for messages, and its descriptor.\<close>

type_synonym 'fd localfile = "path \<times> 'fd"

fun open_flags_of :: "open_mode \<Rightarrow> open_flags" where
  "open_flags_of ReadOnly = O_RDONLY"
| "open_flags_of Overwrite = O_WRONLY_CREAT_TRUNC"
| "open_flags_of NoOverwrite = O_WRONLY_CREAT_EXCL"

definition LocalFile_open :: "('fd, 'w) posix \<Rightarrow> path \<Rightarrow> open_mode \<Rightarrow> ('w, 'fd localfile) prog" where
  "LocalFile_open sys path m w =
     (case checked ''opening'' path (sys_open sys (c_str path) (open_flags_of m) w) of
        (Inl e, w') \<Rightarrow> (Inl e, w')
      | (Inr fd, w') \<Rightarrow> (Inr (path, fd), w'))"

definition LocalFile_destroy :: "('fd, 'w) posix \<Rightarrow> 'fd localfile \<Rightarrow> ('w, unit) prog" where
  "LocalFile_destroy sys file w = checked ''closing'' (fst file) (sys_close sys (snd file) w)"

definition LocalFile_readbytes :: "('fd, 'w) posix \<Rightarrow> 'fd localfile reader" where
  "LocalFile_readbytes sys space file =
     (case sys_read sys space (snd file) of
        (Inl e, fd) \<Rightarrow> (Inl (FileError ''reading'' (fst file) e), (fst file, fd))
      | (Inr bs, fd) \<Rightarrow> (Inr bs, (fst file, fd)))"

text \<open>
  The loop of \<open>writebytes\<close>. Every call of \<open>write\<close> is given \<open>nbytes\<close> bytes from
  \<open>buf + written\<close> on, so after a short write it reads past the end of what was to be written:
  \<open>beyond\<close> is what lies there in memory. A \<open>write\<close> that keeps returning 0 would make the
  loop run for ever.
\<close>

partial_function (option) write_loop ::
  "(bytes \<Rightarrow> 'd \<Rightarrow> (errno + nat) \<times> 'd) \<Rightarrow> path \<Rightarrow> bytes \<Rightarrow> bytes \<Rightarrow> nat \<Rightarrow> 'd \<Rightarrow> ((exn + unit) \<times> 'd) option" where
  "write_loop wr path buf beyond written d =
     (if written < length buf then
        (case wr (take (length buf) (drop written (buf @ beyond))) d of
           (Inl e, d') \<Rightarrow> Some (Inl (FileError ''writing'' path e), d')
         | (Inr n, d') \<Rightarrow> write_loop wr path buf beyond (written + n) d')
      else Some (Inr (), d))"

declare write_loop.simps [code]

definition LocalFile_writebytes :: "('fd, 'w) posix \<Rightarrow> bytes \<Rightarrow> ('fd localfile \<times> 'w) writer" where
  "LocalFile_writebytes sys beyond buf fw =
     (case fw of ((path, fd), w) \<Rightarrow>
        (case terminating (fd, w) (write_loop (sys_write sys) path buf beyond 0 (fd, w)) of
           (r, (fd', w')) \<Rightarrow> (r, ((path, fd'), w'))))"

section \<open>The local file system\<close>

definition LocalFilesystem_rename :: "('fd, 'w) posix \<Rightarrow> path \<Rightarrow> path \<Rightarrow> ('w, unit) prog" where
  "LocalFilesystem_rename sys oldpath newpath w =
     checked ''renaming'' oldpath (sys_rename sys (c_str oldpath) (c_str newpath) w)"

definition LocalFilesystem_link :: "('fd, 'w) posix \<Rightarrow> path \<Rightarrow> path \<Rightarrow> ('w, unit) prog" where
  "LocalFilesystem_link sys oldpath newpath w =
     checked ''linking'' oldpath (sys_link sys (c_str oldpath) (c_str newpath) w)"

definition LocalFilesystem_remove :: "('fd, 'w) posix \<Rightarrow> path \<Rightarrow> ('w, unit) prog" where
  "LocalFilesystem_remove sys path w = checked ''removing'' path (sys_remove sys (c_str path) w)"

definition LocalFilesystem_mkdir :: "('fd, 'w) posix \<Rightarrow> path \<Rightarrow> nat \<Rightarrow> ('w, unit) prog" where
  "LocalFilesystem_mkdir sys path m w =
     checked ''creating directory'' path (sys_mkdir sys (c_str path) m w)"

definition LocalFilesystem_mknod :: "('fd, 'w) posix \<Rightarrow> path \<Rightarrow> nat \<Rightarrow> nat \<Rightarrow> ('w, unit) prog" where
  "LocalFilesystem_mknod sys path m rdev w =
     checked ''creating device'' path (sys_mknod sys (c_str path) m rdev w)"

definition LocalFilesystem_lchown :: "('fd, 'w) posix \<Rightarrow> path \<Rightarrow> nat \<Rightarrow> nat \<Rightarrow> ('w, unit) prog" where
  "LocalFilesystem_lchown sys path uid gid w =
     checked ''changing ownership of'' path (sys_lchown sys (c_str path) uid gid w)"

definition LocalFilesystem_chmod :: "('fd, 'w) posix \<Rightarrow> path \<Rightarrow> nat \<Rightarrow> ('w, unit) prog" where
  "LocalFilesystem_chmod sys path m w =
     checked ''changing permissions of'' path (sys_chmod sys (c_str path) m w)"

definition LocalFilesystem_symlink :: "('fd, 'w) posix \<Rightarrow> string \<Rightarrow> path \<Rightarrow> ('w, unit) prog" where
  "LocalFilesystem_symlink sys target path w =
     checked ''creating symlink'' path (sys_symlink sys (c_str target) (c_str path) w)"

definition LocalFilesystem_utimes :: "('fd, 'w) posix \<Rightarrow> path \<Rightarrow> int \<Rightarrow> int \<Rightarrow> ('w, unit) prog" where
  "LocalFilesystem_utimes sys path atime mtime w =
     checked ''setting file times'' path (sys_utimes sys (c_str path) atime mtime w)"

definition LocalFilesystem_exists :: "('fd, 'w) posix \<Rightarrow> path \<Rightarrow> ('w, bool) prog" where
  "LocalFilesystem_exists sys path w =
     (case sys_stat sys (c_str path) w of
        Inl e \<Rightarrow> if e \<noteq> ENOENT then (Inl (FileError ''stat'' path e), w) else (Inr False, w)
      | Inr sb \<Rightarrow> (Inr True, w))"

text \<open>The loop over \<open>readdir\<close>, then \<open>closedir\<close> (whose result the handler ignores).\<close>

fun read_entries :: "string list \<Rightarrow> string list \<Rightarrow> string list" where
  "read_entries [] c = c"
| "read_entries (s # de) c = read_entries de (if s \<noteq> ''.'' \<and> s \<noteq> ''..'' then c @ [s] else c)"

definition LocalFilesystem_contents :: "('fd, 'w) posix \<Rightarrow> path \<Rightarrow> ('w, string list) prog" where
  "LocalFilesystem_contents sys path w =
     (case sys_opendir sys (c_str path) w of
        Inl e \<Rightarrow> (Inl (FileError ''opening directory'' path e), w)
      | Inr (names, e) \<Rightarrow>
          if e \<noteq> 0 then (Inl (FileError ''reading directory'' path e), w)
          else (case sys_closedir sys (c_str path) w of
                  Inl e \<Rightarrow> (Inl (FileError ''closing directory'' path e), w)
                | Inr _ \<Rightarrow> (Inr (read_entries names []), w)))"

definition MAXLINKSIZE :: nat where
  "MAXLINKSIZE = 8192"

definition LocalFilesystem_readlink :: "('fd, 'w) posix \<Rightarrow> path \<Rightarrow> ('w, string) prog" where
  "LocalFilesystem_readlink sys path w =
     (case sys_readlink sys (c_str path) MAXLINKSIZE w of
        Inl e \<Rightarrow> (Inl (FileError ''reading link'' path e), w)
      | Inr s \<Rightarrow> if MAXLINKSIZE \<le> length s then (Inl (FileError ''reading link'' path ENAMETOOLONG), w)
                else (Inr (c_str s), w))"

definition LocalFilesystem_ismount :: "('fd, 'w) posix \<Rightarrow> path \<Rightarrow> ('w, bool) prog" where
  "LocalFilesystem_ismount sys path w =
     (let parent = path @ ''/..''
      in case sys_stat sys (c_str path) w of
           Inl e \<Rightarrow> (Inl (FileError ''stat'' path e), w)
         | Inr sb \<Rightarrow>
             if st_type sb \<noteq> S_IFDIR then (Inr False, w)
             else (case sys_stat sys (c_str parent) w of
                     Inl e \<Rightarrow> (Inl (FileError ''stat'' parent e), w)
                   | Inr psb \<Rightarrow> (Inr (st_dev sb \<noteq> st_dev psb), w)))"

definition LocalFilesystem_type :: "('fd, 'w) posix \<Rightarrow> path \<Rightarrow> ('w, filetype) prog" where
  "LocalFilesystem_type sys path w =
     (case sys_lstat sys (c_str path) w of
        Inl e \<Rightarrow> (Inl (FileError ''lstat'' path e), w)
      | Inr sb \<Rightarrow>
          (Inr (if st_type sb = S_IFREG then RegularFile
                else if st_type sb = S_IFDIR then Directory
                else if st_type sb = S_IFLNK then SymbolicLink
                else UnknownFileType), w))"

text \<open>The class as a table of virtual functions. It does not override the last of them.\<close>

definition LocalFilesystem :: "('fd, 'w) posix \<Rightarrow> bytes \<Rightarrow> ('fd localfile, 'w) filesystem" where
  "LocalFilesystem sys beyond =
     \<lparr>fs_local = True,
      fs_rename = LocalFilesystem_rename sys,
      fs_link = LocalFilesystem_link sys,
      fs_remove = LocalFilesystem_remove sys,
      fs_open = LocalFile_open sys,
      fs_mkdir = LocalFilesystem_mkdir sys,
      fs_mknod = LocalFilesystem_mknod sys,
      fs_lchown = LocalFilesystem_lchown sys,
      fs_chmod = LocalFilesystem_chmod sys,
      fs_symlink = LocalFilesystem_symlink sys,
      fs_exists = LocalFilesystem_exists sys,
      fs_contents = LocalFilesystem_contents sys,
      fs_type = LocalFilesystem_type sys,
      fs_readlink = LocalFilesystem_readlink sys,
      fs_ismount = LocalFilesystem_ismount sys,
      fs_utimes = LocalFilesystem_utimes sys,
      fs_prefigure_exists = Filesystem_prefigure_exists,
      file_readbytes = LocalFile_readbytes sys,
      file_writebytes = LocalFile_writebytes sys beyond,
      file_synchronize = File_synchronize,
      file_destroy = LocalFile_destroy sys\<rparr>"

lemmas LocalFilesystem_simps =
  LocalFilesystem_def LocalFile_open_def LocalFile_destroy_def LocalFilesystem_remove_def
  LocalFilesystem_mkdir_def LocalFilesystem_exists_def LocalFilesystem_type_def
  LocalFilesystem_contents_def LocalFilesystem_rename_def

end
