(* ===== verification/Globals.thy ===== *)
theory Globals
  imports Filesystem
begin

text \<open>
  The global variables of globals.cc: the settings made by the command line (record
  \<open>options\<close>) and the counters and streams that a run changes (record \<open>globals\<close>, which
  extends \<open>diag\<close>); and the messages and errno values of the exception classes
  (exceptions.cc, and the constructor of \<open>SftpFileError\<close> in sftp.cc).
\<close>

section \<open>Settings\<close>

record options =
  repo :: string
  indexfile :: string
  root :: string
  sftphost :: string
  crossfs :: bool
  preserve_atime :: bool
  overwrite_index :: bool
  deleteclean :: bool
  verbose :: bool
  permissions :: bool
  detectbogus :: bool
  sftpserver :: "string option"
  recheckhash :: bool
  from_encoding :: "string option"
  to_encoding :: "string option"
  hintfile :: string

definition initial_options :: options where
  "initial_options =
     \<lparr>repo = '''', indexfile = '''', root = '''', sftphost = '''', crossfs = True,
      preserve_atime = False, overwrite_index = False, deleteclean = False, verbose = False,
      permissions = True, detectbogus = False, sftpserver = None,
      recheckhash = True, from_encoding = None, to_encoding = None, hintfile = ''''\<rparr>"

text \<open>
  Texts the C library makes: the message of an errno value, and \<open>%g\<close> of a quotient.
\<close>

record libc =
  strerror :: "errno \<Rightarrow> string"
  format_g :: "nat \<Rightarrow> nat \<Rightarrow> string"

definition HASH_NAME :: string where
  "HASH_NAME = ''sha1''"

section \<open>Counters, streams and the outside\<close>

record 'w globals = diag +
  world :: 'w
  stdout_lines :: "string list"
  hash_mmap :: nat
  hash_read :: nat
  total_regular_files :: nat
  total_dirs :: nat
  total_links :: nat
  total_devs :: nat
  total_socks :: nat
  total_hardlinks :: nat
  unknown_files :: nat
  new_hashes :: nat
  small_files :: nat
  hints_used :: nat

definition initial_globals :: "'w \<Rightarrow> 'w globals" where
  "initial_globals w =
     \<lparr>errors = 0, warnings = 0, stderr_lines = [], world = w, stdout_lines = [],
      hash_mmap = 0, hash_read = 0, total_regular_files = 0, total_dirs = 0, total_links = 0,
      total_devs = 0, total_socks = 0, total_hardlinks = 0, unknown_files = 0, new_hashes = 0,
      small_files = 0, hints_used = 0\<rparr>"

text \<open>A call of a file system, inside the program.\<close>

definition in_world :: "('w, 'a) prog \<Rightarrow> (('w, 'z) globals_scheme, 'a) prog" where
  "in_world m s = (case m (world s) of (r, w) \<Rightarrow> (r, s\<lparr>world := w\<rparr>))"

text \<open>\<open>fprintf(stderr, ...)\<close> and \<open>puts\<close>.\<close>

definition to_stderr :: "string \<Rightarrow> 'z diag_scheme \<Rightarrow> 'z diag_scheme" where
  "to_stderr line d = d\<lparr>stderr_lines := stderr_lines d @ [line]\<rparr>"

definition to_stdout :: "string \<Rightarrow> ('w, 'z) globals_scheme \<Rightarrow> ('w, 'z) globals_scheme" where
  "to_stdout line s = s\<lparr>stdout_lines := stdout_lines s @ [line]\<rparr>"

definition note_if :: "bool \<Rightarrow> string \<Rightarrow> 'z diag_scheme \<Rightarrow> 'z diag_scheme" where
  "note_if v line d = (if v then to_stderr line d else d)"

lemma in_world_ok: "m (world s) = (r, w) \<Longrightarrow> in_world m s = (r, s\<lparr>world := w\<rparr>)"
  by (simp add: in_world_def)

lemma diag_frame [simp]:
  "world (error msg s) = world s" "world (to_stderr line s) = world s"
  "world (to_stdout line s) = world s" "errors (to_stderr line s) = errors s"
  "errors (to_stdout line s) = errors s" "stdout_lines (error msg s) = stdout_lines s"
  "stdout_lines (to_stderr line s) = stdout_lines s"
  "world (warning msg s) = world s" "hash_read (error msg s) = hash_read s"
  by (simp_all add: error_def warning_def to_stderr_def to_stdout_def)

section \<open>Exceptions\<close>

text \<open>\<open>snprintf\<close> into a buffer of 1024 bytes.\<close>

definition snprintf_w :: "string \<Rightarrow> string" where
  "snprintf_w s = take 1023 s"

text \<open>
  \<open>what()\<close>; \<open>None\<close> is \<open>abort()\<close> or
  no exception at all.
\<close>

fun what :: "libc \<Rightarrow> exn \<Rightarrow> string option" where
  "what lc (FileError doing path e) =
     Some (snprintf_w (doing @ '' '' @ c_str path @ '': '' @ strerror lc e))"
| "what lc (SftpFileError doing path message status) =
     Some (snprintf_w (doing @ '' '' @ c_str path @ '': '' @ c_str message))"
| "what lc ReadOnlyFile = Some ''write to read-only file''"
| "what lc WriteOnlyFile = Some ''read from write-only file''"
| "what lc (BadHex s) = Some (snprintf_w (''invalid hex value: '' @ c_str s))"
| "what lc BadHexDigit = Some ''invalid hex digit''"
| "what lc (HashError e) =
     (if e = 0 then Some ''OK''
      else if e = 1 then Some ''Null pointer parameter to SHA1 routine''
      else if e = 2 then Some ''SHA1 input data too long''
      else if e = 3 then Some ''called SHA1Input after SHA1Result''
      else None)"
| "what lc (BadIndexFile s) = Some (snprintf_w (''bad index file: '' @ c_str s))"
| "what lc OutOfRange = Some ''out_of_range''"
| "what lc LengthError = Some ''length_error''"
| "what lc (Fatal msg) = None"
| "what lc (AssertFailed c) = None"
| "what lc Diverges = None"

definition EACCES :: errno where "EACCES = 13"

text \<open>
  \<open>error()\<close> of a \<open>FileError\<close>, for a \<open>catch(FileError &e)\<close> clause; the
  constructor of the subclass maps the status codes of the protocol to errno values.
\<close>

text \<open>The status codes of the protocol as errno values, in the constructor of \<open>SftpFileError\<close>.\<close>

definition sftp_errno :: "32 word \<Rightarrow> errno" where
  "sftp_errno status =
     (if status = 0 then 0 else if status = 2 then ENOENT else if status = 3 then EACCES
      else if status = 8 then ENOSYS else -1)"

fun file_error :: "exn \<Rightarrow> errno option" where
  "file_error (FileError doing path e) = Some e"
| "file_error (SftpFileError doing path message status) = Some (sftp_errno status)"
| "file_error _ = None"

lemma file_error_catchable: "file_error e = Some n \<Longrightarrow> catchable e"
  by (cases e) simp_all

lemma what_FileError_Some: "file_error e = Some n \<Longrightarrow> \<exists>m. what lc e = Some m"
  by (cases e) simp_all

end
