(* ===== verification/Hashing.thy ===== *)
theory Hashing
  imports Sha1_Spec LocalFs Globals
begin

text \<open>
  The class \<open>Hash\<close> of nhbackup.h and \<open>hashfile\<close> of hash.cc, which hashes a file either
  through a \<open>File\<close> or, for large local files, by mapping it piece by piece. Both compute the
  SHA-1 of the contents: \<open>Hash\<close> is an incremental hash (interface
  \<open>incremental_hash\<close>), so the sizes of the pieces do not matter.
\<close>

section \<open>The class Hash\<close>

definition Hash_init :: "(SHA1Context, unit) prog" where
  "Hash_init c = (case SHA1Reset c of (e, c') \<Rightarrow> (if e \<noteq> 0 then Inl (HashError e) else Inr (), c'))"

text \<open>The length parameter of \<open>SHA1Input\<close> is \<open>unsigned\<close>: a larger \<open>nbytes\<close> is cut.\<close>

definition Hash_write :: "bytes \<Rightarrow> (SHA1Context, unit) prog" where
  "Hash_write ptr c =
     (case SHA1Input c (take (length ptr mod 2 ^ 32) ptr) of
        (e, c') \<Rightarrow> (if e \<noteq> 0 then Inl (HashError e) else Inr (), c'))"

definition Hash_value :: "(SHA1Context, bytes) prog" where
  "Hash_value c =
     (case SHA1Result c of
        (e, result, c') \<Rightarrow> (if e \<noteq> 0 then Inl (HashError e) else Inr (the result), c'))"

section \<open>Hashing a file\<close>

text \<open>
  \<open>try { ... } catch(...) { delete f; throw; } delete f;\<close> with the outcome of the try block;
  an exception of the destructor takes the place of the first one.
\<close>

definition closing :: "('s, unit) prog \<Rightarrow> exn + 'a \<Rightarrow> ('s, 'a) prog" where
  "closing del r s =
     (case r of
        Inl e \<Rightarrow> if catchable e then andThen del (\<lambda>_. throw e) s else (Inl e, s)
      | Inr x \<Rightarrow> andThen del (\<lambda>_. ret x) s)"

definition MAXMAP :: nat where
  "MAXMAP = 256 * 1024 * 1024"

text \<open>
  The mapping loop. With an exception comes what \<open>m\<close> is in the handler: the size of the
  mapping that is still there, if one is.
\<close>

function mmap_loop ::
  "('fd, 'w) posix \<Rightarrow> path \<Rightarrow> 'fd \<Rightarrow> nat \<Rightarrow> nat \<Rightarrow> SHA1Context \<Rightarrow> 'w \<Rightarrow>
     (exn \<times> nat option + unit) \<times> SHA1Context \<times> 'w" where
  "mmap_loop sys path fd fsize n ho w =
     (if n < fsize then
        let left = fsize - n; sz = (if left > MAXMAP then MAXMAP else left)
        in (case sys_mmap sys fd n sz w of
              (Inl e, w1) \<Rightarrow> (Inl (FileError ''mapping'' path e, None), ho, w1)
            | (Inr m, w1) \<Rightarrow>
                (case Hash_write m ho of
                   (Inl e, ho1) \<Rightarrow> (Inl (e, Some sz), ho1, w1)
                 | (Inr _, ho1) \<Rightarrow>
                     (case sys_munmap sys sz w1 of
                        (Inl e, w2) \<Rightarrow> (Inl (FileError ''unmapping'' path e, Some sz), ho1, w2)
                      | (Inr _, w2) \<Rightarrow> mmap_loop sys path fd fsize (n + sz) ho1 w2)))
      else (Inr (), ho, w))"
  by pat_completeness auto
termination
  by (relation "measure (\<lambda>(_, _, _, size, n, _). size - n)") (auto simp: MAXMAP_def Let_def split: if_splits)

declare mmap_loop.simps [simp del]

definition hashfile_mmap ::
  "('fd, 'w) posix \<Rightarrow> path \<Rightarrow> SHA1Context \<Rightarrow> ('w, SHA1Context) prog" where
  "hashfile_mmap sys path ho w =
     (case checked ''opening'' path (sys_open sys (c_str path) O_RDONLY w) of
        (Inl e, w1) \<Rightarrow> (Inl e, w1)
      | (Inr fd, w1) \<Rightarrow>
          (case (case sys_fstat sys fd w1 of
                   Inl e \<Rightarrow> (Inl (FileError ''fstat'' path e, None), ho, w1)
                 | Inr sb \<Rightarrow> mmap_loop sys path fd (st_size sb) 0 ho w1) of
             (Inl (e, m), ho', w2) \<Rightarrow>
               let w3 = snd (sys_close sys fd w2);
                   w4 = (case m of None \<Rightarrow> w3 | Some sz \<Rightarrow> snd (sys_munmap sys sz w3))
               in (Inl e, w4)
           | (Inr _, ho', w2) \<Rightarrow>
               (case checked ''closing'' path (sys_close sys fd w2) of
                  (Inl e, w3) \<Rightarrow> (Inl e, w3)
                | (Inr _, w3) \<Rightarrow> (Inr ho', w3))))"

definition hashfile_read ::
  "('d, 'w) filesystem \<Rightarrow> bytes \<Rightarrow> path \<Rightarrow> SHA1Context \<Rightarrow> ('w, SHA1Context) prog" where
  "hashfile_read fs garbage path ho =
     andThen (fs_open fs path ReadOnly)
       (\<lambda>d w. case read_loop (file_readbytes fs) 4096 Hash_write (File garbage d) ho of
          None \<Rightarrow> (Inl Diverges, w)
        | Some (r, f, ho') \<Rightarrow> closing (delete_File fs f (dev f)) (map_sum id (\<lambda>_. ho') r) w)"

text \<open>
  \<open>hashfile\<close>; \<open>ho\<close> and \<open>garbage\<close> are the uninitialised memory of the hash
  object and of the file's buffer.
\<close>

definition hashfile ::
  "('fd, 'w) posix \<Rightarrow> ('d, 'w) filesystem \<Rightarrow> SHA1Context \<Rightarrow> bytes \<Rightarrow> path \<Rightarrow> bool \<Rightarrow>
     (('w, 'z) globals_scheme, bytes) prog" where
  "hashfile sys fs ho garbage path mmap_hint s =
     (case Hash_init ho of
        (Inl e, _) \<Rightarrow> (Inl e, s)
      | (Inr _, ho1) \<Rightarrow>
          andThen
            (if fs_local fs \<and> mmap_hint then
               andThen (in_world (hashfile_mmap sys path ho1))
                 (\<lambda>ho2 s. (Inr ho2, s\<lparr>hash_mmap := hash_mmap s + 1\<rparr>))
             else
               andThen (in_world (hashfile_read fs garbage path ho1))
                 (\<lambda>ho2 s. (Inr ho2, s\<lparr>hash_read := hash_read s + 1\<rparr>)))
            (\<lambda>ho2 s. (fst (Hash_value ho2), s)) s)"

section \<open>Interface: an incremental hash\<close>

text \<open>
  \<open>repr m h\<close>: the object has taken in \<open>m\<close>. Writing appends, in pieces that are
  \<open>small\<close>, as long as the whole message \<open>fits\<close>.
\<close>

locale incremental_hash =
  fixes repr :: "bytes \<Rightarrow> 'h \<Rightarrow> bool"
    and hwrite :: "bytes \<Rightarrow> ('h, unit) prog"
    and hvalue :: "('h, 'v) prog"
    and digest :: "bytes \<Rightarrow> 'v"
    and fits :: "bytes \<Rightarrow> bool"
    and small :: "nat"
  assumes fits_prefix: "fits (m @ bs) \<Longrightarrow> fits m"
    and write_law: "repr m h \<Longrightarrow> fits (m @ bs) \<Longrightarrow> length bs < small \<Longrightarrow>
      \<exists>h'. hwrite bs h = (Inr (), h') \<and> repr (m @ bs) h'"
    and value_law: "repr m h \<Longrightarrow> \<exists>h'. hvalue h = (Inr (digest m), h')"
begin

lemma for_chunks_write:
  "repr m h \<Longrightarrow> fits (m @ concat cs) \<Longrightarrow> \<forall>c \<in> set cs. length c < small \<Longrightarrow>
     \<exists>h'. for_chunks hwrite cs h = (Inr (), h') \<and> repr (m @ concat cs) h'"
proof (induction cs arbitrary: m h)
  case (Cons c cs)
  have "fits (m @ c)" using fits_prefix [of "m @ c" "concat cs"] Cons.prems(2) by simp
  then obtain h1 where h1: "hwrite c h = (Inr (), h1)" "repr (m @ c) h1"
    using write_law [OF Cons.prems(1), of c] Cons.prems(3) by auto
  then show ?case using Cons.IH [OF h1(2)] Cons.prems(2,3) by simp
qed simp

text \<open>How the message is cut into pieces does not matter.\<close>

lemma chunk_independent:
  assumes "repr [] h" "repr [] g" "concat cs = concat ds" "fits (concat cs)"
    "\<forall>c \<in> set cs. length c < small" "\<forall>d \<in> set ds. length d < small"
  shows "fst (andThen (for_chunks hwrite cs) (\<lambda>_. hvalue) h) =
         fst (andThen (for_chunks hwrite ds) (\<lambda>_. hvalue) g)"
proof -
  obtain h' g' where *: "for_chunks hwrite cs h = (Inr (), h')" "repr (concat cs) h'"
      "for_chunks hwrite ds g = (Inr (), g')" "repr (concat ds) g'"
    using for_chunks_write [OF assms(1), of cs] for_chunks_write [OF assms(2), of ds] assms(3-6) by auto
  obtain h'' g'' where "hvalue h' = (Inr (digest (concat cs)), h'')" "hvalue g' = (Inr (digest (concat ds)), g'')"
    using value_law *(2,4) by blast
  then show ?thesis using * assms(3) by simp
qed

end

definition sha1_fits :: "bytes \<Rightarrow> bool" where
  "sha1_fits m \<longleftrightarrow> 8 * length m < 2 ^ 64"

lemma Hash_init_absorbed:
  "length (Message_Block c) = 64 \<Longrightarrow> \<exists>c'. Hash_init c = (Inr (), c') \<and> absorbed [] c'"
  using Reset_absorbed [of c] by (simp add: Hash_init_def SHA1Reset_def shaSuccess_def)

interpretation sha: incremental_hash absorbed Hash_write Hash_value sha1 sha1_fits "2 ^ 32"
proof unfold_locales
  fix m bs h
  show "sha1_fits (m @ bs) \<Longrightarrow> sha1_fits m" by (simp add: sha1_fits_def)
  show "\<exists>h'. Hash_write bs h = (Inr (), h') \<and> absorbed (m @ bs) h'"
    if "absorbed m h" "sha1_fits (m @ bs)" "length bs < 2 ^ 32"
    using SHA1Input_absorbed [OF that(1), of bs] that(2,3)
    by (cases "SHA1Input h bs") (simp add: Hash_write_def sha1_fits_def shaSuccess_def)
  show "\<exists>h'. Hash_value h = (Inr (sha1 m), h')" if "absorbed m h"
    using SHA1Result_absorbed [OF that]
    by (cases "SHA1Result h") (auto simp: Hash_value_def shaSuccess_def)
qed

lemma chunking_small: "chunking 4096 cs \<Longrightarrow> \<forall>c \<in> set cs. length c < 2 ^ 32"
  by (auto simp: chunking_def)

section \<open>Hashing through a File\<close>

context file_store begin

lemma hashfile_read_found:
  assumes "plain_path p" "view w (resolve p) = Regular bs" "sha1_fits bs" "absorbed [] ho"
    "length garbage = BUFFER_SIZE"
  shows "\<exists>ho' w'. hashfile_read fs garbage p ho w = (Inr ho', w') \<and> absorbed bs ho' \<and> view w' = view w"
proof -
  obtain d w1 where d: "fs_open fs p ReadOnly w = (Inr d, w1)" "remaining d = bs" "view w1 = view w"
    using open_found [OF assms(1,2)] by blast
  let ?f = "File garbage d"
  have ok: "reader_ok ?f" using File_reader_ok assms(5) .
  obtain r f ho' cs rest where l: "read_loop (file_readbytes fs) 4096 Hash_write ?f ho = Some (r, f, ho')"
      "reader_ok f" "chunking 4096 cs" "concat cs @ rest = unread ?f" "for_chunks Hash_write cs ho = (r, ho')"
      "r = Inr () \<longrightarrow> rest = []"
    using read_loop_total [OF ok, of 4096 Hash_write ho] by auto
  have un: "concat cs @ rest = bs" using l(4) d(2) by simp
  then have "sha1_fits (concat cs)" using assms(3) sha.fits_prefix by blast
  then obtain h where h: "for_chunks Hash_write cs ho = (Inr (), h)" "absorbed (concat cs) h"
    using sha.for_chunks_write [OF assms(4), of cs] chunking_small [OF l(3)] by auto
  have r: "r = Inr ()" "h = ho'" "rest = []" using h(1) l(5,6) by auto
  have "mode f \<noteq> Writing" using l(2) by (simp add: reader_ok_def)
  then obtain w' where "delete_File fs f (dev f) w1 = (Inr (), w')" "view w' = view w1"
    using delete_reader by blast
  then have "hashfile_read fs garbage p ho w = (Inr ho', w')"
    using d(1) l(1) r(1) by (simp add: hashfile_read_def closing_def)
  then show ?thesis using h(2) r un d(3) \<open>view w' = view w1\<close> by auto
qed

lemma hashfile_found:
  assumes "plain_path p" "view (world s) (resolve p) = Regular bs" "sha1_fits bs"
    "length (Message_Block ho) = 64" "length garbage = BUFFER_SIZE" "\<not> (fs_local fs \<and> hint)"
  shows "\<exists>w'. hashfile sys fs ho garbage p hint s =
      (Inr (sha1 bs), s\<lparr>world := w', hash_read := hash_read s + 1\<rparr>) \<and> view w' = view (world s)"
proof -
  obtain h0 where h0: "Hash_init ho = (Inr (), h0)" "absorbed [] h0"
    using Hash_init_absorbed [OF assms(4)] by blast
  obtain h1 w' where h1: "hashfile_read fs garbage p h0 (world s) = (Inr h1, w')" "absorbed bs h1"
      "view w' = view (world s)"
    using hashfile_read_found [OF assms(1-3) h0(2) assms(5)] by blast
  obtain h2 where "Hash_value h1 = (Inr (sha1 bs), h2)" using sha.value_law [OF h1(2)] by blast
  then have "hashfile sys fs ho garbage p hint s =
      (Inr (sha1 bs), s\<lparr>world := w', hash_read := hash_read s + 1\<rparr>)"
    using h0(1) h1(1) assms(6) by (auto simp: hashfile_def in_world_def andThen_def)
  then show ?thesis using h1(3) by blast
qed

lemma hashfile_missing:
  assumes "plain_path p" "view (world s) (resolve p) = Absent" "unobstructed (view (world s)) (resolve p)"
    "length (Message_Block ho) = 64" "\<not> (fs_local fs \<and> hint)"
  shows "\<exists>w'. hashfile sys fs ho garbage p hint s =
      (Inl (FileError ''opening'' p ENOENT), s\<lparr>world := w'\<rparr>) \<and> view w' = view (world s)"
proof -
  obtain h0 where h0: "Hash_init ho = (Inr (), h0)"
    using Hash_init_absorbed [OF assms(4)] by blast
  obtain w' where "fs_open fs p ReadOnly (world s) = (Inl (FileError ''opening'' p ENOENT), w')"
      "view w' = view (world s)"
    using open_missing [OF assms(1-3)] by blast
  then show ?thesis using h0 assms(5)
    by (auto simp: hashfile_def in_world_def andThen_def hashfile_read_def)
qed

end

section \<open>Hashing through a mapping\<close>

text \<open>
  What the mapping path relies on: a regular file can be opened, its size is the length of its
  contents, and a mapping shows the part asked for.
\<close>

locale mappable =
  fixes sys :: "('fd, 'w) posix"
    and view :: "'w \<Rightarrow> place \<Rightarrow> entry"
    and whole :: "'fd \<Rightarrow> bytes"
  assumes map_open: "plain_path p \<Longrightarrow> view w (resolve p) = Regular bs \<Longrightarrow>
      \<exists>fd w'. sys_open sys p O_RDONLY w = (Inr fd, w') \<and> whole fd = bs \<and> view w' = view w"
    and map_size: "\<exists>sb. sys_fstat sys fd w = Inr sb \<and> st_size sb = length (whole fd)"
    and map_part: "off + n \<le> length (whole fd) \<Longrightarrow>
      \<exists>w'. sys_mmap sys fd off n w = (Inr (take n (drop off (whole fd))), w') \<and> view w' = view w"
    and map_unmap: "\<exists>w'. sys_munmap sys n w = (Inr (), w') \<and> view w' = view w"
    and map_close: "\<exists>w'. sys_close sys fd w = (Inr (), w') \<and> view w' = view w"
begin

lemma mmap_loop_ok:
  assumes "sha1_fits (whole fd)" "n \<le> length (whole fd)" "absorbed (take n (whole fd)) ho"
  shows "\<exists>ho' w'. mmap_loop sys p fd (length (whole fd)) n ho w = (Inr (), ho', w') \<and>
    absorbed (whole fd) ho' \<and> view w' = view w"
  using assms(2,3)
proof (induction "length (whole fd) - n" arbitrary: n ho w rule: less_induct)
  case less
  note unf = mmap_loop.simps [of sys p fd "length (whole fd)" n ho w]
  show ?case
  proof (cases "n < length (whole fd)")
    case False
    then show ?thesis using less.prems unf by simp
  next
    case True
    define sz where "sz = (if length (whole fd) - n > MAXMAP then MAXMAP else length (whole fd) - n)"
    have sz: "0 < sz" "n + sz \<le> length (whole fd)" "sz < 2 ^ 32"
      using True by (auto simp: sz_def MAXMAP_def)
    define m where "m = take sz (drop n (whole fd))"
    have m: "take n (whole fd) @ m = take (n + sz) (whole fd)" "length m = sz"
      using sz(2) by (simp_all add: m_def take_add)
    obtain w1 where w1: "sys_mmap sys fd n sz w = (Inr m, w1)" "view w1 = view w"
      using map_part [OF sz(2)] m_def by blast
    have "sha1_fits (take n (whole fd) @ m)" using assms(1) by (simp add: m(1) sha1_fits_def)
    then obtain h1 where h1: "Hash_write m ho = (Inr (), h1)" "absorbed (take (n + sz) (whole fd)) h1"
      using sha.write_law [OF less.prems(2), of m] m sz(3) by auto
    obtain w2 where w2: "sys_munmap sys sz w1 = (Inr (), w2)" "view w2 = view w1"
      using map_unmap by blast
    have "mmap_loop sys p fd (length (whole fd)) n ho w = mmap_loop sys p fd (length (whole fd)) (n + sz) h1 w2"
      using True w1(1) h1(1) w2(1) by (subst unf) (simp add: Let_def sz_def [symmetric])
    then show ?thesis
      using less.hyps [of "n + sz" h1 w2] sz h1(2) w1(2) w2(2) True by auto
  qed
qed

lemma hashfile_mmap_ok:
  assumes "plain_path p" "view w (resolve p) = Regular bs" "sha1_fits bs" "absorbed [] ho"
  shows "\<exists>ho' w'. hashfile_mmap sys p ho w = (Inr ho', w') \<and> absorbed bs ho' \<and> view w' = view w"
proof -
  obtain fd w1 where fd: "sys_open sys p O_RDONLY w = (Inr fd, w1)" "whole fd = bs" "view w1 = view w"
    using map_open [OF assms(1,2)] by blast
  obtain sb where sb: "sys_fstat sys fd w1 = Inr sb" "st_size sb = length (whole fd)"
    using map_size by blast
  obtain ho' w2 where l: "mmap_loop sys p fd (length (whole fd)) 0 ho w1 = (Inr (), ho', w2)"
      "absorbed (whole fd) ho'" "view w2 = view w1"
    using mmap_loop_ok [of fd 0 ho p w1] assms(3,4) fd(2) by auto
  obtain w3 where "sys_close sys fd w2 = (Inr (), w3)" "view w3 = view w2" using map_close by blast
  then show ?thesis
    using fd sb l assms(1) by (auto simp: hashfile_mmap_def)
qed

lemma hashfile_mapped:
  assumes "plain_path p" "view (world s) (resolve p) = Regular bs" "sha1_fits bs"
    "length (Message_Block ho) = 64" "fs_local fs"
  shows "\<exists>w'. hashfile sys fs ho garbage p True s =
      (Inr (sha1 bs), s\<lparr>world := w', hash_mmap := hash_mmap s + 1\<rparr>) \<and> view w' = view (world s)"
proof -
  obtain h0 where h0: "Hash_init ho = (Inr (), h0)" "absorbed [] h0"
    using Hash_init_absorbed [OF assms(4)] by blast
  obtain h1 w' where h1: "hashfile_mmap sys p h0 (world s) = (Inr h1, w')" "absorbed bs h1"
      "view w' = view (world s)"
    using hashfile_mmap_ok [OF assms(1-3) h0(2)] by blast
  obtain h2 where "Hash_value h1 = (Inr (sha1 bs), h2)" using sha.value_law [OF h1(2)] by blast
  then have "hashfile sys fs ho garbage p True s =
      (Inr (sha1 bs), s\<lparr>world := w', hash_mmap := hash_mmap s + 1\<rparr>)"
    using h0(1) h1(1) assms(5) by (auto simp: hashfile_def in_world_def andThen_def)
  then show ?thesis using h1(3) by blast
qed

end

end
