(* ===== verification/Hex.thy ===== *)
theory Hex
  imports Prelude
begin

unbundle bit_operations_syntax

text \<open>
  Hexadecimal text, from utils.cc: the digit lookup table, encoding and decoding of byte strings,
  decoding of a file hash, and the path of a hash inside the repository.
\<close>

section \<open>Definitions\<close>

definition hexdigits :: string where
  "hexdigits = ''0123456789abcdef''"

text \<open>The 256 entries of the table \<open>lookup\<close> of \<open>hexdigit\<close>, in its order.\<close>

definition hexdigit_lookup :: "int list" where
  "hexdigit_lookup =
     replicate 48 (-1) @ [0, 1, 2, 3, 4, 5, 6, 7, 8, 9] @ replicate 7 (-1) @
     [10, 11, 12, 13, 14, 15] @ replicate 26 (-1) @ [10, 11, 12, 13, 14, 15] @ replicate 153 (-1)"

definition hexdigit :: "char \<Rightarrow> exn + nat" where
  "hexdigit c =
     (let decoded = hexdigit_lookup ! of_char c
      in if 0 \<le> decoded then Inr (nat decoded) else Inl BadHexDigit)"

text \<open>The two digits of one byte, as \<open>hexencode\<close>, \<open>urlencode\<close> and \<open>%02x\<close> write them.\<close>

definition hexpair_of :: "byte \<Rightarrow> string" where
  "hexpair_of b = [hexdigits ! unat (drop_bit 4 b), hexdigits ! unat (b AND 0x0F)]"

fun hexencode :: "bytes \<Rightarrow> string" where
  "hexencode [] = []"
| "hexencode (b # h) = hexpair_of b @ hexencode h"

text \<open>
  The loop of \<open>hexdecode\<close> reads two digits for each of the \<open>n\<close> bytes still to come and
  appends the byte to \<open>bytes\<close>.
\<close>

fun hexdecode_loop :: "nat \<Rightarrow> string \<Rightarrow> string \<Rightarrow> exn + string" where
  "hexdecode_loop (Suc n) (x # y # rest) bytes =
     (case hexdigit x of
        Inl e \<Rightarrow> Inl e
      | Inr d \<Rightarrow>
          let a = d * 16
          in (case hexdigit y of
                Inl e \<Rightarrow> Inl e
              | Inr d' \<Rightarrow> hexdecode_loop n rest (bytes @ [char_of (a + d')])))"
| "hexdecode_loop _ _ bytes = Inr bytes"

definition hexdecode :: "string \<Rightarrow> string \<Rightarrow> ('z diag_scheme, string) prog" where
  "hexdecode hex bytes =
     rethrowing
       (\<lambda>d. (if length hex mod 2 \<noteq> 0 then Inl (BadHex hex)
             else hexdecode_loop (length hex div 2) hex bytes, d))
       (error (''invalid hex string: '' @ c_str hex))"

definition HASH_SIZE :: nat where
  "HASH_SIZE = 20"

definition hashdecode :: "string \<Rightarrow> ('z diag_scheme, bytes) prog" where
  "hashdecode hex d =
     (if length hex \<noteq> 40 then (Inl (BadHex hex), d)
      else andThen (hexdecode hex []) (\<lambda>s. ret (take HASH_SIZE (bytes_of_string s))) d)"

definition DEPTH :: nat where
  "DEPTH = 2"

definition hashpath :: "bytes \<Rightarrow> string" where
  "hashpath h =
     concat (map (\<lambda>n. hexpair_of (h ! n) @ ''/'') [0..<DEPTH]) @
     concat (map (\<lambda>n. hexpair_of (h ! n)) [0..<HASH_SIZE])"

section \<open>Digits\<close>

text \<open>The digit characters, in both cases, with their values.\<close>

definition hex_value :: "char \<Rightarrow> nat option" where
  "hex_value c =
     (let n = of_char c :: nat
      in if 48 \<le> n \<and> n \<le> 57 then Some (n - 48)
         else if 65 \<le> n \<and> n \<le> 70 then Some (n - 55)
         else if 97 \<le> n \<and> n \<le> 102 then Some (n - 87)
         else None)"

lemma hexdigit_lookup_nth:
  "n < 256 \<Longrightarrow> hexdigit_lookup ! n =
     (if 48 \<le> n \<and> n \<le> 57 then int n - 48
      else if 65 \<le> n \<and> n \<le> 70 then int n - 55
      else if 97 \<le> n \<and> n \<le> 102 then int n - 87
      else -1)"
proof -
  have "\<forall>n \<in> set [0..<256]. hexdigit_lookup ! n =
     (if 48 \<le> n \<and> n \<le> 57 then int n - 48
      else if 65 \<le> n \<and> n \<le> 70 then int n - 55
      else if 97 \<le> n \<and> n \<le> 102 then int n - 87
      else -1)"
    by code_simp
  then show "n < 256 \<Longrightarrow> ?thesis" by simp
qed

lemma hexdigit_eq:
  "hexdigit c = (case hex_value c of None \<Rightarrow> Inl BadHexDigit | Some v \<Rightarrow> Inr v)"
  by (auto simp: hexdigit_def hex_value_def hexdigit_lookup_nth Let_def)

lemma hex_value_less: "hex_value c = Some v \<Longrightarrow> v < 16"
  by (auto simp: hex_value_def Let_def split: if_splits)

lemma hexdigit_Inr: "hexdigit c = Inr v \<longleftrightarrow> hex_value c = Some v"
  by (simp add: hexdigit_eq split: option.split)

lemma hexdigit_Inl: "hexdigit c = Inl e \<longleftrightarrow> e = BadHexDigit \<and> hex_value c = None"
  by (auto simp: hexdigit_eq split: option.split)

lemma hex_value_hexdigits [simp]: "n < 16 \<Longrightarrow> hex_value (hexdigits ! n) = Some n"
proof -
  have "\<forall>n \<in> set [0..<16]. hex_value (hexdigits ! n) = Some n"
    by code_simp
  then show "n < 16 \<Longrightarrow> ?thesis" by simp
qed

lemma hexdigits_alphabet: "n < 16 \<Longrightarrow> hexdigits ! n \<in> set hexdigits"
  by (rule nth_mem) (simp add: hexdigits_def)

lemma byte_nibbles:
  fixes b :: byte
  shows "unat (drop_bit 4 b) < 16" "unat (b AND 0x0F) < 16"
    "unat (drop_bit 4 b) * 16 + unat (b AND 0x0F) = unat b"
proof -
  have h: "unat (drop_bit 4 b) = unat b div 16"
    by (simp only: unat_drop_bit_eq) (simp add: drop_bit_eq_div)
  have "b AND 0x0F = take_bit 4 b"
    by (simp add: take_bit_eq_mask mask_eq_exp_minus_1)
  then have l: "unat (b AND 0x0F) = unat b mod 16"
    by (simp only: unsigned_take_bit_eq) (simp add: take_bit_eq_mod)
  show "unat (drop_bit 4 b) < 16" "unat (b AND 0x0F) < 16"
    "unat (drop_bit 4 b) * 16 + unat (b AND 0x0F) = unat b"
    by (auto simp: h l less_mult_imp_div_less)
qed

lemma length_hexpair_of [simp]: "length (hexpair_of b) = 2"
  by (simp add: hexpair_of_def)

lemma hexpair_of_alphabet: "set (hexpair_of b) \<subseteq> set hexdigits"
  using byte_nibbles [of b] by (auto simp: hexpair_of_def intro: hexdigits_alphabet)


section \<open>Encoding and decoding\<close>

lemma length_hexencode [simp]: "length (hexencode h) = 2 * length h"
  by (induction h) auto

lemma hexencode_append [simp]: "hexencode (g @ h) = hexencode g @ hexencode h"
  by (induction g) auto

lemma hexencode_alphabet: "set (hexencode h) \<subseteq> set hexdigits"
  using hexpair_of_alphabet by (induction h) auto

lemma hexencode_eq_concat: "hexencode h = concat (map hexpair_of h)"
  by (induction h) auto

lemma hexdecode_loop_hexencode:
  "hexdecode_loop (length h) (hexencode h @ rest) bytes = Inr (bytes @ string_of_bytes h)"
proof (induction h arbitrary: bytes)
  case (Cons b h)
  have "char_of (unat (drop_bit 4 b) * 16 + unat (b AND 0x0F)) = char_of_byte b"
    by (simp only: byte_nibbles(3) char_of_byte_def)
  with Cons show ?case
    by (simp add: hexpair_of_def hexdigit_eq byte_nibbles(1,2))
qed simp

lemma hexdecode_hexencode: "hexdecode (hexencode h) [] d = (Inr (string_of_bytes h), d)"
  using hexdecode_loop_hexencode [of h "[]" "[]"]
  by (simp add: hexdecode_def rethrowing_def)

text \<open>
  What the loop accepts: all the digits must be valid, and then the text it read is the lower
  case encoding of the result, up to the case of the digits.
\<close>

definition to_lower :: "char \<Rightarrow> char" where
  "to_lower c = (if 65 \<le> (of_char c :: nat) \<and> (of_char c :: nat) \<le> 90
                 then char_of ((of_char c :: nat) + 32) else c)"

lemma of_char_hexdigits:
  "v < 16 \<Longrightarrow> (of_char (hexdigits ! v) :: nat) = (if v < 10 then v + 48 else v + 87)"
proof -
  have "\<forall>v \<in> set [0..<16]. (of_char (hexdigits ! v) :: nat) = (if v < 10 then v + 48 else v + 87)"
    by code_simp
  then show "v < 16 \<Longrightarrow> ?thesis" by simp
qed

lemma hexdigits_hex_value:
  assumes "hex_value c = Some v"
  shows "hexdigits ! v = to_lower c"
proof -
  have "(of_char (hexdigits ! v) :: nat) = of_char (to_lower c)"
    using assms hex_value_less [OF assms]
    by (auto simp: of_char_hexdigits hex_value_def to_lower_def Let_def split: if_splits)
  then show ?thesis by simp
qed

lemma nibbles_unique:
  "x * 16 + y = d * 16 + d' \<Longrightarrow> y < 16 \<Longrightarrow> d' < 16 \<Longrightarrow> x = d \<and> y = (d' :: nat)"
  by arith

lemma hexpair_of_nibbles:
  assumes "d < 16" "d' < 16"
  shows "hexpair_of (byte_of_char (char_of (d * 16 + d'))) = [hexdigits ! d, hexdigits ! d']"
proof -
  let ?b = "byte_of_char (char_of (d * 16 + d'))"
  have "unat ?b = d * 16 + d'" using assms by simp
  then have "unat (drop_bit 4 ?b) * 16 + unat (?b AND 0x0F) = d * 16 + d'"
    by (simp only: byte_nibbles(3))
  then have "unat (drop_bit 4 ?b) = d \<and> unat (?b AND 0x0F) = d'"
    using byte_nibbles(2) assms(2) by (rule nibbles_unique)
  then show ?thesis by (simp add: hexpair_of_def)
qed

lemma hexdecode_loop_Inr:
  assumes "hexdecode_loop n hex bytes = Inr r" "length hex = 2 * n"
  obtains h where "r = bytes @ string_of_bytes h" "length h = n" "hexencode h = map to_lower hex"
  using assms
proof (induction n hex bytes arbitrary: thesis rule: hexdecode_loop.induct)
  case (1 n x y rest bytes)
  from "1.prems"(2) obtain d d' where d: "hex_value x = Some d" "hex_value y = Some d'"
    and rec: "hexdecode_loop n rest (bytes @ [char_of (d * 16 + d')]) = Inr r"
    by (auto simp: hexdigit_eq split: sum.splits option.splits)
  obtain h where h: "r = (bytes @ [char_of (d * 16 + d')]) @ string_of_bytes h"
      "length h = n" "hexencode h = map to_lower rest"
    using "1.IH" [of d "d * 16" d'] rec d "1.prems"(3) by (auto simp: hexdigit_Inr)
  let ?b = "byte_of_char (char_of (d * 16 + d'))"
  show ?case
  proof (rule "1.prems"(1))
    show "r = bytes @ string_of_bytes (?b # h)" "length (?b # h) = Suc n"
      using h by simp_all
    have "hexpair_of ?b = [to_lower x, to_lower y]"
      using hexpair_of_nibbles [of d d'] d hex_value_less [OF d(1)] hex_value_less [OF d(2)]
      by (simp add: hexdigits_hex_value)
    then show "hexencode (?b # h) = map to_lower (x # y # rest)"
      using h(3) by simp
  qed
qed auto

lemma hexdecode_loop_fails:
  "length hex = 2 * n \<Longrightarrow>
     (\<exists>e. hexdecode_loop n hex bytes = Inl e) \<longleftrightarrow> (\<exists>c \<in> set hex. hex_value c = None)"
proof (induction n hex bytes rule: hexdecode_loop.induct)
  case (1 n x y rest bytes)
  show ?case
  proof (cases "hex_value x")
    case None
    then show ?thesis by (auto simp: hexdigit_eq)
  next
    case (Some d)
    show ?thesis
    proof (cases "hex_value y")
      case None
      then show ?thesis using Some by (auto simp: hexdigit_eq)
    next
      case (Some d')
      with \<open>hex_value x = Some d\<close> show ?thesis
        using "1.IH" [of d "d * 16" d'] "1.prems" by (simp add: hexdigit_eq)
    qed
  qed
qed auto

lemma hexdecode_loop_Inl: "hexdecode_loop n hex bytes = Inl e \<Longrightarrow> e = BadHexDigit"
  by (induction n hex bytes rule: hexdecode_loop.induct)
    (auto simp: hexdigit_Inl Let_def split: sum.splits)

section \<open>Hashes\<close>

lemma hexdecode_total:
  "length hex = 40 \<Longrightarrow> \<forall>c \<in> set hex. hex_value c \<noteq> None \<Longrightarrow>
     \<exists>h. hexdecode hex [] d = (Inr (string_of_bytes h), d) \<and> length h = 20
        \<and> hexencode h = map to_lower hex"
proof -
  assume l: "length hex = 40" and v: "\<forall>c \<in> set hex. hex_value c \<noteq> None"
  then obtain r where r: "hexdecode_loop 20 hex [] = Inr r"
    using hexdecode_loop_fails [of hex 20 "[]"] by (cases "hexdecode_loop 20 hex []") auto
  with l obtain h where "r = string_of_bytes h" "length h = 20" "hexencode h = map to_lower hex"
    by (auto elim: hexdecode_loop_Inr)
  with l r show ?thesis by (auto simp: hexdecode_def rethrowing_def)
qed

lemma hashdecode_hexencode [simp]:
  "length h = HASH_SIZE \<Longrightarrow> hashdecode (hexencode h) d = (Inr h, d)"
  by (simp add: hashdecode_def hexdecode_hexencode HASH_SIZE_def)

text \<open>The three outcomes of \<open>hashdecode\<close>, with what each does to the error counter.\<close>

lemma hashdecode_length: "length hex \<noteq> 40 \<Longrightarrow> hashdecode hex d = (Inl (BadHex hex), d)"
  by (simp add: hashdecode_def)

lemma hashdecode_bad_digit:
  assumes "length hex = 40" "\<exists>c \<in> set hex. hex_value c = None"
  shows "hashdecode hex d = (Inl BadHexDigit, error (''invalid hex string: '' @ c_str hex) d)"
proof -
  obtain e where "hexdecode_loop 20 hex [] = Inl e"
    using assms hexdecode_loop_fails [of hex 20 "[]"] by auto
  then show ?thesis
    using assms(1) by (auto simp: hashdecode_def hexdecode_def rethrowing_def andThen_def
        dest: hexdecode_loop_Inl)
qed

lemma hashdecode_good:
  assumes "length hex = 40" "\<forall>c \<in> set hex. hex_value c \<noteq> None"
  obtains h where "hashdecode hex d = (Inr h, d)" "length h = HASH_SIZE"
    "hexencode h = map to_lower hex"
  using hexdecode_total [OF assms, of d] assms(1)
  by (auto simp: hashdecode_def HASH_SIZE_def)

lemma hashdecode_Inr:
  assumes "hashdecode hex d = (Inr h, d')"
  shows "d' = d" "length h = HASH_SIZE" "hexencode h = map to_lower hex" "length hex = 40"
proof -
  have l: "length hex = 40"
    using assms by (cases "length hex = 40") (auto simp: hashdecode_length)
  have v: "\<forall>c \<in> set hex. hex_value c \<noteq> None"
    using assms hashdecode_bad_digit [OF l, of d] by fastforce
  obtain g where "hashdecode hex d = (Inr g, d)" "length g = HASH_SIZE"
      "hexencode g = map to_lower hex"
    using l v by (rule hashdecode_good)
  with assms l show "d' = d" "length h = HASH_SIZE" "hexencode h = map to_lower hex" "length hex = 40"
    by simp_all
qed

definition hash_of_text :: "string \<Rightarrow> bytes option" where
  "hash_of_text hex = value_of (hashdecode hex \<lparr>errors = 0, warnings = 0, stderr_lines = []\<rparr>)"

interpretation hex: codec hexencode hash_of_text "\<lambda>h. length h = HASH_SIZE"
  by unfold_locales (simp add: hash_of_text_def)

text \<open>Decoding does not depend on the state it runs in.\<close>

lemma hash_of_text_Some:
  assumes "hash_of_text t = Some h"
  shows "hashdecode t s = (Inr h, s)" "length h = HASH_SIZE"
proof -
  let ?d = "\<lparr>errors = 0, warnings = 0, stderr_lines = []\<rparr>"
  obtain d' where r: "hashdecode t ?d = (Inr h, d')"
    using assms by (cases "hashdecode t ?d" rule: prod.exhaust; cases "fst (hashdecode t ?d)")
      (auto simp: hash_of_text_def)
  note h = hashdecode_Inr [OF r]
  have "\<forall>c \<in> set t. hex_value c \<noteq> None"
    using r hashdecode_bad_digit [OF h(4), of ?d] by fastforce
  then obtain g where g: "hashdecode t s = (Inr g, s)" "length g = HASH_SIZE" "hexencode g = map to_lower t"
    using hashdecode_good [OF h(4)] by metis
  then show "hashdecode t s = (Inr h, s)" using h hex.encode_eq_iff by metis
  show "length h = HASH_SIZE" by (rule h(2))
qed

lemma hash_of_text_None:
  assumes "hash_of_text t = None"
  obtains e s' where "hashdecode t s = (Inl e, s')" "e = BadHex t \<or> e = BadHexDigit" "noted s s'"
proof -
  let ?d = "\<lparr>errors = 0, warnings = 0, stderr_lines = []\<rparr>"
  consider "length t \<noteq> 40" | "length t = 40" "\<exists>c \<in> set t. hex_value c = None"
    | "length t = 40" "\<forall>c \<in> set t. hex_value c \<noteq> None"
    by metis
  then show ?thesis
  proof cases
    case 1
    show ?thesis by (rule that [OF hashdecode_length [OF 1]]) simp_all
  next
    case 2
    show ?thesis by (rule that [OF hashdecode_bad_digit [OF 2]]) simp_all
  next
    case 3
    then obtain h where "hashdecode t ?d = (Inr h, ?d)" by (rule hashdecode_good)
    then show ?thesis using assms by (simp add: hash_of_text_def)
  qed
qed

lemma hashpath_eq:
  assumes "length h = HASH_SIZE"
  shows "hashpath h = hexpair_of (h ! 0) @ ''/'' @ hexpair_of (h ! 1) @ ''/'' @ hexencode h"
proof -
  have "map (\<lambda>n. hexpair_of (h ! n)) [0..<HASH_SIZE] = map hexpair_of h"
    using assms by (auto intro: nth_equalityI)
  then show ?thesis
    by (simp add: hashpath_def DEPTH_def hexencode_eq_concat numeral_2_eq_2)
qed

lemma hashpath_drop:
  "length h = HASH_SIZE \<Longrightarrow> drop 6 (hashpath h) = hexencode h"
  by (simp add: hashpath_eq hexpair_of_def)

lemma length_hashpath: "length h = HASH_SIZE \<Longrightarrow> length (hashpath h) = 46"
  by (simp add: hashpath_eq) (simp add: HASH_SIZE_def)

interpretation repo_path: codec hashpath "\<lambda>p. hash_of_text (drop 6 p)" "\<lambda>h. length h = HASH_SIZE"
  by unfold_locales (simp add: hashpath_drop hex.decode_encode)

text \<open>The buffer of \<open>hashpath\<close> holds the path and its terminating NUL exactly.\<close>

lemma hashpath_fits_buffer:
  "length h = HASH_SIZE \<Longrightarrow> length (hashpath h) + 1 = 3 * DEPTH + 2 * HASH_SIZE + 1"
  by (simp add: length_hashpath DEPTH_def) (simp add: HASH_SIZE_def)

end
