(* ===== verification/Repository.thy ===== *)
theory Repository
  imports Hex Globals
begin

text \<open>
  Where the repository keeps the file with a given hash: the path that backup, restore and verify
  build, and its components. Different hashes have different places.
\<close>

definition hash_file :: "options \<Rightarrow> bytes \<Rightarrow> path" where
  "hash_file opts h = repo opts @ ''/'' @ HASH_NAME @ ''/'' @ hashpath h"

section \<open>Components of composed paths\<close>

lemma foldl_scan_from:
  "foldl scan_char (cs, cur) q = (case foldl scan_char ([], cur) q of (ds, cur') \<Rightarrow> (cs @ ds, cur'))"
proof (induction q arbitrary: cs cur)
  case (Cons c q)
  show ?case
  proof (cases "c = CHR ''/'' \<and> cur \<noteq> []")
    case True
    then show ?thesis
      using Cons [of "cs @ [cur]" "[]"] Cons [of "[cur]" "[]"] by (simp split: prod.split)
  next
    case False
    then show ?thesis
      using Cons [of cs cur] Cons [of cs "cur @ [c]"] by auto
  qed
qed simp

lemma components_join: "components (p @ ''/'' @ q) = components p @ components q"
proof -
  obtain ds cur where q: "scan q = (ds, cur)" by fastforce
  have "scan (p @ ''/'' @ q) = foldl scan_char (components p, []) q"
    using scan_append [of "p @ ''/''" q] scan_slash [of p] by simp
  also have "\<dots> = (components p @ ds, cur)"
    using foldl_scan_from [of "components p" "[]" q] q by (simp add: scan_def)
  finally show ?thesis unfolding components_def [of "p @ ''/'' @ q"] components_def [of q] q by simp
qed

lemma components_word: "q \<noteq> [] \<Longrightarrow> CHR ''/'' \<notin> set q \<Longrightarrow> components q = [q]"
proof -
  have "CHR ''/'' \<notin> set q \<Longrightarrow> foldl scan_char ([], cur) q = ([], cur @ q)" for cur
    by (induction q arbitrary: cur) auto
  then show "q \<noteq> [] \<Longrightarrow> CHR ''/'' \<notin> set q \<Longrightarrow> components q = [q]"
    by (simp add: components_def scan_def)
qed

text \<open>A plain path extended by a name.\<close>

lemma plain_extend:
  assumes "plain_path p" "q \<noteq> []" "CHR ''/'' \<notin> set q" "CHR 0x00 \<notin> set q" "q \<noteq> ''.''" "q \<noteq> ''..''"
  shows "plain_path (p @ ''/'' @ q)" "resolve (p @ ''/'' @ q) = (fst (resolve p), snd (resolve p) @ [q])"
proof -
  have c: "components (p @ ''/'' @ q) = components p @ [q]"
    using components_join components_word assms by simp
  show "plain_path (p @ ''/'' @ q)" using assms c by (auto simp: plain_path_def)
  show "resolve (p @ ''/'' @ q) = (fst (resolve p), snd (resolve p) @ [q])"
    using assms(1) c by (cases p) (auto simp: resolve_def plain_path_def)
qed

section \<open>The place of a hash\<close>

definition hash_place :: "options \<Rightarrow> bytes \<Rightarrow> place" where
  "hash_place opts h =
     (case resolve (repo opts) of (absolute, cs) \<Rightarrow>
        (absolute, cs @ [HASH_NAME, hexpair_of (h ! 0), hexpair_of (h ! 1), hexencode h]))"

lemma hexdigits_plain: "c \<in> set hexdigits \<Longrightarrow> c \<noteq> CHR ''/'' \<and> c \<noteq> CHR 0x00 \<and> c \<noteq> CHR ''.''"
  by (auto simp: hexdigits_def)

lemma hex_plain:
  assumes "set q \<subseteq> set hexdigits"
  shows "CHR ''/'' \<notin> set q" "CHR 0x00 \<notin> set q" "q \<noteq> ''.''" "q \<noteq> ''..''"
  using assms hexdigits_plain [of "CHR ''/''"] hexdigits_plain [of "CHR 0x00"] hexdigits_plain [of "CHR ''.''"]
  by auto

lemma hexencode_nonempty: "length h = HASH_SIZE \<Longrightarrow> hexencode h \<noteq> []"
  using length_hexencode [of h] by (cases "hexencode h") (auto simp: HASH_SIZE_def)

text \<open>The directory of the file, and a name in it.\<close>

lemma hash_dir_place:
  assumes "plain_path (repo opts)" "length h = HASH_SIZE"
  shows "\<exists>p. plain_path p \<and> hash_file opts h = p @ ''/'' @ hexencode h \<and>
    resolve p = (fst (hash_place opts h), butlast (snd (hash_place opts h)))"
proof -
  have name: "HASH_NAME \<noteq> []" "CHR ''/'' \<notin> set HASH_NAME" "CHR 0x00 \<notin> set HASH_NAME"
      "HASH_NAME \<noteq> ''.''" "HASH_NAME \<noteq> ''..''"
    by (simp_all add: HASH_NAME_def)
  note p1 = plain_extend [OF assms(1) name]
  have ne: "hexpair_of b \<noteq> []" for b using length_hexpair_of [of b] by fastforce
  note p2 = plain_extend [OF p1(1) ne hex_plain [OF hexpair_of_alphabet], of "h ! 0"]
  note p3 = plain_extend [OF p2(1) ne hex_plain [OF hexpair_of_alphabet], of "h ! 1"]
  have "hash_file opts h = (((repo opts @ ''/'' @ HASH_NAME) @ ''/'' @ hexpair_of (h ! 0)) @ ''/'' @
      hexpair_of (h ! 1)) @ ''/'' @ hexencode h"
    using hashpath_eq [of h] assms(2) by (simp add: hash_file_def)
  moreover have "resolve (((repo opts @ ''/'' @ HASH_NAME) @ ''/'' @ hexpair_of (h ! 0)) @ ''/'' @ hexpair_of (h ! 1)) =
      (fst (hash_place opts h), butlast (snd (hash_place opts h)))"
    unfolding p3(2) p2(2) p1(2) by (simp add: hash_place_def butlast_append split: prod.split)
  ultimately show ?thesis using p3(1) by blast
qed

lemma hash_file_place:
  assumes "plain_path (repo opts)" "length h = HASH_SIZE"
  shows "plain_path (hash_file opts h)" "resolve (hash_file opts h) = hash_place opts h"
proof -
  obtain p where p: "plain_path p" "hash_file opts h = p @ ''/'' @ hexencode h"
      "resolve p = (fst (hash_place opts h), butlast (snd (hash_place opts h)))"
    using hash_dir_place [OF assms] by blast
  note e = plain_extend [OF p(1) hexencode_nonempty [OF assms(2)] hex_plain [OF hexencode_alphabet]]
  have "last (snd (hash_place opts h)) = hexencode h" "snd (hash_place opts h) \<noteq> []"
    by (simp_all add: hash_place_def split: prod.split)
  then have "hash_place opts h = (fst (hash_place opts h), butlast (snd (hash_place opts h)) @ [hexencode h])"
    by (metis append_butlast_last_id prod.collapse)
  then show "resolve (hash_file opts h) = hash_place opts h" "plain_path (hash_file opts h)"
    using e p(2,3) by simp_all
qed

lemma hash_place_inj:
  assumes "hash_place opts g = hash_place opts h" "length g = HASH_SIZE" "length h = HASH_SIZE"
  shows "g = h"
proof -
  have "hexencode g = hexencode h" using assms(1) by (auto simp: hash_place_def split: prod.splits)
  then show ?thesis using hex.encode_eq_iff assms(2,3) by blast
qed

end
