(* ===== verification/Urlcode.thy ===== *)
theory Urlcode
  imports Hex
begin

unbundle bit_operations_syntax

text \<open>
  The URL encoding of names and values in index files (\<open>urlencode\<close> and \<open>urldecode\<close> of
  utils.cc), a list-based reference decoder, and the proof that the position-based decoder of the
  code implements it.
\<close>

section \<open>Definitions\<close>

text \<open>
  One iteration of the loop of \<open>urlencode\<close>: a space, the characters of the case labels
  inside the default branch together with the unprintable ones, and every other character.
\<close>

definition urlencode_char :: "char \<Rightarrow> string" where
  "urlencode_char c =
     (if c = CHR '' '' then ''+''
      else if (of_char c :: nat) < 32 \<or> 126 < (of_char c :: nat) \<or> c \<in> set ''+%&=;''
      then CHR ''%'' # hexpair_of (byte_of_char c)
      else [c])"

definition urlencode :: "string \<Rightarrow> string" where
  "urlencode s = concat (map urlencode_char s)"

text \<open>
  The loop of \<open>urldecode\<close> over positions \<open>n < limit\<close>. \<open>fin\<close> is the argument
  \<open>end\<close>, with \<open>None\<close> for \<open>string::npos\<close>; the test \<open>n + 2 < end\<close> is
  always true for \<open>npos\<close>, the largest \<open>size_t\<close>. The operands of
  \<open>16 * hexdigit(s[n + 1]) + hexdigit(s[n + 2])\<close> are evaluated from left to right.
\<close>

definition hexpair_at :: "string \<Rightarrow> nat \<Rightarrow> exn + char" where
  "hexpair_at s n =
     (case hexdigit (char_at s (n + 1)) of
        Inl e \<Rightarrow> Inl e
      | Inr a \<Rightarrow>
          (case hexdigit (char_at s (n + 2)) of
             Inl e \<Rightarrow> Inl e
           | Inr b \<Rightarrow> Inr (char_of (16 * a + b))))"

function urldecode_loop :: "string \<Rightarrow> nat option \<Rightarrow> nat \<Rightarrow> nat \<Rightarrow> string \<Rightarrow> exn + string" where
  "urldecode_loop s fin limit n r =
     (if limit \<le> n then Inr r
      else if char_at s n = CHR ''+'' then urldecode_loop s fin limit (n + 1) (r @ '' '')
      else if char_at s n = CHR ''%'' then
        (if (case fin of None \<Rightarrow> True | Some e \<Rightarrow> n + 2 < e)
         then (case hexpair_at s n of
                 Inl e \<Rightarrow> Inl e
               | Inr c \<Rightarrow> urldecode_loop s fin limit (n + 3) (r @ [c]))
         else Inl (BadHex (substr s n (limit - n))))
      else urldecode_loop s fin limit (n + 1) (r @ [char_at s n]))"
  by pat_completeness auto
termination
  by (relation "measure (\<lambda>(s, fin, limit, n, r). limit - n)") auto

declare urldecode_loop.simps [simp del]

definition urldecode :: "string \<Rightarrow> nat \<Rightarrow> nat option \<Rightarrow> ('z diag_scheme, string) prog" where
  "urldecode s start fin =
     rethrowing
       (\<lambda>d. (urldecode_loop s fin (case fin of None \<Rightarrow> length s | Some e \<Rightarrow> e) start [], d))
       (error (''invalid URL-encoded string: '' @ c_str s))"

section \<open>The reference decoder\<close>

text \<open>The format, on a list of characters: \<open>None\<close> for an escape that is not two digits.\<close>

fun urldecode_ref :: "string \<Rightarrow> string option" where
  "urldecode_ref [] = Some []"
| "urldecode_ref (c # cs) =
     (if c = CHR ''+'' then map_option ((#) (CHR '' '')) (urldecode_ref cs)
      else if c = CHR ''%'' then
        (case cs of
           x # y # rest \<Rightarrow>
             (case (hex_value x, hex_value y) of
                (Some a, Some b) \<Rightarrow> map_option ((#) (char_of (16 * a + b))) (urldecode_ref rest)
              | _ \<Rightarrow> None)
         | _ \<Rightarrow> None)
      else map_option ((#) c) (urldecode_ref cs))"

text \<open>
  Where the code reads: the second digit is read only after the first was a digit, so the position
  of every character it looks at is at most the size of the string.
\<close>

lemma hex_value_NUL [simp]: "hex_value (CHR 0x00) = None"
  by (simp add: hex_value_def)

lemma hexpair_in_bounds:
  "n < length s \<Longrightarrow> hexdigit (char_at s (n + 1)) = Inr a \<Longrightarrow> n + 2 \<le> length s"
  by (cases "n + 1 < length s") (auto simp: char_at_def hexdigit_Inr)

lemma hexpair_at_Inr:
  "hexpair_at s n = Inr c \<longleftrightarrow>
     (\<exists>a b. n + 2 < length s \<and> hex_value (s ! (n + 1)) = Some a \<and> hex_value (s ! (n + 2)) = Some b
        \<and> c = char_of (16 * a + b))"
  by (auto simp: hexpair_at_def hexdigit_eq char_at_def split: option.splits if_splits)

lemma hexpair_at_Inl: "hexpair_at s n = Inl e \<Longrightarrow> e = BadHexDigit"
  by (auto simp: hexpair_at_def hexdigit_Inl split: sum.splits)

section \<open>The code implements the reference decoder\<close>

lemma segment_Cons:
  "n < limit \<Longrightarrow> limit \<le> length s \<Longrightarrow>
     take (limit - n) (drop n s) = s ! n # take (limit - Suc n) (drop (Suc n) s)"
  by (simp add: Suc_diff_Suc Cons_nth_drop_Suc [symmetric] take_Cons')

lemma segment_escape:
  assumes "n + 2 < limit" "limit \<le> length s"
  shows "take (limit - n) (drop n s) =
     s ! n # s ! (n + 1) # s ! (n + 2) # take (limit - (n + 3)) (drop (n + 3) s)"
  using assms by (simp add: segment_Cons numeral_3_eq_3)

lemma urldecode_ref_short_escape:
  "length cs < 2 \<Longrightarrow> urldecode_ref (CHR ''%'' # cs) = None"
  by (auto split: list.splits)

text \<open>
  For a segment \<open>[n, limit)\<close> inside the string, the loop returns what the reference
  decoder makes of the segment, and throws exactly where the reference fails. The two errors of
  the code are the one of a bad digit and the one of an escape cut off by the end.
\<close>

text \<open>The outcome of the loop on a segment, after \<open>r\<close>, against the reference.\<close>

definition decodes_as :: "string \<Rightarrow> string option \<Rightarrow> exn + string \<Rightarrow> bool" where
  "decodes_as r spec out \<longleftrightarrow>
     (case spec of
        Some u \<Rightarrow> out = Inr (r @ u)
      | None \<Rightarrow> \<exists>e. out = Inl e \<and> (e = BadHexDigit \<or> (\<exists>t. e = BadHex t)))"

lemma urldecode_escape_ref:
  assumes "limit = (case fin of None \<Rightarrow> length s | Some e \<Rightarrow> e)" "limit \<le> length s"
    and pos: "n < limit" and escape: "s ! n = CHR ''%''"
    and IH: "\<And>c. (case fin of None \<Rightarrow> True | Some e \<Rightarrow> n + 2 < e) \<Longrightarrow> hexpair_at s n = Inr c \<Longrightarrow>
      decodes_as (r @ [c]) (urldecode_ref (take (limit - (n + 3)) (drop (n + 3) s))) (urldecode_loop s fin limit (n + 3) (r @ [c]))"
  shows "decodes_as r (urldecode_ref (take (limit - n) (drop n s))) (urldecode_loop s fin limit n r)"
proof -
  have n: "n < limit" "n < length s" using pos assms(2) by auto
  then have at: "char_at s n = s ! n" by (simp add: char_at_def)
  let ?seg = "\<lambda>k. take (limit - k) (drop k s)"
  have seg: "?seg n = s ! n # ?seg (n + 1)" using n(1) assms(2) by (simp add: segment_Cons)
  let ?guard = "case fin of None \<Rightarrow> True | Some e \<Rightarrow> n + 2 < e"
  have unf: "urldecode_loop s fin limit n r =
      (if ?guard then (case hexpair_at s n of Inl e \<Rightarrow> Inl e
         | Inr c \<Rightarrow> urldecode_loop s fin limit (n + 3) (r @ [c]))
       else Inl (BadHex (substr s n (limit - n))))"
    using n at escape by (subst urldecode_loop.simps) simp
  show ?thesis
  proof (cases "n + 2 < limit")
    case True
    then have g: ?guard using assms(1) by (cases fin) auto
    note seg3 = segment_escape [OF True assms(2)]
    show ?thesis
    proof (cases "hexpair_at s n")
      case (Inl e)
      then have "hex_value (s ! (n + 1)) = None \<or> hex_value (s ! (n + 2)) = None"
        using True assms(2) by (auto simp: hexpair_at_def hexdigit_eq char_at_def split: option.splits)
      then show ?thesis
        using unf g Inl hexpair_at_Inl [OF Inl] escape unfolding seg3
        by (auto simp: decodes_as_def split: option.splits)
    next
      case (Inr c)
      then obtain a b where "hex_value (s ! (n + 1)) = Some a" "hex_value (s ! (n + 2)) = Some b"
          "c = char_of (16 * a + b)"
        by (auto simp: hexpair_at_Inr)
      then show ?thesis
        using unf g Inr escape IH [OF g Inr] at unfolding seg3
        by (auto simp: decodes_as_def split: option.splits)
    qed
  next
    case False
    have "length (?seg (n + 1)) < 2" using False by simp
    then have none: "urldecode_ref (?seg n) = None"
      unfolding seg escape by (rule urldecode_ref_short_escape)
    show ?thesis
    proof (cases fin)
      case None
      then obtain e where e: "hexpair_at s n = Inl e"
        using False assms(1) hexpair_at_Inr [of s n] by (cases "hexpair_at s n") auto
      then show ?thesis
        using unf None none hexpair_at_Inl [OF e] by (simp add: decodes_as_def)
    next
      case (Some e)
      then show ?thesis using unf none False assms(1) by (simp add: decodes_as_def)
    qed
  qed
qed

lemma urldecode_loop_ref:
  assumes "limit = (case fin of None \<Rightarrow> length s | Some e \<Rightarrow> e)" "limit \<le> length s"
  shows "decodes_as r (urldecode_ref (take (limit - n) (drop n s))) (urldecode_loop s fin limit n r)"
  using assms
proof (induction s fin limit n r rule: urldecode_loop.induct)
  case (1 s fin limit n r)
  note lim = "1.prems"
  show ?case
  proof (cases "limit \<le> n")
    case True
    then show ?thesis by (simp add: urldecode_loop.simps decodes_as_def)
  next
    case False
    then have n: "n < limit" "n < length s" using lim by auto
    then have at: "char_at s n = s ! n" by (simp add: char_at_def)
    let ?seg = "\<lambda>k. take (limit - k) (drop k s)"
    have seg: "?seg n = s ! n # ?seg (n + 1)" using n(1) lim(2) by (simp add: segment_Cons)
    consider (plus) "s ! n = CHR ''+''" | (escape) "s ! n = CHR ''%''"
      | (plain) "s ! n \<noteq> CHR ''+''" "s ! n \<noteq> CHR ''%''" by blast
    then show ?thesis
    proof cases
      case plus
      then have "urldecode_loop s fin limit n r = urldecode_loop s fin limit (n + 1) (r @ '' '')"
        using n at by (subst urldecode_loop.simps) simp
      moreover note "1.IH"(1) [OF False _ lim]
      ultimately show ?thesis using plus at
        unfolding seg by (auto simp: decodes_as_def split: option.splits)
    next
      case plain
      then have "urldecode_loop s fin limit n r = urldecode_loop s fin limit (n + 1) (r @ [s ! n])"
        using n at by (subst urldecode_loop.simps) simp
      moreover note "1.IH"(3) [OF False _ _ lim]
      ultimately show ?thesis using plain at
        unfolding seg by (auto simp: decodes_as_def split: option.splits)
    next
      case escape
      show ?thesis by (rule urldecode_escape_ref [OF lim n(1) escape]) (rule "1.IH"(2) [OF False _ _ _ _ lim], use escape at in simp_all)
    qed
  qed
qed

lemma urldecode_ok:
  assumes "limit = (case fin of None \<Rightarrow> length s | Some e \<Rightarrow> e)" "limit \<le> length s"
    and "urldecode_ref (take (limit - start) (drop start s)) = Some u"
  shows "urldecode s start fin d = (Inr u, d)"
  using urldecode_loop_ref [OF assms(1,2), of "[]" start] assms
  by (simp add: urldecode_def rethrowing_def decodes_as_def)

lemma urldecode_fails:
  assumes "limit = (case fin of None \<Rightarrow> length s | Some e \<Rightarrow> e)" "limit \<le> length s"
    and "urldecode_ref (take (limit - start) (drop start s)) = None"
  obtains e where "urldecode s start fin d =
      (Inl e, error (''invalid URL-encoded string: '' @ c_str s) d)"
    "e = BadHexDigit \<or> (\<exists>t. e = BadHex t)"
  using urldecode_loop_ref [OF assms(1,2), of "[]" start] assms
  by (auto simp: urldecode_def rethrowing_def decodes_as_def)

text \<open>The two forms of the calls in \<open>parseIndexLine\<close>, with the text around the segment.\<close>

lemmas urldecode_segment = urldecode_ok [where fin = "Some e" for e] urldecode_ok [where fin = None]

section \<open>The encoder\<close>

definition url_safe :: "char set" where
  "url_safe = {c. 32 < (of_char c :: nat) \<and> (of_char c :: nat) \<le> 126} - {CHR ''&'', CHR ''='', CHR '';''}"

lemma set_hexdigits_safe: "set hexdigits \<subseteq> url_safe"
  by (auto simp: hexdigits_def url_safe_def)

lemma urlencode_char_safe: "set (urlencode_char c) \<subseteq> url_safe"
proof -
  have "set (hexpair_of b) \<subseteq> url_safe" for b
    using hexpair_of_alphabet set_hexdigits_safe by blast
  moreover have "(of_char c :: nat) \<noteq> 32" if "c \<noteq> CHR '' ''"
  proof
    assume "(of_char c :: nat) = 32"
    then have "(of_char c :: nat) = of_char (CHR '' '')" by simp
    then show False using that by (simp only: of_char_eq_iff)
  qed
  ultimately show ?thesis
    by (auto simp: urlencode_char_def url_safe_def)
qed

lemma urlencode_safe: "set (urlencode s) \<subseteq> url_safe"
  using urlencode_char_safe by (auto simp: urlencode_def)

lemma urlencode_separators:
  "CHR ''&'' \<notin> set (urlencode s)" "CHR ''='' \<notin> set (urlencode s)" "CHR 0x0A \<notin> set (urlencode s)"
  "CHR 0x00 \<notin> set (urlencode s)"
  using urlencode_safe [of s] by (auto simp: url_safe_def)

lemma length_urlencode: "length (urlencode s) \<le> 3 * length s"
  by (induction s) (auto simp: urlencode_def urlencode_char_def)

lemma urlencode_Nil [simp]: "urlencode [] = []"
  by (simp add: urlencode_def)

lemma urlencode_Cons: "urlencode (c # s) = urlencode_char c @ urlencode s"
  by (simp add: urlencode_def)

lemma urldecode_ref_char:
  "urldecode_ref (urlencode_char c @ rest) = map_option ((#) c) (urldecode_ref rest)"
proof (cases "c \<noteq> CHR '' '' \<and> ((of_char c :: nat) < 32 \<or> 126 < (of_char c :: nat) \<or> c \<in> set ''+%&=;'')")
  case True
  let ?b = "byte_of_char c"
  have "char_of (16 * unat (drop_bit 4 ?b) + unat (?b AND 0x0F)) = c"
    using byte_nibbles(3) [of ?b] by (simp add: mult.commute)
  with True show ?thesis
    by (auto simp: urlencode_char_def hexpair_of_def byte_nibbles)
next
  case False
  then show ?thesis by (auto simp: urlencode_char_def)
qed

lemma urldecode_ref_urlencode: "urldecode_ref (urlencode s) = Some s"
  by (induction s) (simp_all add: urlencode_Cons urldecode_ref_char)

definition url_decoded :: "string \<Rightarrow> string option" where
  "url_decoded t = value_of (urldecode t 0 None \<lparr>errors = 0, warnings = 0, stderr_lines = []\<rparr>)"

interpretation url: codec urlencode url_decoded "\<lambda>_. True"
  by unfold_locales (simp add: url_decoded_def urldecode_ok [OF refl] urldecode_ref_urlencode)

end
