(* ===== verification/IndexLine.thy ===== *)
theory IndexLine
  imports Urlcode FileIO
begin

text \<open>
  Lines of index and hint files: \<open>parseIndexLine\<close>, \<open>readIndexLine\<close> and
  \<open>getdetail\<close> of utils.cc, the loop over an index that backup hints, restore, verify and
  cleanup share, and the proof that the position-based parser accepts exactly the format of the
  manual page: fields separated by ampersands, each a URL-encoded key, an equals sign and a
  URL-encoded value.
\<close>

section \<open>Definitions\<close>

type_synonym details = "string \<rightharpoonup> string"

text \<open>
  The do-while loop of \<open>parseIndexLine\<close>. The key of
  \<open>l[urldecode(...)] = urldecode(...)\<close> is decoded first; either failure reports the same
  message and leaves the loop.
\<close>

function parse_loop :: "string \<Rightarrow> nat \<Rightarrow> details \<Rightarrow> 'z diag_scheme \<Rightarrow> (exn + details) \<times> 'z diag_scheme" where
  "parse_loop line pos l d =
     (let sep = find_from line (CHR ''='') pos; n = find_from line (CHR ''&'') pos
      in case sep of
           None \<Rightarrow> (Inl (BadIndexFile line), d)
         | Some sep' \<Rightarrow>
             if (case n of None \<Rightarrow> False | Some n' \<Rightarrow> n' < sep') then (Inl (BadIndexFile line), d)
             else
               (case urldecode line pos (Some sep') d of
                  (Inl e, d1) \<Rightarrow> (Inl e, d1)
                | (Inr key, d1) \<Rightarrow>
                    (case urldecode line (sep' + 1) n d1 of
                       (Inl e, d2) \<Rightarrow> (Inl e, d2)
                     | (Inr v, d2) \<Rightarrow>
                         (case n of
                            None \<Rightarrow> (Inr (l(key \<mapsto> v)), d2)
                          | Some n' \<Rightarrow> parse_loop line (n' + 1) (l(key \<mapsto> v)) d2))))"
  by pat_completeness auto
termination
  by (relation "measure (\<lambda>(line, pos, _, _). length line - pos)") (auto dest!: find_from_bounds [OF sym])

declare parse_loop.simps [simp del]

definition parseIndexLine :: "string \<Rightarrow> ('z diag_scheme, details) prog" where
  "parseIndexLine line d = parse_loop line 0 Map.empty d"

text \<open>\<open>readIndexLine\<close> on a \<open>File\<close>: \<open>None\<close> inside is the result 0, the end mark.\<close>

definition readIndexLine ::
  "'d reader \<Rightarrow> 'd fileobj \<Rightarrow> 'z diag_scheme \<Rightarrow>
     ((exn + details option) \<times> 'd fileobj \<times> 'z diag_scheme) option" where
  "readIndexLine readbytes f d =
     (case getline readbytes f of
        None \<Rightarrow> None
      | Some (Inl e, f') \<Rightarrow> Some (Inl e, f', d)
      | Some (Inr None, f') \<Rightarrow> Some (Inl (BadIndexFile ''unexpected end of file''), f', d)
      | Some (Inr (Some line), f') \<Rightarrow>
          if line = ''[end]'' then Some (Inr None, f', d)
          else (case parseIndexLine line d of
                  (Inl e, d') \<Rightarrow> Some (Inl e, f', d')
                | (Inr l, d') \<Rightarrow> Some (Inr (Some l), f', d')))"

text \<open>
  The loop \<open>while(readIndexLine(f, details)) ...\<close> that restore, verify, cleanup and the hint
  file share; \<open>acc\<close> holds the variables its body changes.
\<close>

partial_function (option) index_loop ::
  "'d reader \<Rightarrow> (details \<Rightarrow> 'a \<Rightarrow> 'z diag_scheme \<Rightarrow> (exn + 'a) \<times> 'z diag_scheme) \<Rightarrow> 'd fileobj \<Rightarrow> 'a \<Rightarrow>
     'z diag_scheme \<Rightarrow> ((exn + 'a) \<times> 'd fileobj \<times> 'z diag_scheme) option" where
  "index_loop readbytes body f acc s =
     (case readIndexLine readbytes f s of
        None \<Rightarrow> None
      | Some (Inl e, f', s') \<Rightarrow> Some (Inl e, f', s')
      | Some (Inr None, f', s') \<Rightarrow> Some (Inr acc, f', s')
      | Some (Inr (Some l), f', s') \<Rightarrow>
          (case body l acc s' of
             (Inl e, s'') \<Rightarrow> Some (Inl e, f', s'')
           | (Inr acc', s'') \<Rightarrow> index_loop readbytes body f' acc' s''))"

declare index_loop.simps [code]

definition getdetail :: "details \<Rightarrow> string \<Rightarrow> string option" where
  "getdetail details key = details key"

text \<open>
  \<open>details[key]\<close> of a \<open>std::map\<close>: a missing key reads as the empty string. (It is also
  inserted; the next line read clears the map before anything looks at that entry.)
\<close>

definition subscript :: "details \<Rightarrow> string \<Rightarrow> string" where
  "subscript details key = (case details key of None \<Rightarrow> '''' | Some v \<Rightarrow> v)"

section \<open>The caller's view: an index as the bytes still to come\<close>

definition readIndexLine_text :: "bytes \<Rightarrow> ('z diag_scheme, (details \<times> bytes) option) prog" where
  "readIndexLine_text bs d =
     (case getline_text bs of
        None \<Rightarrow> (Inl (BadIndexFile ''unexpected end of file''), d)
      | Some (line, rest) \<Rightarrow>
          if line = ''[end]'' then (Inr None, d)
          else (case parseIndexLine line d of
                  (Inl e, d') \<Rightarrow> (Inl e, d')
                | (Inr l, d') \<Rightarrow> (Inr (Some (l, rest)), d')))"

lemma readIndexLine_text_shorter:
  "readIndexLine_text bs s = (Inr (Some (l, rest)), s') \<Longrightarrow> length rest < length bs"
  by (auto simp: readIndexLine_text_def getline_text_def after_line_shorter
      split: option.splits if_splits prod.splits sum.splits)

text \<open>The loop \<open>index_loop\<close> over the text of the index.\<close>

function for_index ::
  "(details \<Rightarrow> 'a \<Rightarrow> 'z diag_scheme \<Rightarrow> (exn + 'a) \<times> 'z diag_scheme) \<Rightarrow> bytes \<Rightarrow> 'a \<Rightarrow>
     'z diag_scheme \<Rightarrow> (exn + 'a) \<times> 'z diag_scheme" where
  "for_index body bs acc s =
     (case readIndexLine_text bs s of
        (Inl e, s') \<Rightarrow> (Inl e, s')
      | (Inr None, s') \<Rightarrow> (Inr acc, s')
      | (Inr (Some (l, rest)), s') \<Rightarrow>
          (case body l acc s' of
             (Inl e, s'') \<Rightarrow> (Inl e, s'')
           | (Inr acc', s'') \<Rightarrow> for_index body rest acc' s''))"
  by pat_completeness auto
termination
  by (relation "measure (\<lambda>(_, bs, _, _). length bs)") (auto dest!: readIndexLine_text_shorter [OF sym])

declare for_index.simps [simp del]

section \<open>The format\<close>

fun split_on :: "char \<Rightarrow> string \<Rightarrow> string list" where
  "split_on c [] = [[]]"
| "split_on c (x # xs) =
     (if x = c then [] # split_on c xs
      else (case split_on c xs of [] \<Rightarrow> [[x]] | seg # segs \<Rightarrow> (x # seg) # segs))"

lemma split_on_plain: "c \<notin> set ys \<Longrightarrow> split_on c ys = [ys]"
  by (induction ys) auto

lemma split_on_append: "c \<notin> set ys \<Longrightarrow> split_on c (ys @ c # zs) = ys # split_on c zs"
  by (induction ys) auto

definition parse_field :: "string \<Rightarrow> (string \<times> string) option" where
  "parse_field seg =
     (case find_from seg (CHR ''='') 0 of
        None \<Rightarrow> None
      | Some i \<Rightarrow>
          (case (urldecode_ref (take i seg), urldecode_ref (drop (i + 1) seg)) of
             (Some k, Some v) \<Rightarrow> Some (k, v)
           | _ \<Rightarrow> None))"

text \<open>A later field with the same key replaces an earlier one.\<close>

fun parse_fields :: "string list \<Rightarrow> details \<Rightarrow> details option" where
  "parse_fields [] l = Some l"
| "parse_fields (seg # segs) l =
     (case parse_field seg of None \<Rightarrow> None | Some (k, v) \<Rightarrow> parse_fields segs (l(k \<mapsto> v)))"

definition parse_line :: "string \<Rightarrow> details option" where
  "parse_line line = parse_fields (split_on (CHR ''&'') line) Map.empty"

section \<open>The parser implements the format\<close>

lemma find_from_split:
  assumes "find_from s c pos = Some i"
  shows "drop pos s = take (i - pos) (drop pos s) @ c # drop (Suc i) s"
    "c \<notin> set (take (i - pos) (drop pos s))"
proof -
  have b: "pos \<le> i" "i < length s" "s ! i = c" using assms by (auto simp: find_from_Some)
  have "drop i s = c # drop (Suc i) s"
    using b Cons_nth_drop_Suc [of i s] by simp
  then have "drop (i - pos) (drop pos s) = c # drop (Suc i) s"
    using b(1) by simp
  then show "drop pos s = take (i - pos) (drop pos s) @ c # drop (Suc i) s"
    by (metis append_take_drop_id)
  show "c \<notin> set (take (i - pos) (drop pos s))"
    using assms b by (auto simp: find_from_Some in_set_conv_nth)
qed

text \<open>The separator of the segment that ends at \<open>fin\<close>, found in the whole line.\<close>

lemma find_from_segment:
  assumes "pos \<le> fin" "fin \<le> length line"
  shows "find_from (take (fin - pos) (drop pos line)) c 0 =
    (case find_from line c pos of
       None \<Rightarrow> None | Some i \<Rightarrow> if i < fin then Some (i - pos) else None)"
    (is "find_from ?seg c 0 = _")
proof (cases "find_from line c pos")
  case None
  then have "c \<notin> set ?seg" by (auto simp: find_from_None dest: in_set_takeD)
  then have "find_from ?seg c 0 = None" by (simp add: find_from_None)
  then show ?thesis using None by simp
next
  case (Some i)
  then have i: "pos \<le> i" "i < length line" "line ! i = c" "\<forall>j. pos \<le> j \<and> j < i \<longrightarrow> line ! j \<noteq> c"
    by (auto simp: find_from_Some)
  have nth: "?seg ! k = line ! (pos + k)" if "k < fin - pos" for k
    using that assms by simp
  show ?thesis
  proof (cases "i < fin")
    case True
    then have "find_from ?seg c 0 = Some (i - pos)"
      using i assms nth by (auto simp: find_from_Some)
    then show ?thesis using Some True by simp
  next
    case False
    then have "c \<notin> set ?seg"
      using i(4) nth assms by (auto simp: in_set_conv_nth)
    then have "find_from ?seg c 0 = None" by (simp add: find_from_None)
    then show ?thesis using Some False by simp
  qed
qed

text \<open>
  One field: where the code's tests on \<open>sep\<close> and \<open>n\<close> and its two decodings agree
  with \<open>parse_field\<close> on the segment.
\<close>

lemma field_separator:
  assumes "pos \<le> fin" "fin \<le> length line"
    and "fin = (case find_from line (CHR ''&'') pos of None \<Rightarrow> length line | Some n \<Rightarrow> n)"
  shows "find_from (take (fin - pos) (drop pos line)) (CHR ''='') 0 =
    (case find_from line (CHR ''='') pos of
       None \<Rightarrow> None
     | Some i \<Rightarrow>
         if (case find_from line (CHR ''&'') pos of None \<Rightarrow> False | Some n \<Rightarrow> n < i) then None
         else Some (i - pos))"
proof -
  have "n < i \<longleftrightarrow> \<not> i < n"
    if "find_from line (CHR ''='') pos = Some i" "find_from line (CHR ''&'') pos = Some n" for i n
  proof -
    have "i \<noteq> n" using that by (auto simp: find_from_Some)
    then show ?thesis by auto
  qed
  moreover have "i < length line" if "find_from line (CHR ''='') pos = Some i" for i
    using that by (simp add: find_from_Some)
  ultimately show ?thesis
    using find_from_segment [OF assms(1,2), of "CHR ''=''"] assms(3)
    by (auto split: option.splits)
qed

lemma segment_parts:
  assumes "pos \<le> i" "i < fin" "fin \<le> length line"
  shows "take (i - pos) (take (fin - pos) (drop pos line)) = take (i - pos) (drop pos line)"
    and "drop (i - pos + 1) (take (fin - pos) (drop pos line)) = take (fin - (i + 1)) (drop (i + 1) line)"
  using assms by (simp_all add: min_def drop_take)

text \<open>The outcome of the loop, against the reference on the remaining segments.\<close>

definition parses_as :: "string \<Rightarrow> 'z diag_scheme \<Rightarrow> details option \<Rightarrow> (exn + details) \<times> 'z diag_scheme \<Rightarrow> bool" where
  "parses_as line d spec r \<longleftrightarrow>
     (case spec of
        Some l \<Rightarrow> r = (Inr l, d)
      | None \<Rightarrow> r = (Inl (BadIndexFile line), d) \<or>
          (\<exists>e. r = (Inl e, error (''invalid URL-encoded string: '' @ c_str line) d)
               \<and> (e = BadHexDigit \<or> (\<exists>t. e = BadHex t))))"

lemma split_field:
  fixes line :: string and pos :: nat
  defines "n \<equiv> find_from line (CHR ''&'') pos"
  shows "split_on (CHR ''&'') (drop pos line) =
    take ((case n of None \<Rightarrow> length line | Some i \<Rightarrow> i) - pos) (drop pos line) #
      (case n of None \<Rightarrow> [] | Some i \<Rightarrow> split_on (CHR ''&'') (drop (Suc i) line))"
proof (cases n)
  case None
  then have "CHR ''&'' \<notin> set (drop pos line)" by (simp add: n_def find_from_None)
  then show ?thesis using None by (simp add: split_on_plain)
next
  case (Some i)
  then show ?thesis
    using find_from_split [OF Some [unfolded n_def]] split_on_append by simp metis
qed

lemma parse_loop_field:
  assumes "find_from line (CHR ''='') pos = Some i"
    and "\<not> (case find_from line (CHR ''&'') pos of None \<Rightarrow> False | Some n \<Rightarrow> n < i)"
  shows "parse_loop line pos l d =
     (case urldecode line pos (Some i) d of
        (Inl e, d1) \<Rightarrow> (Inl e, d1)
      | (Inr key, d1) \<Rightarrow>
          (case urldecode line (i + 1) (find_from line (CHR ''&'') pos) d1 of
             (Inl e, d2) \<Rightarrow> (Inl e, d2)
           | (Inr v, d2) \<Rightarrow>
               (case find_from line (CHR ''&'') pos of
                  None \<Rightarrow> (Inr (l(key \<mapsto> v)), d2)
                | Some n \<Rightarrow> parse_loop line (n + 1) (l(key \<mapsto> v)) d2)))"
  using assms by (subst parse_loop.simps) (simp add: Let_def)

lemma parse_loop_ref:
  "pos \<le> length line \<Longrightarrow>
     parses_as line d (parse_fields (split_on (CHR ''&'') (drop pos line)) l) (parse_loop line pos l d)"
proof (induction line pos l d rule: parse_loop.induct)
  case (1 line pos l d)
  let ?n = "find_from line (CHR ''&'') pos"
  define fin where "fin = (case ?n of None \<Rightarrow> length line | Some n \<Rightarrow> n)"
  have fin: "pos \<le> fin" "fin \<le> length line"
    using "1.prems" by (auto simp: fin_def find_from_Some split: option.splits)
  define seg where "seg = take (fin - pos) (drop pos line)"
  define segs where "segs = (case ?n of None \<Rightarrow> [] | Some n \<Rightarrow> split_on (CHR ''&'') (drop (Suc n) line))"
  have split: "split_on (CHR ''&'') (drop pos line) = seg # segs"
    unfolding seg_def segs_def fin_def by (rule split_field)
  note sep = field_separator [OF fin fin_def, folded seg_def]
  show ?case
  proof (cases "find_from seg (CHR ''='') 0")
    case None
    then have "parse_loop line pos l d = (Inl (BadIndexFile line), d)"
      using sep by (subst parse_loop.simps) (auto simp: Let_def split: option.splits if_splits)
    then show ?thesis using None by (simp add: split parse_field_def parses_as_def)
  next
    case (Some k)
    then obtain i where i: "find_from line (CHR ''='') pos = Some i" "k = i - pos"
        "\<not> (case ?n of None \<Rightarrow> False | Some n' \<Rightarrow> n' < i)"
      using sep by (auto split: option.splits if_splits)
    have ib: "pos \<le> i" "i < fin"
    proof -
      show "pos \<le> i" using i(1) by (simp add: find_from_Some)
      have "k < length seg" using Some by (simp add: find_from_Some)
      then show "i < fin" using i(2) \<open>pos \<le> i\<close> fin by (simp add: seg_def)
    qed
    note parts = segment_parts [OF ib fin(2), folded seg_def]
    note unf = parse_loop_field [OF i(1,3), of l d]
    have spec: "parse_field seg =
       (case (urldecode_ref (take (i - pos) (drop pos line)),
              urldecode_ref (take (fin - (i + 1)) (drop (i + 1) line))) of
          (Some key, Some v) \<Rightarrow> Some (key, v) | _ \<Rightarrow> None)"
      unfolding parse_field_def Some i(2) using parts by simp
    show ?thesis
    proof (cases "urldecode_ref (take (i - pos) (drop pos line))")
      case None
      have "i \<le> length line" using ib fin by simp
      then obtain e where "urldecode line pos (Some i) d =
          (Inl e, error (''invalid URL-encoded string: '' @ c_str line) d)"
          "e = BadHexDigit \<or> (\<exists>t. e = BadHex t)"
        using urldecode_fails [where limit = i and fin = "Some i" and s = line and start = pos and d = d] None by auto
      then show ?thesis using unf spec None by (auto simp: split parses_as_def)
    next
      case key: (Some key)
      have "i \<le> length line" using ib fin by simp
      then have uk: "urldecode line pos (Some i) d = (Inr key, d)"
        using urldecode_ok [where limit = i and fin = "Some i" and s = line and start = pos and d = d] key by simp
      show ?thesis
      proof (cases "urldecode_ref (take (fin - (i + 1)) (drop (i + 1) line))")
        case None
        then obtain e where "urldecode line (i + 1) ?n d =
            (Inl e, error (''invalid URL-encoded string: '' @ c_str line) d)"
            "e = BadHexDigit \<or> (\<exists>t. e = BadHex t)"
          using urldecode_fails [OF fin_def fin(2), where start = "i + 1" and d = d] by auto
        then show ?thesis using unf uk spec None key by (auto simp: split parses_as_def)
      next
        case val: (Some v)
        then have uv: "urldecode line (i + 1) ?n d = (Inr v, d)"
          using urldecode_ok [OF fin_def fin(2)] by auto
        show ?thesis
        proof (cases ?n)
          case None
          then show ?thesis using unf uk uv spec key val by (simp add: split segs_def parses_as_def)
        next
          case (Some n)
          then have n: "n + 1 \<le> length line" by (simp add: find_from_Some)
          have "parses_as line d (parse_fields (split_on (CHR ''&'') (drop (n + 1) line)) (l(key \<mapsto> v)))
              (parse_loop line (n + 1) (l(key \<mapsto> v)) d)"
            using "1.IH" [OF refl refl i(1) i(3) uk [symmetric] refl uv [symmetric] refl Some] n by (simp add: fun_upd_def)
          then show ?thesis using unf uk uv spec key val Some by (simp add: split segs_def)
        qed
      qed
    qed
  qed
qed

lemma parseIndexLine_ref: "parses_as line d (parse_line line) (parseIndexLine line d)"
  using parse_loop_ref [of 0 line d Map.empty] by (simp add: parse_line_def parseIndexLine_def)

lemma parseIndexLine_Some: "parse_line line = Some l \<Longrightarrow> parseIndexLine line d = (Inr l, d)"
  using parseIndexLine_ref [of line d] by (simp add: parses_as_def)

lemma parseIndexLine_None:
  assumes "parse_line line = None"
  obtains e d' where "parseIndexLine line d = (Inl e, d')"
    "e = BadIndexFile line \<and> d' = d \<or>
     (e = BadHexDigit \<or> (\<exists>t. e = BadHex t)) \<and>
       d' = error (''invalid URL-encoded string: '' @ c_str line) d"
  using parseIndexLine_ref [of line d] assms by (auto simp: parses_as_def)

section \<open>Writing and reading back\<close>

fun join :: "string \<Rightarrow> string list \<Rightarrow> string" where
  "join sep [] = []"
| "join sep [x] = x"
| "join sep (x # y # xs) = x @ sep @ join sep (y # xs)"

definition format_field :: "string \<times> string \<Rightarrow> string" where
  "format_field kv = urlencode (fst kv) @ ''='' @ urlencode (snd kv)"

definition format_fields :: "(string \<times> string) list \<Rightarrow> string" where
  "format_fields kvs = join ''&'' (map format_field kvs)"

lemma split_on_join:
  "segs \<noteq> [] \<Longrightarrow> \<forall>seg \<in> set segs. c \<notin> set seg \<Longrightarrow> split_on c (join [c] segs) = segs"
proof (induction "[c]" segs rule: join.induct)
  case (3 x y xs)
  then have "c \<notin> set x" "split_on c (join [c] (y # xs)) = y # xs" by simp_all
  then show ?case by (simp add: split_on_append)
qed (simp_all add: split_on_plain)

lemma parse_field_format: "parse_field (format_field (k, v)) = Some (k, v)"
proof -
  have "find_from (format_field (k, v)) (CHR ''='') 0 = Some (length (urlencode k))"
    using find_from_append_Some [of "CHR ''=''" "urlencode k" "[]" "urlencode v"]
    by (simp add: format_field_def urlencode_separators)
  then show ?thesis
    by (simp add: parse_field_def) (simp add: format_field_def urldecode_ref_urlencode)
qed

lemma format_field_alphabet: "set (format_field kv) \<subseteq> insert (CHR ''='') url_safe"
  using urlencode_safe by (auto simp: format_field_def)

lemma parse_fields_format:
  "parse_fields (map format_field kvs) l = Some (l ++ map_of (rev kvs))"
proof (induction kvs arbitrary: l)
  case (Cons kv kvs)
  then show ?case
    by (cases kv) (simp add: parse_field_format fun_upd_def map_add_def fun_eq_iff split: option.split)
qed simp

lemma parse_line_format:
  assumes "kvs \<noteq> []"
  shows "parse_line (format_fields kvs) = Some (map_of (rev kvs))"
proof -
  have "CHR ''&'' \<notin> set (format_field kv)" for kv
    using format_field_alphabet [of kv] by (auto simp: url_safe_def)
  then show ?thesis
    using assms by (simp add: parse_line_def format_fields_def split_on_join parse_fields_format)
qed

section \<open>Whole index files\<close>

text \<open>
  The entries of an index: its lines up to the end mark, all of them well formed. There are none
  for a file that stops early or has a bad line.
\<close>

function index_details :: "bytes \<Rightarrow> details list option" where
  "index_details bs =
     (case getline_text bs of
        None \<Rightarrow> None
      | Some (line, rest) \<Rightarrow>
          if line = ''[end]'' then Some []
          else (case parse_line line of
                  None \<Rightarrow> None
                | Some l \<Rightarrow> map_option ((#) l) (index_details rest)))"
  by pat_completeness auto
termination
  by (relation "measure length")
    (auto simp: getline_text_def after_line_shorter split: if_splits)

declare index_details.simps [simp del]

text \<open>A loop over entries already read.\<close>

fun for_entries ::
  "(details \<Rightarrow> 'a \<Rightarrow> 's \<Rightarrow> (exn + 'a) \<times> 's) \<Rightarrow> details list \<Rightarrow> 'a \<Rightarrow> 's \<Rightarrow> (exn + 'a) \<times> 's" where
  "for_entries body [] acc s = (Inr acc, s)"
| "for_entries body (l # ls) acc s =
     (case body l acc s of
        (Inl e, s') \<Rightarrow> (Inl e, s')
      | (Inr acc', s') \<Rightarrow> for_entries body ls acc' s')"

lemma index_details_bad:
  "index_details bs = None \<Longrightarrow> \<exists>e s'. for_index body bs acc s = (Inl e, s')"
proof (induction body bs acc s rule: for_index.induct)
  case (1 body bs acc s)
  show ?case
  proof (cases "getline_text bs")
    case None
    then show ?thesis by (subst for_index.simps) (simp add: readIndexLine_text_def)
  next
    case (Some lr)
    obtain line rest where lr: "lr = (line, rest)" by fastforce
    then have ne: "line \<noteq> ''[end]''"
      using "1.prems" Some by (subst (asm) index_details.simps) auto
    show ?thesis
    proof (cases "parse_line line")
      case None
      then obtain e d where "parseIndexLine line s = (Inl e, d)"
        by (blast elim: parseIndexLine_None)
      then show ?thesis
        using Some lr ne by (subst for_index.simps) (simp add: readIndexLine_text_def)
    next
      case l: (Some l)
      have rd: "readIndexLine_text bs s = (Inr (Some (l, rest)), s)"
        using Some lr ne parseIndexLine_Some [OF l, of s] by (simp add: readIndexLine_text_def)
      have none: "index_details rest = None"
        using "1.prems" Some lr ne l by (subst (asm) index_details.simps) simp
      show ?thesis
      proof (cases "body l acc s")
        case (Pair r t)
        show ?thesis
        proof (cases r)
          case (Inl e)
          then show ?thesis by (subst for_index.simps) (simp add: rd Pair)
        next
          case (Inr acc')
          then show ?thesis
            using "1.IH" [OF rd [symmetric] refl refl refl, of "Inr acc'" t acc'] Pair none
            by (subst for_index.simps) (simp add: rd)
        qed
      qed
    qed
  qed
qed

lemma index_details_good:
  "index_details bs = Some ls \<Longrightarrow> for_index body bs acc s = for_entries body ls acc s"
proof (induction ls arbitrary: bs acc s)
  case Nil
  then obtain rest where "getline_text bs = Some (''[end]'', rest)"
    by (subst (asm) index_details.simps) (auto split: option.splits if_splits)
  then show ?case by (subst for_index.simps) (simp add: readIndexLine_text_def)
next
  case (Cons l ls)
  then obtain line rest where gl: "getline_text bs = Some (line, rest)" "line \<noteq> ''[end]''"
      "parse_line line = Some l" "index_details rest = Some ls"
    by (subst (asm) index_details.simps) (auto split: option.splits if_splits)
  then have "readIndexLine_text bs s = (Inr (Some (l, rest)), s)"
    using parseIndexLine_Some [OF gl(3), of s] by (simp add: readIndexLine_text_def)
  then show ?case
    using Cons.IH [OF gl(4)]
    by (subst for_index.simps) (simp split: prod.split sum.split)
qed

text \<open>
  The exceptions that reading an index raises; a loop whose body raises no others raises no others.
\<close>

fun bad_index_exn :: "exn \<Rightarrow> bool" where
  "bad_index_exn (BadIndexFile t) = True"
| "bad_index_exn (BadHex t) = True"
| "bad_index_exn BadHexDigit = True"
| "bad_index_exn e = False"

definition outcome :: "(exn \<Rightarrow> 's \<Rightarrow> bool) \<Rightarrow> ('a \<Rightarrow> 's \<Rightarrow> bool) \<Rightarrow> (exn + 'a) \<times> 's \<Rightarrow> bool" where
  "outcome Q P r = (case r of (Inl e, s) \<Rightarrow> Q e s | (Inr x, s) \<Rightarrow> P x s)"

lemma outcome_simps [simp]:
  "outcome Q P (Inl e, s) = Q e s" "outcome Q P (Inr x, s) = P x s"
  by (simp_all add: outcome_def)

lemma readIndexLine_text_outcome:
  "outcome (\<lambda>e s'. bad_index_exn e \<and> noted s s') (\<lambda>x s'. s' = s) (readIndexLine_text bs s)"
proof (cases "getline_text bs")
  case None
  then show ?thesis by (simp add: readIndexLine_text_def)
next
  case (Some lr)
  obtain line rest where lr: "lr = (line, rest)" by fastforce
  show ?thesis
  proof (cases "parse_line line")
    case None
    obtain e d where p: "parseIndexLine line s = (Inl e, d)" "e = BadIndexFile line \<and> d = s \<or>
        (e = BadHexDigit \<or> (\<exists>t. e = BadHex t)) \<and>
          d = error (''invalid URL-encoded string: '' @ c_str line) s"
      by (rule parseIndexLine_None [OF None])
    from p(2) have "bad_index_exn e" "noted s d" by auto
    with p(1) show ?thesis using Some lr by (simp add: readIndexLine_text_def)
  next
    case l: (Some l)
    then show ?thesis using Some lr parseIndexLine_Some [OF l, of s] by (simp add: readIndexLine_text_def)
  qed
qed

lemma for_index_outcome:
  assumes body: "\<And>l acc s. P acc s \<Longrightarrow> outcome Q P (body l acc s)"
    and read: "\<And>acc s e s'. P acc s \<Longrightarrow> bad_index_exn e \<Longrightarrow> noted s s' \<Longrightarrow> Q e s'"
  shows "P acc s \<Longrightarrow> outcome Q P (for_index body bs acc s)"
proof (induction "length bs" arbitrary: bs acc s rule: less_induct)
  case less
  note unf = for_index.simps [of body bs acc s]
  obtain q s1 where q: "readIndexLine_text bs s = (q, s1)" by fastforce
  note o = readIndexLine_text_outcome [of s bs, unfolded q]
  consider e where "q = Inl e" | "q = Inr None" | l rest where "q = Inr (Some (l, rest))"
    by (cases q) (auto, metis option.exhaust surj_pair)
  then show ?case
  proof cases
    case (3 l rest)
    then have "s1 = s" using o by simp
    obtain b s2 where b: "body l acc s = (b, s2)" by fastforce
    note ob = body [OF less.prems, of l, unfolded b]
    have lt: "length rest < length bs" using readIndexLine_text_shorter q 3 by blast
    show ?thesis
      using ob b 3 \<open>s1 = s\<close> less.hyps [OF lt, of _ s2] by (cases b) (simp_all add: unf q)
  qed (use o less.prems read in \<open>auto simp: unf q\<close>)
qed

text \<open>The text of an index, as the writers produce it, and its entries.\<close>

definition index_text :: "(string \<times> string) list list \<Rightarrow> bytes" where
  "index_text entries =
     bytes_of_string (concat (map (\<lambda>kvs. format_fields kvs @ [CHR 0x0A]) entries) @ ''[end]'' @ [CHR 0x0A])"

lemma getline_text_line:
  assumes "CHR 0x0A \<notin> set line"
  shows "getline_text (bytes_of_string (line @ CHR 0x0A # rest)) = Some (line, bytes_of_string rest)"
proof -
  have lf: "byte_of_char (CHR 0x0A) = 0x0A" by (simp add: byte_of_char_def)
  have nl: "byte_of_char c \<noteq> 0x0A" if "c \<noteq> CHR 0x0A" for c
    unfolding lf [symmetric] using that by (simp only: inj_byte_of_char) simp
  have "\<forall>b \<in> set (bytes_of_string line). b \<noteq> 0x0A"
  proof
    fix b assume "b \<in> set (bytes_of_string line)"
    then obtain c where "c \<in> set line" "b = byte_of_char c" by auto
    with assms show "b \<noteq> 0x0A" using nl by (metis (no_types))
  qed
  then have "line_of (bytes_of_string line @ 0x0A # bytes_of_string rest) = bytes_of_string line"
    unfolding line_of_def by (subst takeWhile_append2) auto
  then have "line_of (bytes_of_string (line @ CHR 0x0A # rest)) = bytes_of_string line"
    by (simp only: map_append list.map lf)
  then show ?thesis by (simp add: getline_text_def after_line_def)
qed

lemma format_fields_alphabet:
  "set (format_fields kvs) \<subseteq> insert (CHR ''&'') (insert (CHR ''='') url_safe)"
proof -
  have "set (join ''&'' segs) \<subseteq> insert (CHR ''&'') (\<Union> (set ` set segs))" for segs
    by (induction "''&''" segs rule: join.induct) auto
  then show ?thesis
    using format_field_alphabet by (fastforce simp: format_fields_def)
qed

lemma index_details_text:
  assumes "\<forall>kvs \<in> set entries. kvs \<noteq> []"
  shows "index_details (index_text entries) = Some (map (\<lambda>kvs. map_of (rev kvs)) entries)"
  using assms
proof (induction entries)
  case Nil
  have "getline_text (index_text []) = Some (''[end]'', [])"
    using getline_text_line [of "''[end]''" "[]"] by (simp add: index_text_def)
  then show ?case by (subst index_details.simps) simp
next
  case (Cons kvs entries)
  have nl: "CHR 0x0A \<notin> set (format_fields kvs)"
    using format_fields_alphabet [of kvs] by (auto simp: url_safe_def)
  have "index_text (kvs # entries) = bytes_of_string (format_fields kvs @ CHR 0x0A #
      (concat (map (\<lambda>kvs. format_fields kvs @ [CHR 0x0A]) entries) @ ''[end]'' @ [CHR 0x0A]))"
    by (simp add: index_text_def)
  then have "getline_text (index_text (kvs # entries)) = Some (format_fields kvs, index_text entries)"
    by (simp only: getline_text_line [OF nl] index_text_def)
  moreover have "format_fields kvs \<noteq> ''[end]''"
  proof
    assume eq: "format_fields kvs = ''[end]''"
    have "find_from (format_fields kvs) (CHR ''='') 0 \<noteq> None"
      using parse_line_format [of kvs] Cons.prems
      by (cases kvs rule: list.exhaust; cases "tl kvs")
        (auto simp: find_from_None format_fields_def format_field_def)
    then show False by (simp add: eq find_from_None)
  qed
  ultimately show ?case
    using Cons by (subst index_details.simps) (simp add: parse_line_format)
qed

section \<open>Reading lines from a file object\<close>

context reliable_source begin

lemma readIndexLine_refines:
  assumes "reader_ok f"
  obtains f' where "reader_ok f'"
    "readIndexLine readbytes f d =
       Some (case readIndexLine_text (unread f) d of
               (Inl e, d') \<Rightarrow> (Inl e, f', d')
             | (Inr None, d') \<Rightarrow> (Inr None, f', d')
             | (Inr (Some (l, rest)), d') \<Rightarrow> (Inr (Some l), f', d'))"
    "\<And>l rest d'. readIndexLine_text (unread f) d = (Inr (Some (l, rest)), d') \<Longrightarrow> unread f' = rest"
proof -
  obtain f' where f': "getline readbytes f = Some (Inr (map_option fst (getline_text (unread f))), f')"
      "reader_ok f'" "unread f' = after_line (unread f)"
    using getline_correct [OF assms] .
  show ?thesis
  proof (rule that [OF f'(2)])
    show "readIndexLine readbytes f d =
       Some (case readIndexLine_text (unread f) d of
               (Inl e, d') \<Rightarrow> (Inl e, f', d')
             | (Inr None, d') \<Rightarrow> (Inr None, f', d')
             | (Inr (Some (l, rest)), d') \<Rightarrow> (Inr (Some l), f', d'))"
      by (simp add: readIndexLine_def readIndexLine_text_def f'(1)
          split: option.split prod.split sum.split)
    show "unread f' = rest" if "readIndexLine_text (unread f) d = (Inr (Some (l, rest)), d')" for l rest d'
      using that f'(3)
      by (auto simp: readIndexLine_text_def getline_text_def
          split: option.splits if_splits prod.splits sum.splits)
  qed
qed

text \<open>The loop over the file object ends, and does what the loop over the text does.\<close>

lemma index_loop_refines:
  assumes "reader_ok f"
  shows "\<exists>r f' s'. index_loop readbytes body f acc s = Some (r, f', s') \<and>
    for_index body (unread f) acc s = (r, s') \<and> reader_ok f'"
  using assms
proof (induction "length (unread f)" arbitrary: f acc s rule: less_induct)
  case less
  obtain f1 where f1: "reader_ok f1"
    "readIndexLine readbytes f s =
       Some (case readIndexLine_text (unread f) s of
               (Inl e, d') \<Rightarrow> (Inl e, f1, d')
             | (Inr None, d') \<Rightarrow> (Inr None, f1, d')
             | (Inr (Some (l, rest)), d') \<Rightarrow> (Inr (Some l), f1, d'))"
    "\<And>l rest d'. readIndexLine_text (unread f) s = (Inr (Some (l, rest)), d') \<Longrightarrow> unread f1 = rest"
    using readIndexLine_refines [OF less.prems] by blast
  obtain q s1 where q: "readIndexLine_text (unread f) s = (q, s1)" by fastforce
  note unf = index_loop.simps [of readbytes body f acc s] for_index.simps [of body "unread f" acc s]
  consider e where "q = Inl e" | "q = Inr None" | l rest where "q = Inr (Some (l, rest))"
    by (cases q) (auto, metis option.exhaust surj_pair)
  then show ?case
  proof cases
    case (3 l rest)
    then have rest: "unread f1 = rest" using f1(3) q by simp
    have lt: "length (unread f1) < length (unread f)"
      using readIndexLine_text_shorter q 3 rest by blast
    show ?thesis
    proof (cases "body l acc s1")
      case (Pair b s2)
      show ?thesis
      proof (cases b)
        case (Inl e)
        then show ?thesis using f1(1) by (simp add: unf f1(2) q 3 Pair)
      next
        case (Inr acc')
        then show ?thesis using less.hyps [OF lt f1(1), of acc' s2] by (simp add: unf f1(2) q 3 Pair rest)
      qed
    qed
  qed (use f1(1) in \<open>simp_all add: unf f1(2) q\<close>)
qed

end

section \<open>The state of the loop\<close>

text \<open>Reading an index leaves the state as it is, except for messages.\<close>

lemma readIndexLine_state:
  assumes "readIndexLine rb f s = Some (r, f', s')"
  shows "s' = s \<or> (\<exists>msg. s' = error msg s)"
proof -
  have parse: "s' = s \<or> (\<exists>msg. s' = error msg s)" if "parseIndexLine line s = (q, s')" for line q s'
  proof (cases "parse_line line")
    case None
    then show ?thesis using that by (cases rule: parseIndexLine_None [of line s]) auto
  qed (use parseIndexLine_Some [of line _ s] that in auto)
  show ?thesis
    using assms by (auto simp: readIndexLine_def split: option.splits prod.splits sum.splits if_splits dest: parse)
qed

lemma index_loop_inv:
  assumes run: "index_loop rb body f acc s = Some (r, f', s')" and start: "I acc s"
    and msg: "\<And>acc s msg. I acc s \<Longrightarrow> I acc (error msg s)"
    and body: "\<And>l acc s q t. I acc s \<Longrightarrow> body l acc s = (q, t) \<Longrightarrow> case q of Inl e \<Rightarrow> \<exists>a. I a t | Inr a \<Rightarrow> I a t"
  shows "case r of Inl e \<Rightarrow> \<exists>a. I a s' | Inr a \<Rightarrow> I a s'"
proof -
  let ?out = "\<lambda>(r, f', s'). case r of Inl e \<Rightarrow> \<exists>a. I a s' | Inr a \<Rightarrow> I a s'"
  have "body = body \<longrightarrow> I acc s \<longrightarrow> ?out (r, f', s')"
  proof (rule index_loop.raw_induct [OF _ run, where P = "\<lambda>_ b _ acc s y. b = body \<longrightarrow> I acc s \<longrightarrow> ?out y"], intro impI)
    fix self rb' b f acc s y
    assume IH: "\<And>rb' b f acc s y. self rb' b f acc s = Some y \<Longrightarrow> b = body \<longrightarrow> I acc s \<longrightarrow> ?out y"
      and run: "(case readIndexLine rb' f s of None \<Rightarrow> None
        | Some (Inl e, f', s') \<Rightarrow> Some (Inl e, f', s')
        | Some (Inr None, f', s') \<Rightarrow> Some (Inr acc, f', s')
        | Some (Inr (Some l), f', s') \<Rightarrow>
            (case b l acc s' of
               (Inl e, s'') \<Rightarrow> Some (Inl e, f', s'')
             | (Inr acc', s'') \<Rightarrow> self rb' b f' acc' s'')) = Some y"
      and b: "b = body" and I: "I acc s"
    obtain q f1 s1 where q: "readIndexLine rb' f s = Some (q, f1, s1)"
      using run by (auto split: option.splits prod.splits)
    have I1: "I acc s1" using readIndexLine_state [OF q] I msg by blast
    consider e where "q = Inl e" | "q = Inr None" | l where "q = Inr (Some l)"
      by (metis sum.exhaust option.exhaust)
    then show "?out y"
    proof cases
      case (3 l)
      obtain r2 s2 where r2: "body l acc s1 = (r2, s2)" by fastforce
      have out: "case r2 of Inl e \<Rightarrow> \<exists>a. I a s2 | Inr a \<Rightarrow> I a s2" using body [OF I1 r2] .
      show ?thesis
      proof (cases r2)
        case (Inl e)
        then show ?thesis using run out by (auto simp: q 3 b r2)
      next
        case (Inr a)
        then have "self rb' b f1 a s2 = Some y" using run by (simp add: q 3 b r2)
        from IH [OF this] show ?thesis using out Inr b by simp
      qed
    qed (use run I1 in \<open>auto simp: q\<close>)
  qed
  then show ?thesis using start by simp
qed

end
