(* ===== verification/Verify.thy ===== *)
theory Verify
  imports Hashing Repository IndexLine
begin

text \<open>
  \<open>do_verify\<close> of verify.cc: every entry of an index whose contents are in the repository is
  checked against the file there. On a file system that keeps its contract, one error is counted for
  each entry that is not sound, and nothing else; with \<open>--detect-bogus\<close> the files found bad
  are removed, and only those.
\<close>

section \<open>The operation\<close>

text \<open>The uninitialised memory of new objects: the hash context and the buffer of a file.\<close>

record memory =
  mem_context :: SHA1Context
  mem_buffer :: bytes

definition memory_ok :: "memory \<Rightarrow> bool" where
  "memory_ok mem \<longleftrightarrow> length (Message_Block (mem_context mem)) = 64 \<and> length (mem_buffer mem) = BUFFER_SIZE"

definition verify_hash ::
  "('fd, 'w) posix \<Rightarrow> ('d, 'w) filesystem \<Rightarrow> memory \<Rightarrow> options \<Rightarrow> string \<Rightarrow> bytes \<Rightarrow>
     (('w, 'z) globals_scheme, unit) prog" where
  "verify_hash sys fs mem opts name h =
     (let hp = hash_file opts h
      in catching
           (andThen (hashfile sys fs (mem_context mem) (mem_buffer mem) hp False)
              (\<lambda>actual_hash s.
                 if h \<noteq> actual_hash then
                   (let s = error (c_str name @ '': hash mismatch for '' @ c_str hp) s
                    in if detectbogus opts then in_world (fs_remove fs hp) s else (Inr (), s))
                 else (Inr (), s)))
           (\<lambda>e. case file_error e of
                  None \<Rightarrow> None
                | Some n \<Rightarrow>
                    Some (\<lambda>s. if n \<noteq> ENOENT then (Inl e, s)
                               else (Inr (), error (c_str name @ '': cannot find '' @ c_str hp) s))))"

definition verify_entry ::
  "('fd, 'w) posix \<Rightarrow> ('d, 'w) filesystem \<Rightarrow> memory \<Rightarrow> options \<Rightarrow> details \<Rightarrow> unit \<Rightarrow>
     (('w, 'z) globals_scheme, unit) prog" where
  "verify_entry sys fs mem opts details _ s =
     (let name = subscript details ''name''; type = getdetail details ''type''
      in if type = None then
           (if getdetail details ''data'' \<noteq> None then (Inr (), s)
            else
              (case getdetail details HASH_NAME of
                 Some hash \<Rightarrow> andThen (hashdecode hash) (\<lambda>h. verify_hash sys fs mem opts name h) s
               | None \<Rightarrow> (Inr (), error (c_str name @ '': no known hash'') s)))
         else (Inr (), s))"

text \<open>The index file is closed only when the loop ends normally.\<close>

definition do_verify ::
  "('fd, 'w) posix \<Rightarrow> ('d, 'w) filesystem \<Rightarrow> memory \<Rightarrow> options \<Rightarrow> (('w, 'z) globals_scheme, unit) prog" where
  "do_verify sys backupfs mem opts =
     (if repo opts = '''' then fatal ''no repository specified''
      else if root opts \<noteq> '''' then fatal ''root specified for --verify''
      else if indexfile opts = '''' then fatal ''no index specified''
      else
        andThen (in_world (fs_open backupfs (indexfile opts) ReadOnly))
          (\<lambda>d s.
             case index_loop (file_readbytes backupfs) (verify_entry sys backupfs mem opts)
                    (File (mem_buffer mem) d) () s of
               None \<Rightarrow> (Inl Diverges, s)
             | Some (Inl e, f, s') \<Rightarrow> (Inl e, s')
             | Some (Inr _, f, s') \<Rightarrow> in_world (delete_File backupfs f (dev f)) s'))"

section \<open>What it checks\<close>

text \<open>
  The hash an entry is checked against, if there is one: it is a regular file that does not hold its
  contents itself.
\<close>

definition entry_hash :: "details \<Rightarrow> bytes option" where
  "entry_hash l =
     (if l ''type'' = None \<and> l ''data'' = None
      then (case l HASH_NAME of None \<Rightarrow> None | Some t \<Rightarrow> hash_of_text t) else None)"

definition stored :: "options \<Rightarrow> (place \<Rightarrow> entry) \<Rightarrow> bytes \<Rightarrow> bool" where
  "stored opts files h \<longleftrightarrow> (\<exists>bs. files (hash_place opts h) = Regular bs \<and> sha1 bs = h)"

definition sound_entry :: "options \<Rightarrow> (place \<Rightarrow> entry) \<Rightarrow> details \<Rightarrow> bool" where
  "sound_entry opts files l \<longleftrightarrow>
     l ''type'' \<noteq> None \<or> l ''data'' \<noteq> None \<or> (\<exists>h. entry_hash l = Some h \<and> stored opts files h)"

text \<open>Entries whose hash, if it is looked at, is one.\<close>

definition readable_entry :: "details \<Rightarrow> bool" where
  "readable_entry l \<longleftrightarrow>
     (l ''type'' = None \<longrightarrow> l ''data'' = None \<longrightarrow> l HASH_NAME \<noteq> None \<longrightarrow> entry_hash l \<noteq> None)"

text \<open>The places of the hashes of these entries that the repository does not hold.\<close>

definition bad_places :: "options \<Rightarrow> (place \<Rightarrow> entry) \<Rightarrow> details list \<Rightarrow> place set" where
  "bad_places opts files ls =
     {hash_place opts h | h l. l \<in> set ls \<and> entry_hash l = Some h \<and> \<not> stored opts files h}"

definition without :: "(place \<Rightarrow> entry) \<Rightarrow> place set \<Rightarrow> place \<Rightarrow> entry" where
  "without m ks k = (if k \<in> ks then Absent else m k)"

lemma without_empty [simp]: "without m {} = m"
  by (simp add: without_def fun_eq_iff)

lemma without_insert: "(without m ks)(k := Absent) = without m (insert k ks)"
  by (auto simp: without_def fun_eq_iff)

lemma without_absent: "without m ks k = Absent \<Longrightarrow> without m (insert k ks) = without m ks"
  by (auto simp: without_def fun_eq_iff)

lemma without_unobstructed: "unobstructed m k \<Longrightarrow> unobstructed (without m ks) k"
  by (auto simp: unobstructed_def without_def)

lemma entry_hash_length: "entry_hash l = Some h \<Longrightarrow> length h = HASH_SIZE"
  by (auto simp: entry_hash_def dest: hash_of_text_Some split: if_splits option.splits)

lemma bad_places_Cons:
  "bad_places opts files (l # ls) =
     (case entry_hash l of
        Some h \<Rightarrow> if stored opts files h then {} else {hash_place opts h}
      | None \<Rightarrow> {}) \<union> bad_places opts files ls"
  by (auto simp: bad_places_def split: option.split)

section \<open>Correctness on a store of files\<close>

text \<open>What the loop keeps: the entries, less some bad ones.\<close>

definition pruned :: "options \<Rightarrow> (place \<Rightarrow> entry) \<Rightarrow> place set \<Rightarrow> bool" where
  "pruned opts files ks \<longleftrightarrow>
     (\<forall>k \<in> ks. \<exists>h. k = hash_place opts h \<and> length h = HASH_SIZE \<and> \<not> stored opts files h)"

lemma pruned_stored:
  "pruned opts files ks \<Longrightarrow> length h = HASH_SIZE \<Longrightarrow> stored opts files h \<Longrightarrow> hash_place opts h \<notin> ks"
  using hash_place_inj unfolding pruned_def by metis

text \<open>
  Where hashed files belong there is a file or nothing, and no file is larger than SHA-1 can take.
\<close>

definition sane_store :: "options \<Rightarrow> (place \<Rightarrow> entry) \<Rightarrow> bool" where
  "sane_store opts files \<longleftrightarrow>
     (\<forall>h. length h = HASH_SIZE \<longrightarrow>
        unobstructed files (hash_place opts h) \<and>
        (files (hash_place opts h) = Absent \<or> (\<exists>bs. files (hash_place opts h) = Regular bs))) \<and>
     (\<forall>k bs. files k = Regular bs \<longrightarrow> sha1_fits bs)"

text \<open>The same of one hash, and what an entry needs of it.\<close>

definition sane_hash :: "options \<Rightarrow> (place \<Rightarrow> entry) \<Rightarrow> bytes \<Rightarrow> bool" where
  "sane_hash opts files h \<longleftrightarrow>
     unobstructed files (hash_place opts h) \<and> files (hash_place opts h) = Absent \<or>
     (\<exists>bs. files (hash_place opts h) = Regular bs \<and> sha1_fits bs \<and>
        (sha1 bs = h \<or> unobstructed files (hash_place opts h)))"

definition checkable :: "options \<Rightarrow> (place \<Rightarrow> entry) \<Rightarrow> details \<Rightarrow> bool" where
  "checkable opts files l \<longleftrightarrow> readable_entry l \<and> (\<forall>h. entry_hash l = Some h \<longrightarrow> sane_hash opts files h)"

lemma sane_checkable: "sane_store opts files \<Longrightarrow> readable_entry l \<Longrightarrow> checkable opts files l"
  using entry_hash_length [of l] unfolding sane_store_def checkable_def sane_hash_def by metis

lemma sound_entry_hash: "entry_hash l = Some h \<Longrightarrow> sound_entry opts files l = stored opts files h"
  by (auto simp: sound_entry_def entry_hash_def split: if_splits)

lemma sound_checkable:
  assumes "readable_entry l" "sound_entry opts files l" and fits: "\<And>k bs. files k = Regular bs \<Longrightarrow> sha1_fits bs"
  shows "checkable opts files l"
proof -
  have "sane_hash opts files h" if "stored opts files h" for h
    using that fits unfolding stored_def sane_hash_def by blast
  then show ?thesis using assms(1,2) sound_entry_hash [of l] unfolding checkable_def by blast
qed

context file_store begin

lemma verify_hash_ok:
  assumes "memory_ok mem" "plain_path (repo opts)" "length h = HASH_SIZE"
    and "sane_hash opts files h"
    and "view (world s) = without files ks" "pruned opts files ks"
  shows "\<exists>s'. verify_hash sys fs mem opts name h s = (Inr (), s') \<and>
    errors s' = errors s + (if stored opts files h then 0 else 1) \<and>
    view (world s') = without files
      (if detectbogus opts \<and> \<not> stored opts files h then insert (hash_place opts h) ks else ks)"
proof -
  note hp = hash_file_place [OF assms(2,3)]
  let ?k = "hash_place opts h" and ?ho = "mem_context mem" and ?g = "mem_buffer mem"
  have mem: "length (Message_Block ?ho) = 64" "length ?g = BUFFER_SIZE"
    using assms(1) by (simp_all add: memory_ok_def)
  consider "view (world s) ?k = Absent" "unobstructed (view (world s)) ?k"
    | bs where "view (world s) ?k = Regular bs" "sha1_fits bs"
  proof (cases "?k \<in> ks")
    case True
    then have "unobstructed files ?k"
      using assms(4) pruned_stored [OF assms(6,3)] by (auto simp: sane_hash_def stored_def)
    then show ?thesis using that(1) True assms(5) without_unobstructed by (simp add: without_def)
  next
    case False
    then have "view (world s) ?k = files ?k" using assms(5) by (simp add: without_def)
    then show ?thesis using that assms(4) without_unobstructed [of files ?k ks] unfolding sane_hash_def assms(5) by metis
  qed
  then show ?thesis
  proof cases
    case None: 1
    have ns: "\<not> stored opts files h"
      using None assms(5) pruned_stored [OF assms(6,3)] by (auto simp: stored_def without_def)
    obtain w' where w': "hashfile sys fs ?ho ?g (hash_file opts h) False s =
        (Inl (FileError ''opening'' (hash_file opts h) ENOENT), s\<lparr>world := w'\<rparr>)"
        "view w' = view (world s)"
      using hashfile_missing [OF hp(1), of s ?ho False sys ?g] None mem(1) hp(2) by auto
    have "without files (insert ?k ks) = without files ks"
      using without_absent None assms(5) by metis
    then show ?thesis using ns w' assms(5)
      by (simp add: verify_hash_def catching_def andThen_def Let_def)
  next
    case Some: (2 bs)
    then have fk: "files ?k = Regular bs" "?k \<notin> ks" using assms(5) by (auto simp: without_def split: if_splits)
    then have st: "stored opts files h \<longleftrightarrow> sha1 bs = h" by (simp add: stored_def)
    obtain w' where w': "hashfile sys fs ?ho ?g (hash_file opts h) False s =
        (Inr (sha1 bs), s\<lparr>world := w', hash_read := hash_read s + 1\<rparr>)" "view w' = view (world s)"
      using hashfile_found [OF hp(1), of s bs ?ho ?g False sys] Some mem hp(2) by auto
    obtain w'' where w'': "fs_remove fs (hash_file opts h) w' = (Inr (), w'')"
        "view w'' = (view w')(?k := Absent)"
      using remove_ok [OF hp(1), of w' bs] Some w'(2) hp(2) by auto
    show ?thesis
    proof (cases "sha1 bs = h")
      case True
      then show ?thesis using w' st assms(5) by (simp add: verify_hash_def catching_def andThen_def Let_def)
    next
      case False
      then have ne: "h \<noteq> sha1 bs" by metis
      have "(view (world s))(?k := Absent) = without files (insert ?k ks)"
        using without_insert [of files ks ?k] assms(5) by simp
      with ne False show ?thesis using w' w'' st assms(5)
        by (simp add: verify_hash_def catching_def andThen_def in_world_def Let_def)
    qed
  qed
qed

lemma verify_entry_ok:
  assumes "memory_ok mem" "plain_path (repo opts)" "checkable opts files l"
    and "view (world s) = without files ks" "pruned opts files ks"
  shows "\<exists>s' ks'. verify_entry sys fs mem opts l () s = (Inr (), s') \<and>
    errors s' = errors s + (if sound_entry opts files l then 0 else 1) \<and>
    view (world s') = without files ks' \<and> pruned opts files ks' \<and>
    ks' = ks \<union> (if detectbogus opts then bad_places opts files [l] else {})"
proof (cases "l ''type'' = None \<and> l ''data'' = None")
  case False
  then have "verify_entry sys fs mem opts l () s = (Inr (), s)" "sound_entry opts files l"
      "bad_places opts files [l] = {}"
    by (auto simp: verify_entry_def getdetail_def sound_entry_def bad_places_def entry_hash_def Let_def)
  then show ?thesis using assms(4,5) by auto
next
  case True
  show ?thesis
  proof (cases "l HASH_NAME")
    case None
    then have "bad_places opts files [l] = {}" "\<not> sound_entry opts files l"
        "errors (snd (verify_entry sys fs mem opts l () s)) = errors s + 1"
        "world (snd (verify_entry sys fs mem opts l () s)) = world s"
        "fst (verify_entry sys fs mem opts l () s) = Inr ()"
      using True by (auto simp: verify_entry_def getdetail_def sound_entry_def bad_places_def entry_hash_def Let_def)
    then show ?thesis using assms(4,5)
      by (cases "verify_entry sys fs mem opts l () s") auto
  next
    case (Some t)
    then obtain h where h: "hash_of_text t = Some h"
      using assms(3) True by (auto simp: checkable_def readable_entry_def entry_hash_def)
    have eh: "entry_hash l = Some h" using True Some h by (simp add: entry_hash_def)
    have run: "verify_entry sys fs mem opts l () s = verify_hash sys fs mem opts (subscript l ''name'') h s"
      using True Some hash_of_text_Some(1) [OF h, of s] by (simp add: verify_entry_def getdetail_def Let_def)
    define ks' where "ks' = (if detectbogus opts \<and> \<not> stored opts files h then insert (hash_place opts h) ks else ks)"
    have p: "pruned opts files ks'"
      using assms(5) hash_of_text_Some(2) [OF h] by (auto simp: pruned_def ks'_def)
    have b: "ks' = ks \<union> (if detectbogus opts then bad_places opts files [l] else {})"
      using eh by (auto simp: ks'_def bad_places_def)
    have snd: "sound_entry opts files l \<longleftrightarrow> stored opts files h" using True eh by (simp add: sound_entry_def)
    show ?thesis
      using verify_hash_ok [OF assms(1,2) hash_of_text_Some(2) [OF h] _ assms(4,5), of sys "subscript l ''name''"]
        assms(3) eh p b unfolding checkable_def run snd ks'_def by blast
  qed
qed

lemma verify_entries_ok:
  assumes "memory_ok mem" "plain_path (repo opts)" "\<forall>l \<in> set ls. checkable opts files l"
    and "view (world s) = without files ks" "pruned opts files ks"
  shows "\<exists>s'. for_entries (verify_entry sys fs mem opts) ls () s = (Inr (), s') \<and>
    errors s' = errors s + length (filter (\<lambda>l. \<not> sound_entry opts files l) ls) \<and>
    view (world s') = without files (ks \<union> (if detectbogus opts then bad_places opts files ls else {}))"
  using assms(3-5)
proof (induction ls arbitrary: s ks)
  case Nil
  then show ?case by (simp add: bad_places_def)
next
  case (Cons l ls)
  obtain s1 ks1 where s1: "verify_entry sys fs mem opts l () s = (Inr (), s1)"
      "errors s1 = errors s + (if sound_entry opts files l then 0 else 1)"
      "view (world s1) = without files ks1" "pruned opts files ks1"
      "ks1 = ks \<union> (if detectbogus opts then bad_places opts files [l] else {})"
    using verify_entry_ok [OF assms(1,2) _ Cons.prems(2,3), of l sys] Cons.prems(1) by auto
  have "bad_places opts files (l # ls) = bad_places opts files [l] \<union> bad_places opts files ls"
    by (auto simp: bad_places_def)
  then show ?case
    using Cons.IH [OF _ s1(3,4)] Cons.prems(1) s1(1,2,5) by (auto simp: Un_assoc)
qed

text \<open>The whole operation, on an index that can be read.\<close>

lemma do_verify_checks:
  assumes "memory_ok mem" "plain_path (repo opts)" "root opts = ''''" "plain_path (indexfile opts)"
    and "view (world s) (resolve (indexfile opts)) = Regular bs" "index_details bs = Some ls"
    and "\<forall>l \<in> set ls. checkable opts (view (world s)) l"
  shows "\<exists>s'. do_verify sys fs mem opts s = (Inr (), s') \<and>
    errors s' = errors s + length (filter (\<lambda>l. \<not> sound_entry opts (view (world s)) l) ls) \<and>
    view (world s') = without (view (world s))
      (if detectbogus opts then bad_places opts (view (world s)) ls else {})"
proof -
  obtain d w1 where d: "fs_open fs (indexfile opts) ReadOnly (world s) = (Inr d, w1)" "remaining d = bs"
      "view w1 = view (world s)"
    using open_found [OF assms(4,5)] by blast
  let ?f = "File (mem_buffer mem) d" and ?s = "s\<lparr>world := w1\<rparr>"
  have ok: "reader_ok ?f" using assms(1) by (simp add: memory_ok_def File_reader_ok)
  obtain r f s2 where l: "index_loop (file_readbytes fs) (verify_entry sys fs mem opts) ?f () ?s = Some (r, f, s2)"
      "for_index (verify_entry sys fs mem opts) (unread ?f) () ?s = (r, s2)" "reader_ok f"
    using index_loop_refines [OF ok, of "verify_entry sys fs mem opts" "()" ?s] by blast
  obtain s3 where "for_entries (verify_entry sys fs mem opts) ls () ?s = (Inr (), s3)"
      "errors s3 = errors s + length (filter (\<lambda>l. \<not> sound_entry opts (view (world s)) l) ls)"
      "view (world s3) = without (view (world s))
        (if detectbogus opts then bad_places opts (view (world s)) ls else {})"
    using verify_entries_ok [OF assms(1,2,7), of ?s "{}" sys] d(3) by (auto simp: pruned_def)
  then have r: "r = Inr ()" "s3 = s2" "errors s2 = errors s + length (filter (\<lambda>l. \<not> sound_entry opts (view (world s)) l) ls)"
      "view (world s2) = without (view (world s))
        (if detectbogus opts then bad_places opts (view (world s)) ls else {})"
    using l(2) d(2) by (simp_all add: index_details_good [OF assms(6)])
  obtain w' where w': "delete_File fs f (dev f) (world s2) = (Inr (), w')" "view w' = view (world s2)"
    using delete_reader [of f "dev f" "world s2"] l(3) reader_ok_def [of f] by blast
  have "repo opts \<noteq> ''''" "indexfile opts \<noteq> ''''" using assms(2,4) by (auto simp: plain_path_def)
  then have "do_verify sys fs mem opts s = (Inr (), s2\<lparr>world := w'\<rparr>)"
    using assms(3) d(1) l(1) r(1) w'(1) by (simp add: do_verify_def in_world_def andThen_def)
  then show ?thesis using r(3,4) w'(2) by simp
qed

lemma do_verify_ok:
  assumes "memory_ok mem" "plain_path (repo opts)" "root opts = ''''" "plain_path (indexfile opts)"
    and "view (world s) (resolve (indexfile opts)) = Regular bs" "index_details bs = Some ls"
    and "\<forall>l \<in> set ls. readable_entry l" "sane_store opts (view (world s))"
  shows "\<exists>s'. do_verify sys fs mem opts s = (Inr (), s') \<and>
    errors s' = errors s + length (filter (\<lambda>l. \<not> sound_entry opts (view (world s)) l) ls) \<and>
    view (world s') = without (view (world s))
      (if detectbogus opts then bad_places opts (view (world s)) ls else {})"
  using assms(7,8) by (intro do_verify_checks [OF assms(1-6)]) (simp add: sane_checkable)

text \<open>An index whose entries are all sound: nothing is counted and nothing is removed.\<close>

lemma do_verify_sound:
  assumes "memory_ok mem" "plain_path (repo opts)" "root opts = ''''" "plain_path (indexfile opts)"
    and "view (world s) (resolve (indexfile opts)) = Regular bs" "index_details bs = Some ls"
    and "\<forall>l \<in> set ls. readable_entry l \<and> sound_entry opts (view (world s)) l"
    and "\<And>k bs. view (world s) k = Regular bs \<Longrightarrow> sha1_fits bs"
  shows "\<exists>s'. do_verify sys fs mem opts s = (Inr (), s') \<and> errors s' = errors s \<and> view (world s') = view (world s)"
proof -
  note sound = assms(7)
  have bad: "bad_places opts (view (world s)) ls = {}"
    using sound sound_entry_hash unfolding bad_places_def by blast
  have none: "filter (\<lambda>l. \<not> sound_entry opts (view (world s)) l) ls = []"
    by (rule filter_False) (use sound in blast)
  have "\<forall>l \<in> set ls. checkable opts (view (world s)) l"
  proof
    fix l
    assume "l \<in> set ls"
    then have "readable_entry l" "sound_entry opts (view (world s)) l" using sound by blast+
    then show "checkable opts (view (world s)) l" by (rule sound_checkable) (rule assms(8))
  qed
  from do_verify_checks [OF assms(1-6) this, of sys]
  show ?thesis unfolding bad none without_def by simp
qed

text \<open>An index that stops early or has a bad line is never taken as verified.\<close>

lemma verify_entry_outcome:
  assumes "memory_ok mem" "plain_path (repo opts)" "sane_store opts files"
    and "\<exists>ks. view (world s) = without files ks \<and> pruned opts files ks"
  shows "outcome (\<lambda>e s'. bad_index_exn e) (\<lambda>u s'. \<exists>ks. view (world s') = without files ks \<and> pruned opts files ks)
     (verify_entry sys fs mem opts l u s)"
proof (cases "readable_entry l")
  case True
  then show ?thesis using verify_entry_ok [OF assms(1,2) sane_checkable [OF assms(3) True], of s _ sys] assms(4) by fastforce
next
  case False
  then obtain t where t: "l ''type'' = None" "l ''data'' = None" "l HASH_NAME = Some t" "hash_of_text t = None"
    by (auto simp: readable_entry_def entry_hash_def split: if_splits)
  obtain e s' where "hashdecode t s = (Inl e, s')" "e = BadHex t \<or> e = BadHexDigit"
    using hash_of_text_None [OF t(4)] by blast
  then show ?thesis using t by (auto simp: verify_entry_def getdetail_def)
qed

lemma do_verify_bad_index:
  assumes "memory_ok mem" "plain_path (repo opts)" "root opts = ''''" "plain_path (indexfile opts)"
    and "view (world s) (resolve (indexfile opts)) = Regular bs" "index_details bs = None"
    and "sane_store opts (view (world s))"
  shows "\<exists>e s'. do_verify sys fs mem opts s = (Inl e, s') \<and> bad_index_exn e"
proof -
  obtain d w1 where d: "fs_open fs (indexfile opts) ReadOnly (world s) = (Inr d, w1)" "remaining d = bs"
      "view w1 = view (world s)"
    using open_found [OF assms(4,5)] by blast
  let ?f = "File (mem_buffer mem) d" and ?s = "s\<lparr>world := w1\<rparr>" and ?b = "verify_entry sys fs mem opts"
  have ok: "reader_ok ?f" using assms(1) by (simp add: memory_ok_def File_reader_ok)
  obtain r f s2 where l: "index_loop (file_readbytes fs) ?b ?f () ?s = Some (r, f, s2)"
      "for_index ?b bs () ?s = (r, s2)"
    using index_loop_refines [OF ok, of ?b "()" ?s] d(2) by auto
  obtain e where e: "r = Inl e" using index_details_bad [OF assms(6), of ?b "()" ?s] l(2) by auto
  let ?P = "\<lambda>u s'. \<exists>ks. view (world s') = without (view (world s)) ks \<and> pruned opts (view (world s)) ks"
  have "?P () ?s" using d(3) by (intro exI [of _ "{}"]) (simp add: pruned_def)
  then have "outcome (\<lambda>e s'. bad_index_exn e) ?P (for_index ?b bs () ?s)"
    using for_index_outcome [where P = ?P and body = ?b and Q = "\<lambda>e s'. bad_index_exn e"]
      verify_entry_outcome [OF assms(1,2,7), of _ sys] by blast
  then have "bad_index_exn e" using l(2) e by simp
  moreover have "repo opts \<noteq> ''''" "indexfile opts \<noteq> ''''" using assms(2,4) by (auto simp: plain_path_def)
  ultimately show ?thesis
    using assms(3) d(1) l(1) e by (simp add: do_verify_def in_world_def andThen_def)
qed

end

end
