(* ===== verification/HashSet.thy ===== *)
theory HashSet
  imports Hex
begin

text \<open>
  The class \<open>HashSet\<close> of hash.cc: a chained hash table of SHA-1 hashes, which cleanup fills
  with the hashes of the live indexes. It implements a set (interface \<open>hash_set\<close>), and
  \<open>stats\<close> counts its elements.
\<close>

section \<open>The table\<close>

definition HASHTABLE_SIZE :: nat where
  "HASHTABLE_SIZE = 2 ^ 22"

text \<open>The array of chains; a chain is the list of the hashes in its nodes.\<close>

type_synonym table = "nat \<Rightarrow> bytes list"

definition HashSet_new :: table where
  "HashSet_new = (\<lambda>n. [])"

text \<open>
  \<open>*(const size_t *)h % HASHTABLE_SIZE\<close>, for a little-endian machine with a 64-bit
  \<open>size_t\<close>.
\<close>

definition hash_bucket :: "bytes \<Rightarrow> nat" where
  "hash_bucket h = (\<Sum>i \<leftarrow> [0..<8]. unat (h ! i) * 256 ^ i) mod HASHTABLE_SIZE"

text \<open>The search loop: where in the chain it stops; the empty list is the null pointer.\<close>

fun find_node :: "bytes \<Rightarrow> bytes list \<Rightarrow> bytes list" where
  "find_node h [] = []"
| "find_node h (np # rest) = (if h \<noteq> np then find_node h rest else np # rest)"

definition HashSet_insert :: "bytes \<Rightarrow> table \<Rightarrow> table" where
  "HashSet_insert h nodes =
     (let n = hash_bucket h
      in if find_node h (nodes n) = [] then nodes(n := h # nodes n) else nodes)"

definition HashSet_has :: "bytes \<Rightarrow> table \<Rightarrow> bool" where
  "HashSet_has h nodes = (find_node h (nodes (hash_bucket h)) \<noteq> [])"

text \<open>The counters of \<open>stats\<close>: nodes, nonempty buckets, longest chain.\<close>

fun stats_step :: "bytes list \<Rightarrow> nat \<times> nat \<times> nat \<Rightarrow> nat \<times> nat \<times> nat" where
  "stats_step chain (nnodes, nonemptybuckets, maxchain) =
     (if chain \<noteq> [] then
        (nnodes + length chain, nonemptybuckets + 1,
         if length chain > maxchain then length chain else maxchain)
      else (nnodes, nonemptybuckets, maxchain))"

definition HashSet_stats :: "table \<Rightarrow> nat \<times> nat \<times> nat" where
  "HashSet_stats nodes = fold (\<lambda>n. stats_step (nodes n)) [0..<HASHTABLE_SIZE] (0, 0, 0)"

section \<open>Interface: a set of hashes\<close>

text \<open>
  What the comments in the class declaration promise: \<open>insert\<close> "if it is not already
  present", \<open>has\<close> is "true if present".
\<close>

locale hash_set =
  fixes new :: "'t"
    and ins :: "'a \<Rightarrow> 't \<Rightarrow> 't"
    and has :: "'a \<Rightarrow> 't \<Rightarrow> bool"
    and elems :: "'t \<Rightarrow> 'a set"
    and invar :: "'t \<Rightarrow> bool"
    and valid :: "'a \<Rightarrow> bool"
  assumes new_ok: "invar new" "elems new = {}"
    and ins_ok: "invar t \<Longrightarrow> valid x \<Longrightarrow> invar (ins x t)"
    and ins_elems: "invar t \<Longrightarrow> valid x \<Longrightarrow> elems (ins x t) = insert x (elems t)"
    and has_elems: "invar t \<Longrightarrow> valid x \<Longrightarrow> has x t \<longleftrightarrow> x \<in> elems t"
begin

lemma fold_ins_ok:
  "invar t \<Longrightarrow> \<forall>x \<in> set xs. valid x \<Longrightarrow> invar (fold ins xs t) \<and> elems (fold ins xs t) = elems t \<union> set xs"
  by (induction xs arbitrary: t) (auto simp: ins_ok ins_elems)

lemma has_fold_ins:
  "\<forall>x \<in> set xs. valid x \<Longrightarrow> valid y \<Longrightarrow> has y (fold ins xs new) \<longleftrightarrow> y \<in> set xs"
  using fold_ins_ok [OF new_ok(1), of xs] new_ok(2) by (simp add: has_elems)

lemma ins_idem: "invar t \<Longrightarrow> valid x \<Longrightarrow> elems (ins x (ins x t)) = elems (ins x t)"
  by (simp add: ins_ok ins_elems)

end

section \<open>The table is a set\<close>

definition table_elems :: "table \<Rightarrow> bytes set" where
  "table_elems nodes = (\<Union>n. set (nodes n))"

definition table_ok :: "table \<Rightarrow> bool" where
  "table_ok nodes \<longleftrightarrow> (\<forall>n. distinct (nodes n) \<and> (\<forall>h \<in> set (nodes n). hash_bucket h = n))"

lemma find_node_Nil [simp]: "find_node h chain = [] \<longleftrightarrow> h \<notin> set chain"
  by (induction chain) auto

lemma hash_bucket_less: "hash_bucket h < HASHTABLE_SIZE"
  by (simp add: hash_bucket_def HASHTABLE_SIZE_def)

lemma table_okD: "table_ok nodes \<Longrightarrow> h \<in> set (nodes n) \<Longrightarrow> hash_bucket h = n"
  by (simp add: table_ok_def)

lemma table_ok_distinct: "table_ok nodes \<Longrightarrow> distinct (nodes n)"
  by (simp add: table_ok_def)

lemma table_elems_bucket: "table_ok nodes \<Longrightarrow> h \<in> table_elems nodes \<longleftrightarrow> h \<in> set (nodes (hash_bucket h))"
  using table_okD by (auto simp: table_elems_def)

lemma table_elems_insert: "table_elems (HashSet_insert h nodes) = insert h (table_elems nodes)"
  by (auto simp: table_elems_def HashSet_insert_def Let_def split: if_splits)

lemma table_ok_insert: "table_ok nodes \<Longrightarrow> table_ok (HashSet_insert h nodes)"
  unfolding table_ok_def HashSet_insert_def Let_def by simp

lemma HashSet_new_ok: "table_ok HashSet_new" "table_elems HashSet_new = {}"
  by (simp_all add: HashSet_new_def table_ok_def table_elems_def)

interpretation hashes: hash_set HashSet_new HashSet_insert HashSet_has table_elems table_ok "\<lambda>h. True"
  by unfold_locales
    (simp_all add: HashSet_new_ok table_ok_insert table_elems_insert HashSet_has_def table_elems_bucket)

section \<open>Statistics\<close>

lemma stats_step_eq:
  "stats_step chain (a, b, c) = (a + length chain, b + (if chain = [] then 0 else 1), max (length chain) c)"
  by (auto simp: max_def)

declare stats_step.simps [simp del]

lemma stats_fold:
  "fold (\<lambda>n. stats_step (nodes n)) ns (a, b, c) =
     (a + (\<Sum>n \<leftarrow> ns. length (nodes n)), b + length (filter (\<lambda>n. nodes n \<noteq> []) ns),
      fold max (map (\<lambda>n. length (nodes n)) ns) c)"
  by (induction ns arbitrary: a b c) (simp_all add: stats_step_eq)

lemma table_elems_below:
  assumes "table_ok nodes"
  shows "table_elems nodes = (\<Union>n < HASHTABLE_SIZE. set (nodes n))"
proof -
  have "n < HASHTABLE_SIZE" if "h \<in> set (nodes n)" for h n
    using table_okD [OF assms that] hash_bucket_less [of h] by simp
  then show ?thesis by (auto simp: table_elems_def)
qed

lemma HashSet_stats_counts:
  assumes "table_ok nodes"
  shows "fst (HashSet_stats nodes) = card (table_elems nodes)"
proof -
  have "set (nodes i) \<inter> set (nodes j) = {}" if "i \<noteq> j" for i j
    unfolding disjoint_iff using that table_okD [OF assms] by metis
  then have "card (table_elems nodes) = (\<Sum>n < HASHTABLE_SIZE. card (set (nodes n)))"
    unfolding table_elems_below [OF assms] by (intro card_UN_disjoint) simp_all
  also have "\<dots> = (\<Sum>n < HASHTABLE_SIZE. length (nodes n))"
    using assms by (intro sum.cong refl) (simp add: table_ok_distinct distinct_card)
  also have "\<dots> = (\<Sum>n \<leftarrow> [0..<HASHTABLE_SIZE]. length (nodes n))"
    by (simp add: sum_list_distinct_conv_sum_set atLeast0LessThan)
  finally show ?thesis by (simp add: HashSet_stats_def stats_fold)
qed

lemma HashSet_stats_longest:
  "snd (snd (HashSet_stats nodes)) = Max (insert 0 ((\<lambda>n. length (nodes n)) ` {..<HASHTABLE_SIZE}))"
  using Max.set_eq_fold [of 0 "map (\<lambda>n. length (nodes n)) [0..<HASHTABLE_SIZE]"]
  by (simp only: HashSet_stats_def stats_fold snd_conv) (simp add: atLeast0LessThan)

end
