(* ===== verification/Cleanup.thy ===== *)
theory Cleanup
  imports Verify HashSet
begin

text \<open>
  \<open>do_clean\<close> and \<open>clean_recurse\<close> of cleanup.cc: the hashes of all live indexes are
  collected in a \<open>HashSet\<close>, then the tree of hashed files is walked and what is not needed is
  listed or deleted. Nothing is deleted unless every index could be read to its end mark; then exactly
  the files that are not needed go.
\<close>

section \<open>Collecting the needed hashes\<close>

definition clean_entry :: "details \<Rightarrow> table \<Rightarrow> 'z diag_scheme \<Rightarrow> (exn + table) \<times> 'z diag_scheme" where
  "clean_entry details needed =
     (case getdetail details HASH_NAME of
        Some hash \<Rightarrow> andThen (hashdecode hash) (\<lambda>h. ret (HashSet_insert h needed))
      | None \<Rightarrow> ret needed)"

text \<open>
  The three inner catch clauses: the index is bad. (What it put into \<open>needed\<close> before is of no
  consequence, since bad indexes end the program before \<open>needed\<close> is used.)
\<close>

fun bad_index :: "libc \<Rightarrow> table \<Rightarrow> exn + table \<Rightarrow> ('z diag_scheme, table \<times> bool) prog" where
  "bad_index lc needed (Inl (BadHex t)) s = (Inr (needed, True), s)"
| "bad_index lc needed (Inl BadHexDigit) s = (Inr (needed, True), s)"
| "bad_index lc needed (Inl (BadIndexFile t)) s =
     (Inr (needed, True), error (the (what lc (BadIndexFile t))) s)"
| "bad_index lc needed (Inl e) s = (Inl e, s)"
| "bad_index lc needed (Inr needed') s = (Inr (needed', False), s)"

definition clean_index ::
  "libc \<Rightarrow> ('d, 'w) filesystem \<Rightarrow> memory \<Rightarrow> options \<Rightarrow> string \<Rightarrow> table \<Rightarrow>
     (('w, 'z) globals_scheme, table \<times> bool) prog" where
  "clean_index lc backupfs mem opts arg needed s =
     andThen (in_world (fs_open backupfs arg ReadOnly))
       (\<lambda>d s.
          case index_loop (file_readbytes backupfs) clean_entry (File (mem_buffer mem) d) needed s of
            None \<Rightarrow> (Inl Diverges, s)
          | Some (r, f, s') \<Rightarrow>
              (case bad_index lc needed r s' of
                 (r', s'') \<Rightarrow> closing (in_world (delete_File backupfs f (dev f))) r' s''))
       (note_if (verbose opts) (''checking '' @ arg) s)"

text \<open>The loop over the arguments; \<open>badfiles\<close> in the order found.\<close>

fun clean_indexes ::
  "libc \<Rightarrow> ('d, 'w) filesystem \<Rightarrow> memory \<Rightarrow> options \<Rightarrow> string list \<Rightarrow> table \<Rightarrow> string list \<Rightarrow>
     (('w, 'z) globals_scheme, table \<times> string list) prog" where
  "clean_indexes lc backupfs mem opts [] needed badfiles s = (Inr (needed, badfiles), s)"
| "clean_indexes lc backupfs mem opts (arg # argv) needed badfiles s =
     andThen (clean_index lc backupfs mem opts arg needed)
       (\<lambda>(needed', bad). clean_indexes lc backupfs mem opts argv needed'
          (if bad then badfiles @ [arg] else badfiles)) s"

section \<open>Walking the repository\<close>

text \<open>
  \<open>keep\<close>, with the \<open>catch(...)\<close> that takes whatever goes wrong for "not a valid hash".
\<close>

definition clean_keep ::
  "('fd, 'w) posix \<Rightarrow> ('d, 'w) filesystem \<Rightarrow> memory \<Rightarrow> options \<Rightarrow> table \<Rightarrow> string \<Rightarrow> path \<Rightarrow>
     (('w, 'z) globals_scheme, bool) prog" where
  "clean_keep sys backupfs mem opts needed name fullname =
     catching
       (andThen (hashdecode name)
          (\<lambda>h. let keep = HashSet_has h needed
               in if detectbogus opts then
                    andThen (hashfile sys backupfs (mem_context mem) (mem_buffer mem) fullname False)
                      (\<lambda>actual_hash. ret (if actual_hash \<noteq> h then False else keep))
                  else ret keep))
       (\<lambda>e. if catchable e then Some (ret False) else None)"

definition clean_file ::
  "libc \<Rightarrow> ('fd, 'w) posix \<Rightarrow> ('d, 'w) filesystem \<Rightarrow> memory \<Rightarrow> options \<Rightarrow> table \<Rightarrow> string \<Rightarrow> path \<Rightarrow>
     (('w, 'z) globals_scheme, nat) prog" where
  "clean_file lc sys backupfs mem opts needed name fullname =
     andThen (clean_keep sys backupfs mem opts needed name fullname)
       (\<lambda>keep.
          if \<not> keep then
            andThen
              (if deleteclean opts then
                 catching (in_world (fs_remove backupfs fullname))
                   (\<lambda>e. if file_error e \<noteq> None then Some (\<lambda>s. (Inr (), error (the (what lc e)) s)) else None)
               else (\<lambda>s. (Inr (), to_stdout (c_str fullname) s)))
              (\<lambda>_. ret 1)
          else ret 0)"

text \<open>
  The recursion over directories, with fuel for its depth: 0 fuel stands for not returning. The loop
  over the files of a directory is the other function.
\<close>

function (sequential) clean_recurse ::
  "libc \<Rightarrow> ('fd, 'w) posix \<Rightarrow> ('d, 'w) filesystem \<Rightarrow> memory \<Rightarrow> options \<Rightarrow> table \<Rightarrow> nat \<Rightarrow> path \<Rightarrow>
     (('w, 'z) globals_scheme, nat) prog"
and clean_loop ::
  "libc \<Rightarrow> ('fd, 'w) posix \<Rightarrow> ('d, 'w) filesystem \<Rightarrow> memory \<Rightarrow> options \<Rightarrow> table \<Rightarrow> nat \<Rightarrow> path \<Rightarrow> string list \<Rightarrow> nat \<Rightarrow>
     (('w, 'z) globals_scheme, nat) prog" where
  "clean_recurse lc sys fs mem opts needed 0 path s = (Inl Diverges, s)"
| "clean_recurse lc sys fs mem opts needed (Suc n) path s =
     andThen (in_world (fs_contents fs path))
       (\<lambda>files. clean_loop lc sys fs mem opts needed n path files 0) s"
| "clean_loop lc sys fs mem opts needed n path [] deleted s = (Inr deleted, s)"
| "clean_loop lc sys fs mem opts needed n path (name # files) deleted s =
     (let fullname = path @ ''/'' @ name
      in andThen (in_world (fs_type fs fullname))
           (\<lambda>ty. case ty of
              RegularFile \<Rightarrow>
                andThen (clean_file lc sys fs mem opts needed name fullname)
                  (\<lambda>k. clean_loop lc sys fs mem opts needed n path files (deleted + k))
            | Directory \<Rightarrow>
                andThen (clean_recurse lc sys fs mem opts needed n fullname)
                  (\<lambda>k. clean_loop lc sys fs mem opts needed n path files (deleted + k))
            | _ \<Rightarrow> clean_loop lc sys fs mem opts needed n path files deleted) s)"
  by pat_completeness auto
termination
  by (relation "measures [\<lambda>x. case x of Inl (_, _, _, _, _, _, n, _) \<Rightarrow> n | Inr (_, _, _, _, _, _, n, _) \<Rightarrow> n,
      \<lambda>x. case x of Inl _ \<Rightarrow> 0 | Inr (_, _, _, _, _, _, _, _, files, _) \<Rightarrow> Suc (length files)]") auto

section \<open>The operation\<close>

definition stats_lines :: "libc \<Rightarrow> table \<Rightarrow> string list" where
  "stats_lines lc needed =
     (case HashSet_stats needed of (nnodes, nonemptybuckets, maxchain) \<Rightarrow>
        [''Nodes in hash:              '' @ decimal nnodes,
         ''Nonempty hash buckets:      '' @ decimal nonemptybuckets,
         ''Mean nonempty chain length: '' @ format_g lc nnodes nonemptybuckets,
         ''Maximum chain length:       '' @ decimal maxchain])"

definition do_clean ::
  "libc \<Rightarrow> ('fd, 'w) posix \<Rightarrow> ('d, 'w) filesystem \<Rightarrow> memory \<Rightarrow> options \<Rightarrow> nat \<Rightarrow> string list \<Rightarrow>
     (('w, 'z) globals_scheme, unit) prog" where
  "do_clean lc sys backupfs mem opts fuel argv =
     (if repo opts = '''' then fatal ''no repository specified''
      else if argv = [] then fatal ''no index files specified''
      else
        andThen (clean_indexes lc backupfs mem opts argv HashSet_new [])
          (\<lambda>(needed, badfiles) s.
             if badfiles \<noteq> [] then
               fatal (decimal (length badfiles) @ '' bad input files'') (fold to_stderr badfiles s)
             else
               let s1 = (if verbose opts then fold to_stderr (stats_lines lc needed) s else s);
                   s2 = note_if (verbose opts) ''looking for obsolete files'' s1
               in andThen (clean_recurse lc sys backupfs mem opts needed fuel (repo opts @ ''/'' @ HASH_NAME))
                    (\<lambda>deleted s. (Inr (),
                       note_if (verbose opts) (''found '' @ decimal deleted @ '' obsolete files'') s)) s2))"

declare clean_recurse.simps [simp del] clean_loop.simps [simp del]

section \<open>Reading the indexes\<close>

definition index_hash :: "details \<Rightarrow> bytes option" where
  "index_hash l = (case l HASH_NAME of None \<Rightarrow> None | Some t \<Rightarrow> hash_of_text t)"

text \<open>The hashes an index keeps alive; \<open>None\<close> for an index that is bad.\<close>

definition live_hashes :: "bytes \<Rightarrow> bytes set option" where
  "live_hashes bs =
     (case index_details bs of
        None \<Rightarrow> None
      | Some ls \<Rightarrow>
          if \<forall>l \<in> set ls. l HASH_NAME \<noteq> None \<longrightarrow> index_hash l \<noteq> None
          then Some (set (List.map_filter index_hash ls)) else None)"

lemma clean_entry_cases:
  "clean_entry l t s =
     (case l HASH_NAME of
        None \<Rightarrow> (Inr t, s)
      | Some hash \<Rightarrow> andThen (hashdecode hash) (\<lambda>h. ret (HashSet_insert h t)) s)"
  by (simp add: clean_entry_def getdetail_def split: option.split)

lemma clean_entries_good:
  "\<forall>l \<in> set ls. l HASH_NAME \<noteq> None \<longrightarrow> index_hash l \<noteq> None \<Longrightarrow>
     for_entries clean_entry ls t s = (Inr (fold HashSet_insert (List.map_filter index_hash ls) t), s)"
proof (induction ls arbitrary: t)
  case (Cons l ls)
  show ?case
  proof (cases "l HASH_NAME")
    case None
    then show ?thesis using Cons by (simp add: clean_entry_cases index_hash_def map_filter_simps)
  next
    case (Some x)
    then obtain h where h: "hash_of_text x = Some h" using Cons.prems by (auto simp: index_hash_def)
    then have "index_hash l = Some h" using Some by (simp add: index_hash_def)
    then show ?thesis using Cons Some hash_of_text_Some(1) [OF h, of s]
      by (simp add: clean_entry_cases map_filter_simps)
  qed
qed (simp add: map_filter_simps)

lemma clean_entries_bad:
  "\<exists>l \<in> set ls. l HASH_NAME \<noteq> None \<and> index_hash l = None \<Longrightarrow>
     \<exists>e s'. for_entries clean_entry ls t s = (Inl e, s')"
proof (induction ls arbitrary: t s)
  case (Cons l ls)
  show ?case
  proof (cases "l HASH_NAME")
    case None
    then show ?thesis using Cons by (auto simp: clean_entry_cases)
  next
    case (Some x)
    show ?thesis
    proof (cases "hash_of_text x")
      case None
      obtain e s' where "hashdecode x s = (Inl e, s')" by (rule hash_of_text_None [OF None])
      then show ?thesis using Some by (simp add: clean_entry_def getdetail_def)
    next
      case h: (Some h)
      then have "\<exists>l \<in> set ls. l HASH_NAME \<noteq> None \<and> index_hash l = None"
        using Cons.prems Some by (auto simp: index_hash_def)
      then show ?thesis
        using Cons.IH [of "HashSet_insert h t" s] Some hash_of_text_Some(1) [OF h, of s]
        by (simp add: clean_entry_cases)
    qed
  qed
qed simp

lemma clean_entry_outcome:
  "outcome (\<lambda>e s'. bad_index_exn e \<and> noted s s') (\<lambda>t' s'. s' = s) (clean_entry l t s)"
proof (cases "l HASH_NAME")
  case None
  then show ?thesis by (simp add: clean_entry_cases)
next
  case (Some x)
  show ?thesis
  proof (cases "hash_of_text x")
    case None
    obtain e s' where "hashdecode x s = (Inl e, s')" "e = BadHex x \<or> e = BadHexDigit" "noted s s'"
      by (rule hash_of_text_None [OF None])
    then show ?thesis using Some by (auto simp: clean_entry_cases)
  next
    case h: (Some h)
    then show ?thesis using Some hash_of_text_Some(1) [OF h, of s] by (simp add: clean_entry_cases)
  qed
qed

text \<open>The loop over one index: its hashes go in, or an exception that the handlers know.\<close>

lemma clean_index_text:
  assumes "for_index clean_entry bs t s = (r, s')"
  shows "case live_hashes bs of
     Some H \<Rightarrow> \<exists>hs. set hs = H \<and> r = Inr (fold HashSet_insert hs t) \<and> s' = s
   | None \<Rightarrow> \<exists>e. r = Inl e \<and> bad_index_exn e \<and> noted s s'"
proof -
  have "outcome (\<lambda>e s'. bad_index_exn e \<and> noted s s') (\<lambda>t' s'. s' = s) (for_index clean_entry bs t s)"
    by (rule for_index_outcome) (use clean_entry_outcome in auto)
  then have o: "outcome (\<lambda>e s'. bad_index_exn e \<and> noted s s') (\<lambda>t' s'. s' = s) (r, s')"
    by (simp only: assms)
  show ?thesis
  proof (cases "live_hashes bs")
    case None
    have "\<exists>e s'. for_index clean_entry bs t s = (Inl e, s')"
    proof (cases "index_details bs")
      case None
      then show ?thesis by (rule index_details_bad)
    next
      case (Some ls)
      then have "\<exists>l \<in> set ls. l HASH_NAME \<noteq> None \<and> index_hash l = None"
        using None by (auto simp: live_hashes_def split: if_splits)
      then show ?thesis unfolding index_details_good [OF Some] by (rule clean_entries_bad)
    qed
    then show ?thesis using None o assms by auto
  next
    case (Some H)
    then obtain ls where ls: "index_details bs = Some ls"
        "\<forall>l \<in> set ls. l HASH_NAME \<noteq> None \<longrightarrow> index_hash l \<noteq> None" "H = set (List.map_filter index_hash ls)"
      by (auto simp: live_hashes_def split: option.splits if_splits)
    then show ?thesis
      using assms clean_entries_good [OF ls(2), of t s] Some by (auto simp: index_details_good [OF ls(1)])
  qed
qed

lemma world_error_simps [simp]:
  "world (note_if v line s) = world s" "world (error msg s) = world s"
  "stdout_lines (note_if v line s) = stdout_lines s" "stdout_lines (error msg s) = stdout_lines s"
  by (simp_all add: note_if_def)

lemma bad_index_bad:
  "bad_index_exn e \<Longrightarrow> \<exists>s'. bad_index lc t (Inl e) s = (Inr (t, True), s') \<and> (s' = s \<or> (\<exists>m. s' = error m s))"
  by (cases e) auto


context file_store begin

lemma clean_index_ok:
  assumes "memory_ok mem" "plain_path arg" "view (world s) (resolve arg) = Regular bs" "table_ok t"
  shows "\<exists>t' s'. clean_index lc fs mem opts arg t s = (Inr (t', live_hashes bs = None), s') \<and>
    view (world s') = view (world s) \<and> stdout_lines s' = stdout_lines s \<and> table_ok t' \<and>
    (\<forall>H. live_hashes bs = Some H \<longrightarrow> table_elems t' = table_elems t \<union> H)"
proof -
  let ?s = "note_if (verbose opts) (''checking '' @ arg) s"
  obtain d w1 where d: "fs_open fs arg ReadOnly (world s) = (Inr d, w1)" "remaining d = bs" "view w1 = view (world s)"
    using open_found [OF assms(2,3)] by blast
  let ?f = "File (mem_buffer mem) d" and ?s1 = "?s\<lparr>world := w1\<rparr>"
  have ok: "reader_ok ?f" using assms(1) by (simp add: memory_ok_def File_reader_ok)
  obtain r f s2 where l: "index_loop (file_readbytes fs) clean_entry ?f t ?s1 = Some (r, f, s2)"
      "for_index clean_entry bs t ?s1 = (r, s2)" "reader_ok f"
    using index_loop_refines [OF ok, of clean_entry t ?s1] d(2) by auto
  have run: "clean_index lc fs mem opts arg t s =
      (case bad_index lc t r s2 of (r', s'') \<Rightarrow> closing (in_world (delete_File fs f (dev f))) r' s'')"
    using d(1) l(1) by (simp add: clean_index_def in_world_def andThen_def)
  have m: "mode f \<noteq> Writing" using l(3) reader_ok_def by blast
  have del: "\<exists>w'. closing (in_world (delete_File fs f (dev f))) (Inr x) s3 = (Inr x, s3\<lparr>world := w'\<rparr>) \<and>
      view w' = view (world s3)" for x s3
    using delete_reader [OF m, of "dev f" "world s3"] by (auto simp: closing_def in_world_def andThen_def)
  show ?thesis
  proof (cases "live_hashes bs")
    case None
    then obtain e where e: "r = Inl e" "bad_index_exn e" "noted ?s1 s2"
      using clean_index_text [OF l(2)] by auto
    obtain s3 where s3: "bad_index lc t r s2 = (Inr (t, True), s3)" "s3 = s2 \<or> (\<exists>m. s3 = error m s2)"
      using bad_index_bad [OF e(2), of lc t s2] e(1) by auto
    have "world s3 = w1" "stdout_lines s3 = stdout_lines s" using s3(2) e(3) by (auto simp: noted_def)
    then show ?thesis using del [of "(t, True)" s3] run s3(1) None d(3) assms(4) by auto
  next
    case (Some H)
    then obtain hs where hs: "set hs = H" "r = Inr (fold HashSet_insert hs t)" "s2 = ?s1"
      using clean_index_text [OF l(2)] by auto
    have fold: "table_ok (fold HashSet_insert hs t) \<and> table_elems (fold HashSet_insert hs t) = table_elems t \<union> set hs"
      using hashes.fold_ins_ok [OF assms(4)] by simp
    obtain w' where "clean_index lc fs mem opts arg t s = (Inr (fold HashSet_insert hs t, False), s2\<lparr>world := w'\<rparr>)"
        "view w' = view (world s2)"
      using del [of "(fold HashSet_insert hs t, False)" s2] run hs(2) by auto
    then show ?thesis using Some fold hs(1,3) d(3) by auto
  qed
qed

text \<open>All the arguments: \<open>badfiles\<close> are the bad ones, the table has the hashes of the others.\<close>

lemma clean_indexes_ok:
  assumes "memory_ok mem" "\<forall>arg \<in> set argv. plain_path arg \<and> view (world s) (resolve arg) = Regular (idx arg)"
    and "table_ok t"
  shows "\<exists>t' s'. clean_indexes lc fs mem opts argv t bad s =
      (Inr (t', bad @ filter (\<lambda>arg. live_hashes (idx arg) = None) argv), s') \<and>
    view (world s') = view (world s) \<and> stdout_lines s' = stdout_lines s \<and> table_ok t' \<and>
    ((\<forall>arg \<in> set argv. live_hashes (idx arg) \<noteq> None) \<longrightarrow>
       table_elems t' = table_elems t \<union> (\<Union>arg \<in> set argv. the (live_hashes (idx arg))))"
  using assms(2,3)
proof (induction argv arbitrary: t s bad)
  case (Cons arg argv)
  obtain t1 s1 where 1: "clean_index lc fs mem opts arg t s = (Inr (t1, live_hashes (idx arg) = None), s1)"
      "view (world s1) = view (world s)" "stdout_lines s1 = stdout_lines s" "table_ok t1"
      "\<forall>H. live_hashes (idx arg) = Some H \<longrightarrow> table_elems t1 = table_elems t \<union> H"
    using clean_index_ok [OF assms(1), of arg s "idx arg" t lc opts] Cons.prems by auto
  let ?bad = "if live_hashes (idx arg) = None then bad @ [arg] else bad"
  have pre: "\<forall>arg \<in> set argv. plain_path arg \<and> view (world s1) (resolve arg) = Regular (idx arg)"
    using Cons.prems(1) 1(2) by simp
  obtain t2 s2 where 2: "clean_indexes lc fs mem opts argv t1 ?bad s1 =
      (Inr (t2, ?bad @ filter (\<lambda>arg. live_hashes (idx arg) = None) argv), s2)"
      "view (world s2) = view (world s1)" "stdout_lines s2 = stdout_lines s1" "table_ok t2"
      "(\<forall>arg \<in> set argv. live_hashes (idx arg) \<noteq> None) \<longrightarrow>
         table_elems t2 = table_elems t1 \<union> (\<Union>arg \<in> set argv. the (live_hashes (idx arg)))"
    using Cons.IH [OF pre 1(4), of ?bad] by blast
  show ?case using 1 2 by (intro exI [of _ t2] exI [of _ s2]) auto
qed simp

text \<open>One bad index, and nothing is removed.\<close>

lemma do_clean_bad:
  assumes "memory_ok mem" "\<forall>arg \<in> set argv. plain_path arg \<and> view (world s) (resolve arg) = Regular (idx arg)"
    and "\<exists>arg \<in> set argv. live_hashes (idx arg) = None" "repo opts \<noteq> ''''"
  shows "\<exists>msg s'. do_clean lc sys fs mem opts fuel argv s = (Inl (Fatal msg), s') \<and>
    view (world s') = view (world s)"
proof -
  obtain t' s' where *: "clean_indexes lc fs mem opts argv HashSet_new [] s =
      (Inr (t', filter (\<lambda>arg. live_hashes (idx arg) = None) argv), s')"
      "view (world s') = view (world s)"
    using clean_indexes_ok [OF assms(1,2) HashSet_new_ok(1), of lc opts "[]"] by auto
  have "filter (\<lambda>arg. live_hashes (idx arg) = None) argv \<noteq> []" "argv \<noteq> []"
    using assms(3) by (auto simp: filter_empty_conv)
  moreover have "world (fold to_stderr lines s') = world s'" for lines
    by (induction lines arbitrary: s') simp_all
  ultimately show ?thesis using * assms(4) by (simp add: do_clean_def fatal_def)
qed

end

section \<open>What the walk removes\<close>

text \<open>
  A file in the hash tree is kept if its name is the text of a needed hash and, with
  \<open>--detect-bogus\<close>, its contents have that hash.
\<close>

definition kept :: "options \<Rightarrow> bytes set \<Rightarrow> string \<Rightarrow> bytes \<Rightarrow> bool" where
  "kept opts live name bs \<longleftrightarrow>
     (\<exists>h. hash_of_text name = Some h \<and> h \<in> live \<and> (detectbogus opts \<longrightarrow> sha1 bs = h))"

definition child :: "place \<Rightarrow> string list \<Rightarrow> place" where
  "child k c = (fst k, snd k @ c)"

text \<open>A way down from \<open>k\<close> that goes through directories.\<close>

definition reach :: "(place \<Rightarrow> entry) \<Rightarrow> place \<Rightarrow> string list \<Rightarrow> bool" where
  "reach v k c \<longleftrightarrow>
     c \<noteq> [] \<and> list_all plain_name c \<and> (\<forall>j < length c. v (child k (take j c)) = Folder)"

definition garbage :: "(place \<Rightarrow> entry) \<Rightarrow> (string \<Rightarrow> bytes \<Rightarrow> bool) \<Rightarrow> place \<Rightarrow> place set" where
  "garbage v K k = {q. \<exists>c bs. q = child k c \<and> reach v k c \<and> v q = Regular bs \<and> \<not> K (last c) bs}"

text \<open>Directories are nested at most \<open>n\<close> deep below \<open>k\<close>, itself included.\<close>

definition depth_below :: "(place \<Rightarrow> entry) \<Rightarrow> place \<Rightarrow> nat \<Rightarrow> bool" where
  "depth_below v k n \<longleftrightarrow> (\<forall>c. (\<forall>j \<le> length c. v (child k (take j c)) = Folder) \<longrightarrow> length c < n)"

lemma child_Nil [simp]: "child k [] = k"
  by (simp add: child_def)

lemma child_child [simp]: "child (child k c) d = child k (c @ d)"
  by (simp add: child_def)

lemma child_eq [simp]: "child k c = child k d \<longleftrightarrow> c = d"
  by (simp add: child_def)

lemma reach_Cons:
  assumes "v k = Folder"
  shows "reach v k (n # c) \<longleftrightarrow>
    plain_name n \<and> (c = [] \<or> v (child k [n]) = Folder \<and> reach v (child k [n]) c)"
proof -
  have "(\<forall>j < Suc (length c). v (child k (take j (n # c))) = Folder) \<longleftrightarrow>
      (\<forall>j < length c. v (child k (n # take j c)) = Folder)"
    using assms by (auto simp: less_Suc_eq_0_disj)
  moreover have "v (child k [n]) = Folder" if "\<forall>j < length c. v (child k (n # take j c)) = Folder" "c \<noteq> []"
    using that(1) [rule_format, of 0] that(2) by simp
  ultimately show ?thesis by (auto simp: reach_def)
qed

text \<open>The part of the garbage that is at or below one name.\<close>

definition part :: "(place \<Rightarrow> entry) \<Rightarrow> (string \<Rightarrow> bytes \<Rightarrow> bool) \<Rightarrow> place \<Rightarrow> string \<Rightarrow> place set" where
  "part v K k n =
     (case v (child k [n]) of
        Regular bs \<Rightarrow> if K n bs then {} else {child k [n]}
      | Folder \<Rightarrow> garbage v K (child k [n])
      | _ \<Rightarrow> {})"

lemma garbage_parts:
  assumes "v k = Folder"
  shows "garbage v K k = (\<Union>n \<in> {n. plain_name n \<and> v (child k [n]) \<noteq> Absent}. part v K k n)"
proof (rule set_eqI)
  fix q
  show "q \<in> garbage v K k \<longleftrightarrow> q \<in> (\<Union>n \<in> {n. plain_name n \<and> v (child k [n]) \<noteq> Absent}. part v K k n)"
  proof
    assume "q \<in> garbage v K k"
    then obtain c bs where c: "q = child k c" "reach v k c" "v q = Regular bs" "\<not> K (last c) bs"
      by (auto simp: garbage_def)
    then obtain n d where n: "c = n # d" by (cases c) (auto simp: reach_def)
    with c(2) assms have r: "plain_name n" "d = [] \<or> v (child k [n]) = Folder \<and> reach v (child k [n]) d"
      by (simp_all add: reach_Cons)
    have "q \<in> part v K k n \<and> v (child k [n]) \<noteq> Absent"
    proof (cases "d = []")
      case True
      then show ?thesis using c n by (auto simp: part_def)
    next
      case False
      then have "q \<in> garbage v K (child k [n])" using r(2) c n by (auto simp: garbage_def)
      then show ?thesis using False r(2) by (auto simp: part_def)
    qed
    then show "q \<in> (\<Union>n \<in> {n. plain_name n \<and> v (child k [n]) \<noteq> Absent}. part v K k n)"
      using r(1) by blast
  next
    assume "q \<in> (\<Union>n \<in> {n. plain_name n \<and> v (child k [n]) \<noteq> Absent}. part v K k n)"
    then obtain n where n: "plain_name n" "q \<in> part v K k n" by blast
    show "q \<in> garbage v K k"
    proof (cases "v (child k [n])")
      case (Regular bs)
      then have q: "q = child k [n]" "\<not> K n bs" using n(2) by (auto simp: part_def split: if_splits)
      have "reach v k [n]" using n(1) assms by (simp add: reach_Cons)
      then show ?thesis using q Regular unfolding garbage_def by (auto intro!: exI [of _ "[n]"])
    next
      case Folder
      then obtain d bs where d: "q = child k (n # d)" "reach v (child k [n]) d" "v q = Regular bs" "\<not> K (last d) bs"
        using n(2) by (auto simp: part_def garbage_def)
      then have "reach v k (n # d)" using n(1) assms Folder by (simp add: reach_Cons)
      moreover have "last (n # d) = last d" using d(2) by (simp add: reach_def)
      ultimately show ?thesis using d unfolding garbage_def by (auto intro!: exI [of _ "n # d"])
    qed (use n(2) in \<open>simp_all add: part_def\<close>)
  qed
qed

lemma part_below: "q \<in> part v K k n \<Longrightarrow> \<exists>d. q = child k (n # d)"
  by (auto simp: part_def garbage_def split: entry.splits if_splits)

lemma parts_disjoint: "n \<noteq> m \<Longrightarrow> part v K k n \<inter> part v K k m = {}"
  unfolding disjoint_iff by (metis part_below child_eq list.inject)

lemma garbage_cong:
  assumes "\<And>c. v' (child k c) = v (child k c)"
  shows "garbage v' K k = garbage v K k"
  using assms by (auto simp: garbage_def reach_def)

lemma part_cong:
  assumes "\<And>d. v' (child k (n # d)) = v (child k (n # d))"
  shows "part v' K k n = part v K k n"
proof -
  have "garbage v' K (child k [n]) = garbage v K (child k [n])"
    by (rule garbage_cong) (simp add: assms)
  then show ?thesis using assms [of "[]"] by (simp add: part_def split: entry.split)
qed

lemma depth_child:
  assumes "depth_below v k (Suc n)" "v k = Folder" "v (child k [m]) = Folder"
  shows "depth_below v (child k [m]) n"
  unfolding depth_below_def
proof (intro allI impI)
  fix c assume c: "\<forall>j \<le> length c. v (child (child k [m]) (take j c)) = Folder"
  have "\<forall>j \<le> length (m # c). v (child k (take j (m # c))) = Folder"
  proof (intro allI impI)
    fix j assume "j \<le> length (m # c)"
    then show "v (child k (take j (m # c))) = Folder"
      using c assms(2) by (cases j) auto
  qed
  then have "length (m # c) < Suc n" using assms(1) unfolding depth_below_def by blast
  then show "length c < n" by simp
qed

lemma depth_without: "depth_below v k n \<Longrightarrow> depth_below (without v ks) k n"
  unfolding depth_below_def without_def by (metis entry.distinct(3))

lemma without_without: "without (without v a) b = without v (a \<union> b)"
  by (auto simp: without_def fun_eq_iff)

text \<open>
  The effect of a part of the walk that found \<open>ds\<close>: they are gone, or they are listed on the
  standard output.
\<close>

definition walked :: "options \<Rightarrow> ('w \<Rightarrow> place \<Rightarrow> entry) \<Rightarrow> ('w, 'z) globals_scheme \<Rightarrow> place list \<Rightarrow>
    ('w, 'z) globals_scheme \<Rightarrow> bool" where
  "walked opts view s ds s' \<longleftrightarrow>
     (if deleteclean opts
      then view (world s') = without (view (world s)) (set ds) \<and> stdout_lines s' = stdout_lines s
      else view (world s') = view (world s) \<and>
        (\<exists>lines. stdout_lines s' = stdout_lines s @ lines \<and> map resolve lines = ds))"

lemma walked_Nil: "view (world s') = view (world s) \<Longrightarrow> stdout_lines s' = stdout_lines s \<Longrightarrow> walked opts view s [] s'"
  by (simp add: walked_def)

lemma walked_trans: "walked opts view s ds s1 \<Longrightarrow> walked opts view s1 es s2 \<Longrightarrow> walked opts view s (ds @ es) s2"
  by (auto simp: walked_def without_without intro: exI split: if_splits)

context directory_store begin

lemma clean_keep_ok:
  assumes "memory_ok mem" "table_ok needed" "plain_path p" "view (world s) (resolve p) = Regular bs" "sha1_fits bs"
  shows "\<exists>s'. clean_keep sys fs mem opts needed name p s = (Inr (kept opts (table_elems needed) name bs), s') \<and>
    view (world s') = view (world s) \<and> stdout_lines s' = stdout_lines s"
proof (cases "hash_of_text name")
  case None
  obtain e s' where e: "hashdecode name s = (Inl e, s')" "e = BadHex name \<or> e = BadHexDigit" "noted s s'"
    by (rule hash_of_text_None [OF None])
  then have "clean_keep sys fs mem opts needed name p s = (Inr False, s')"
    by (auto simp: clean_keep_def catching_def)
  moreover have "view (world s') = view (world s)" "stdout_lines s' = stdout_lines s"
    using e(3) by (auto simp: noted_def)
  ultimately show ?thesis using None by (simp add: kept_def)
next
  case (Some h)
  have has: "HashSet_has h needed \<longleftrightarrow> h \<in> table_elems needed"
    using hashes.has_elems [OF assms(2)] by simp
  show ?thesis
  proof (cases "detectbogus opts")
    case False
    then show ?thesis using Some hash_of_text_Some(1) [OF Some, of s] has
      by (simp add: clean_keep_def catching_def kept_def)
  next
    case True
    have mem: "length (Message_Block (mem_context mem)) = 64" "length (mem_buffer mem) = BUFFER_SIZE"
      using assms(1) by (simp_all add: memory_ok_def)
    obtain w' where w': "hashfile sys fs (mem_context mem) (mem_buffer mem) p False s =
        (Inr (sha1 bs), s\<lparr>world := w', hash_read := hash_read s + 1\<rparr>)" "view w' = view (world s)"
      using hashfile_found [OF assms(3,4,5) mem, of False sys] by auto
    have "clean_keep sys fs mem opts needed name p s =
        (Inr (kept opts (table_elems needed) name bs), s\<lparr>world := w', hash_read := hash_read s + 1\<rparr>)"
      using True Some hash_of_text_Some(1) [OF Some, of s] w'(1) has
      by (auto simp: clean_keep_def catching_def kept_def andThen_def)
    then show ?thesis using w'(2) by simp
  qed
qed

lemma clean_file_ok:
  fixes opts :: options and name :: string and p :: path
  assumes "memory_ok mem" "table_ok needed" "plain_path p" "view (world s) (resolve p) = Regular bs" "sha1_fits bs"
  defines "ds \<equiv> (if kept opts (table_elems needed) name bs then [] else [resolve p])"
  shows "\<exists>s'. clean_file lc sys fs mem opts needed name p s = (Inr (length ds), s') \<and> walked opts view s ds s'"
proof -
  obtain s1 where s1: "clean_keep sys fs mem opts needed name p s = (Inr (kept opts (table_elems needed) name bs), s1)"
      "view (world s1) = view (world s)" "stdout_lines s1 = stdout_lines s"
    using clean_keep_ok [OF assms(1-5)] by blast
  show ?thesis
  proof (cases "kept opts (table_elems needed) name bs")
    case True
    then show ?thesis using s1 by (simp add: clean_file_def ds_def walked_def)
  next
    case False
    obtain w' where w': "fs_remove fs p (world s1) = (Inr (), w')" "view w' = (view (world s1))(resolve p := Absent)"
      using remove_ok [OF assms(3), of "world s1" bs] assms(4) s1(2) by auto
    have "without (view (world s)) {resolve p} = (view (world s))(resolve p := Absent)"
      by (auto simp: without_def)
    then show ?thesis using False s1 w' assms(3)
      by (cases "deleteclean opts")
        (simp_all add: clean_file_def ds_def walked_def catching_def in_world_def andThen_def to_stdout_def)
  qed
qed

end

text \<open>The state the walk needs: no file is too long for SHA-1.\<close>

definition all_hashable :: "(place \<Rightarrow> entry) \<Rightarrow> bool" where
  "all_hashable v \<longleftrightarrow> (\<forall>q bs. v q = Regular bs \<longrightarrow> sha1_fits bs)"

lemma all_hashable_without: "all_hashable v \<Longrightarrow> all_hashable (without v ks)"
  by (simp add: all_hashable_def without_def)

context directory_store begin

definition walks :: "(path \<Rightarrow> ('w, 'z) globals_scheme \<Rightarrow> (exn + nat) \<times> ('w, 'z) globals_scheme) \<Rightarrow>
    options \<Rightarrow> (string \<Rightarrow> bytes \<Rightarrow> bool) \<Rightarrow> nat \<Rightarrow> bool" where
  "walks recurse opts K n \<longleftrightarrow>
     (\<forall>p s. plain_path p \<longrightarrow> view (world s) (resolve p) = Folder \<longrightarrow>
        depth_below (view (world s)) (resolve p) n \<longrightarrow> all_hashable (view (world s)) \<longrightarrow>
        (\<exists>ds s'. recurse p s = (Inr (length ds), s') \<and> distinct ds \<and>
           set ds = garbage (view (world s)) K (resolve p) \<and> walked opts view s ds s'))"

lemma plain_child:
  assumes "plain_path p" "plain_name n"
  shows "plain_path (p @ ''/'' @ n)" "resolve (p @ ''/'' @ n) = child (resolve p) [n]"
  using plain_extend [OF assms(1), of n] assms(2) by (simp_all add: plain_name_def child_def)

text \<open>One name of the directory: the outcome of the switch in the loop.\<close>

lemma clean_step:
  fixes s :: "('w, 'z) globals_scheme"
  assumes "memory_ok mem" "table_ok needed" "plain_path p" "plain_name n"
    and "K = kept opts (table_elems needed)"
    and "walks (clean_recurse lc sys fs mem opts needed m ::
      path \<Rightarrow> ('w, 'z) globals_scheme \<Rightarrow> (exn + nat) \<times> ('w, 'z) globals_scheme) opts K m"
    and "view (world s) (resolve p) = Folder" "view (world s) (child (resolve p) [n]) \<noteq> Absent"
    and "depth_below (view (world s)) (resolve p) (Suc m)" "all_hashable (view (world s))"
  shows "\<exists>ds s'. clean_loop lc sys fs mem opts needed m p (n # files) deleted s =
      clean_loop lc sys fs mem opts needed m p files (deleted + length ds) s' \<and>
      distinct ds \<and> set ds = part (view (world s)) K (resolve p) n \<and> walked opts view s ds s'"
proof -
  let ?q = "p @ ''/'' @ n" and ?v = "view (world s)"
  note q = plain_child [OF assms(3,4)]
  obtain w1 where w1: "fs_type fs ?q (world s) = (Inr (filetype_of (?v (resolve ?q))), w1)" "view w1 = ?v"
    using type_ok [OF q(1), of "world s"] assms(8) q(2) by auto
  let ?s = "s\<lparr>world := w1\<rparr>"
  have ty: "in_world (fs_type fs ?q) s = (Inr (filetype_of (?v (resolve ?q))), ?s)"
    using w1(1) by (simp add: in_world_def)
  have from_s: "walked opts view s ds s'" if "walked opts view ?s ds s'" for ds s'
    using that w1(2) by (cases "deleteclean opts") (auto simp: walked_def)
  note unf = clean_loop.simps(2) [of lc sys fs mem opts needed m p n files deleted s]
  show ?thesis
  proof (cases "?v (child (resolve p) [n])")
    case (Regular bs)
    then have "sha1_fits bs" using assms(10) unfolding all_hashable_def by blast
    moreover have "view (world ?s) (resolve ?q) = Regular bs" using Regular w1(2) q(2) by simp
    ultimately obtain s' where s': "clean_file lc sys fs mem opts needed n ?q ?s =
        (Inr (length (if K n bs then [] else [resolve ?q])), s')"
        "walked opts view ?s (if K n bs then [] else [resolve ?q]) s'"
      using clean_file_ok [OF assms(1,2) q(1), where s = ?s and bs = bs and opts = opts and name = n and lc = lc and sys = sys]
        assms(5) by auto
    show ?thesis
      using s' from_s [OF s'(2)] ty Regular q(2)
      by (intro exI [of _ "if K n bs then [] else [resolve ?q]"] exI [of _ s'])
        (auto simp: unf Let_def part_def)
  next
    case Folder
    have vq: "view (world ?s) = ?v" "resolve ?q = child (resolve p) [n]" using w1(2) q(2) by simp_all
    obtain ds s' where d: "clean_recurse lc sys fs mem opts needed m ?q ?s = (Inr (length ds), s')"
        "distinct ds" "set ds = garbage ?v K (resolve ?q)" "walked opts view ?s ds s'"
      using assms(6) [unfolded walks_def, rule_format, of ?q ?s] q(1) Folder assms(10)
        depth_child [OF assms(9,7) Folder] vq by auto
    then show ?thesis using from_s ty Folder q(2)
      by (intro exI [of _ ds] exI [of _ s']) (auto simp: unf Let_def part_def)
  qed (use assms(8) ty q(2) w1(2) in \<open>auto simp: unf Let_def part_def walked_def intro!: exI [of _ "[]"] exI [of _ ?s]\<close>)
qed


text \<open>The loop over the names of a directory, then the directory itself.\<close>

lemma clean_loop_ok:
  fixes s :: "('w, 'z) globals_scheme"
  assumes "memory_ok mem" "table_ok needed" "plain_path p" "K = kept opts (table_elems needed)"
    and "walks (clean_recurse lc sys fs mem opts needed m ::
      path \<Rightarrow> ('w, 'z) globals_scheme \<Rightarrow> (exn + nat) \<times> ('w, 'z) globals_scheme) opts K m"
  shows "distinct files \<Longrightarrow> \<forall>n \<in> set files. plain_name n \<and> view (world s) (child (resolve p) [n]) \<noteq> Absent \<Longrightarrow>
    view (world s) (resolve p) = Folder \<Longrightarrow> depth_below (view (world s)) (resolve p) (Suc m) \<Longrightarrow>
    all_hashable (view (world s)) \<Longrightarrow>
    \<exists>ds s'. clean_loop lc sys fs mem opts needed m p files deleted s = (Inr (deleted + length ds), s') \<and>
      distinct ds \<and> set ds = (\<Union>n \<in> set files. part (view (world s)) K (resolve p) n) \<and>
      walked opts view s ds s'"
proof (induction files arbitrary: s deleted)
  case Nil
  then show ?case
    by (intro exI [of _ "[]"] exI [of _ s]) (simp add: clean_loop.simps walked_def)
next
  case (Cons n files)
  let ?k = "resolve p" and ?v = "view (world s)"
  have n: "plain_name n" "?v (child ?k [n]) \<noteq> Absent" using Cons.prems(2) by auto
  obtain ds s1 where ds: "clean_loop lc sys fs mem opts needed m p (n # files) deleted s =
        clean_loop lc sys fs mem opts needed m p files (deleted + length ds) s1"
      "distinct ds" "set ds = part ?v K ?k n" "walked opts view s ds s1"
    using clean_step [OF assms(1-3) n(1) assms(4,5) Cons.prems(3) n(2) Cons.prems(4,5)] by blast
  define v1 where "v1 = view (world s1)"
  have v1: "v1 = ?v \<or> v1 = without ?v (set ds)"
    using ds(4) by (auto simp: walked_def v1_def split: if_splits)
  have same: "v1 (child ?k c) = ?v (child ?k c)" if "c = [] \<or> hd c \<noteq> n" for c
  proof -
    have "child ?k c \<notin> set ds"
      unfolding ds(3) using part_below [of _ ?v K ?k n] that by (metis child_eq list.discI list.sel(1))
    then show ?thesis using v1 by (auto simp: without_def)
  qed
  have folder: "v1 ?k = Folder" using same [of "[]"] Cons.prems(3) by simp
  have names: "\<forall>m \<in> set files. plain_name m \<and> v1 (child ?k [m]) \<noteq> Absent"
  proof
    fix m assume m: "m \<in> set files"
    then have "m \<noteq> n" using Cons.prems(1) by auto
    then show "plain_name m \<and> v1 (child ?k [m]) \<noteq> Absent"
      using same [of "[m]"] Cons.prems(2) m by auto
  qed
  have depth: "depth_below v1 ?k (Suc m)" "all_hashable v1"
    using v1 Cons.prems(4,5) depth_without all_hashable_without by metis+
  obtain es s2 where es: "clean_loop lc sys fs mem opts needed m p files (deleted + length ds) s1 =
        (Inr (deleted + length ds + length es), s2)"
      "distinct es" "set es = (\<Union>m \<in> set files. part v1 K ?k m)" "walked opts view s1 es s2"
    using Cons.IH [of s1 "deleted + length ds"] Cons.prems(1) names folder depth unfolding v1_def by auto
  have parts: "part v1 K ?k m = part ?v K ?k m" if "m \<in> set files" for m
    using that Cons.prems(1) by (intro part_cong same) auto
  have "set es = (\<Union>m \<in> set files. part ?v K ?k m)" using es(3) parts by simp
  moreover have "set ds \<inter> (\<Union>m \<in> set files. part ?v K ?k m) = {}"
    using parts_disjoint [of n _ ?v K ?k] Cons.prems(1) ds(3) by fastforce
  ultimately show ?case
    using ds es(1,2,4) walked_trans [OF ds(4) es(4)]
    by (intro exI [of _ "ds @ es"] exI [of _ s2]) auto
qed

lemma clean_recurse_ok:
  assumes "memory_ok mem" "table_ok needed" "K = kept opts (table_elems needed)"
  shows "walks (clean_recurse lc sys fs mem opts needed m ::
    path \<Rightarrow> ('w, 'z) globals_scheme \<Rightarrow> (exn + nat) \<times> ('w, 'z) globals_scheme) opts K m"
proof (induction m)
  case 0
  have "\<not> depth_below v k 0" if "v k = Folder" for v k
    using that by (auto simp: depth_below_def intro: exI [of _ "[]"])
  then show ?case by (auto simp: walks_def)
next
  case (Suc m)
  show ?case
    unfolding walks_def
  proof (intro allI impI)
    fix p and s :: "('w, 'z) globals_scheme"
    assume p: "plain_path p" "view (world s) (resolve p) = Folder"
      "depth_below (view (world s)) (resolve p) (Suc m)" "all_hashable (view (world s))"
    let ?k = "resolve p"
    obtain names w1 where w1: "fs_contents fs p (world s) = (Inr names, w1)" "view w1 = view (world s)"
        "distinct names" "set names = {n. plain_name n \<and> view (world s) (child ?k [n]) \<noteq> Absent}"
      using contents_ok [OF p(1,2)] unfolding child_def by blast
    let ?s = "s\<lparr>world := w1\<rparr>"
    have vs: "view (world ?s) = view (world s)" using w1(2) by simp
    obtain ds s' where ds: "clean_loop lc sys fs mem opts needed m p names 0 ?s = (Inr (0 + length ds), s')"
        "distinct ds" "set ds = (\<Union>n \<in> set names. part (view (world s)) K ?k n)" "walked opts view ?s ds s'"
      using clean_loop_ok [OF assms(1,2) p(1) assms(3) Suc w1(3), of ?s 0] w1(4) p vs by auto
    have "walked opts view s ds s'"
      using ds(4) w1(2) by (cases "deleteclean opts") (auto simp: walked_def)
    then show "\<exists>ds s'. clean_recurse lc sys fs mem opts needed (Suc m) p s = (Inr (length ds), s') \<and>
        distinct ds \<and> set ds = garbage (view (world s)) K ?k \<and> walked opts view s ds s'"
      using ds(1-3) w1(1,4) garbage_parts [of "view (world s)" ?k K] p(2)
      by (intro exI [of _ ds] exI [of _ s'])
        (simp add: clean_recurse.simps in_world_def andThen_def)
  qed
qed

end


section \<open>The whole operation\<close>

lemma fold_to_stderr [simp]:
  "world (fold to_stderr lines s) = world s" "stdout_lines (fold to_stderr lines s) = stdout_lines s"
  by (induction lines arbitrary: s) simp_all

definition live :: "(string \<Rightarrow> bytes) \<Rightarrow> string list \<Rightarrow> bytes set" where
  "live idx argv = (\<Union>arg \<in> set argv. the (live_hashes (idx arg)))"

text \<open>The directory of the hashed files, and where a stored file is in it.\<close>

lemma hash_root:
  assumes "plain_path (repo opts)"
  shows "plain_path (repo opts @ ''/'' @ HASH_NAME)"
    "length h = HASH_SIZE \<Longrightarrow> hash_place opts h =
       child (resolve (repo opts @ ''/'' @ HASH_NAME)) [hexpair_of (h ! 0), hexpair_of (h ! 1), hexencode h]"
  using plain_extend [OF assms, of HASH_NAME]
  by (simp_all add: HASH_NAME_def child_def hash_place_def split: prod.split)

text \<open>A stored file that some index needs is not garbage, whatever the options.\<close>

lemma stored_not_garbage:
  assumes "plain_path (repo opts)" "length h = HASH_SIZE" "h \<in> needed" "stored opts v h"
  shows "hash_place opts h \<notin> garbage v (kept opts needed) (resolve (repo opts @ ''/'' @ HASH_NAME))"
proof
  assume "hash_place opts h \<in> garbage v (kept opts needed) (resolve (repo opts @ ''/'' @ HASH_NAME))"
  then obtain bs where "v (hash_place opts h) = Regular bs" "\<not> kept opts needed (hexencode h) bs"
    using hash_root(2) [OF assms(1,2)] by (auto simp: garbage_def)
  then show False using assms(2-4) by (auto simp: kept_def stored_def hex.decode_encode)
qed

context directory_store begin

lemma do_clean_ok:
  fixes s :: "('w, 'z) globals_scheme"
  assumes "memory_ok mem" "plain_path (repo opts)" "argv \<noteq> []"
    and "\<forall>arg \<in> set argv. plain_path arg \<and> view (world s) (resolve arg) = Regular (idx arg)"
    and "\<forall>arg \<in> set argv. live_hashes (idx arg) \<noteq> None"
    and "view (world s) (resolve (repo opts @ ''/'' @ HASH_NAME)) = Folder"
    and "depth_below (view (world s)) (resolve (repo opts @ ''/'' @ HASH_NAME)) fuel"
    and "all_hashable (view (world s))"
  shows "\<exists>ds s'. do_clean lc sys fs mem opts fuel argv s = (Inr (), s') \<and> distinct ds \<and>
    set ds = garbage (view (world s)) (kept opts (live idx argv)) (resolve (repo opts @ ''/'' @ HASH_NAME)) \<and>
    walked opts view s ds s'"
proof -
  let ?top = "repo opts @ ''/'' @ HASH_NAME" and ?K = "kept opts (live idx argv)"
  obtain t s1 where t: "clean_indexes lc fs mem opts argv HashSet_new [] s = (Inr (t, []), s1)"
      "view (world s1) = view (world s)" "table_ok t" "table_elems t = live idx argv" "stdout_lines s1 = stdout_lines s"
    using clean_indexes_ok [OF assms(1,4) HashSet_new_ok(1), of lc opts "[]"] assms(5) HashSet_new_ok(2)
    by (auto simp: live_def filter_empty_conv)
  let ?s = "note_if (verbose opts) ''looking for obsolete files''
    (if verbose opts then fold to_stderr (stats_lines lc t) s1 else s1)"
  have s: "view (world ?s) = view (world s)" "stdout_lines ?s = stdout_lines s" using t(2,5) by auto
  have "walks (clean_recurse lc sys fs mem opts t fuel ::
      path \<Rightarrow> ('w, 'z) globals_scheme \<Rightarrow> (exn + nat) \<times> ('w, 'z) globals_scheme) opts ?K fuel"
    by (rule clean_recurse_ok [OF assms(1) t(3)]) (simp only: t(4))
  then obtain ds s' where ds: "clean_recurse lc sys fs mem opts t fuel ?top ?s = (Inr (length ds), s')"
      "distinct ds" "set ds = garbage (view (world s)) ?K (resolve ?top)" "walked opts view ?s ds s'"
    unfolding walks_def using hash_root(1) [OF assms(2)] assms(6-8) s(1) by metis
  have w: "walked opts view s ds (note_if (verbose opts) line s')" for line
    using ds(4) s by (simp add: walked_def split: if_splits)
  show ?thesis
    using t(1) ds assms(2,3) w
    by (intro exI [of _ ds] exI) (auto simp: do_clean_def Let_def plain_path_def)
qed

end

end
