(* ===== verification/Hoare.thy ===== *)
theory Hoare
  imports Globals FileIO
begin

text \<open>
  Reasoning about programs with exceptions: \<open>valid P m Q E\<close> says that from a state with
  \<open>P\<close>, \<open>m\<close> either returns a value with \<open>Q\<close>, or ends in an exception
  (or does not return) with \<open>E\<close>. \<open>keeps\<close> is the case of an invariant. The rules
  of the collection \<open>keeping\<close> follow the structure of the programs.
\<close>

section \<open>Preservation\<close>

named_theorems keeping

definition keeps :: "('s \<Rightarrow> bool) \<Rightarrow> ('s, 'a) prog \<Rightarrow> bool" where
  "keeps P m \<longleftrightarrow> (\<forall>s. P s \<longrightarrow> P (snd (m s)))"

definition keeps_loop :: "('s \<Rightarrow> bool) \<Rightarrow> ('s \<Rightarrow> ((exn + 'a) \<times> 's) option) \<Rightarrow> bool" where
  "keeps_loop P l \<longleftrightarrow> (\<forall>s r s'. P s \<longrightarrow> l s = Some (r, s') \<longrightarrow> P s')"

lemma keepsD: "keeps P m \<Longrightarrow> P s \<Longrightarrow> m s = (r, s') \<Longrightarrow> P s'"
  by (metis keeps_def snd_conv)

lemma keeps_ret [keeping]: "keeps P (ret x)"
  by (simp add: keeps_def)

lemma keeps_throw [keeping]: "keeps P (throw e)"
  by (simp add: keeps_def)

lemma keeps_andThen [keeping]: "keeps P m \<Longrightarrow> (\<And>x. keeps P (f x)) \<Longrightarrow> keeps P (andThen m f)"
  by (fastforce simp: keeps_def andThen_def split: prod.split sum.split)

lemma keeps_catching [keeping]:
  "keeps P m \<Longrightarrow> (\<And>e k. h e = Some k \<Longrightarrow> keeps P k) \<Longrightarrow> keeps P (catching m h)"
  by (fastforce simp: keeps_def catching_def split: prod.split sum.split option.split)

lemma keeps_if [keeping]: "keeps P m \<Longrightarrow> keeps P n \<Longrightarrow> keeps P (if b then m else n)"
  by simp

lemma keeps_branch: "keeps P m \<Longrightarrow> keeps P n \<Longrightarrow> keeps P (\<lambda>s. if b s then m s else n s)"
  by (simp add: keeps_def)

lemma keeps_list_case:
  "keeps P n \<Longrightarrow> (\<And>x xs. keeps P (f x xs)) \<Longrightarrow> keeps P (\<lambda>s. case l s of x # xs \<Rightarrow> f x xs s | [] \<Rightarrow> n s)"
  by (simp add: keeps_def split: list.split)

lemma keeps_prod [keeping]: "(\<And>a b. keeps P (f a b)) \<Longrightarrow> keeps P (case x of (a, b) \<Rightarrow> f a b)"
  by (cases x) simp

lemma keeps_option:
  "keeps P m \<Longrightarrow> (\<And>x. keeps P (f x)) \<Longrightarrow> keeps P (case v of None \<Rightarrow> m | Some x \<Rightarrow> f x)"
  by (cases v) simp_all

lemma keeps_terminating [keeping]: "keeps_loop P l \<Longrightarrow> keeps P (\<lambda>s. terminating s (l s))"
  by (auto simp: keeps_def keeps_loop_def terminating_def split: option.split)

text \<open>Programs that look at the state first, or change it first.\<close>

lemma keeps_at: "(\<And>s. keeps P (m s)) \<Longrightarrow> keeps P (\<lambda>s. m s s)"
  by (simp add: keeps_def)

lemma keeps_update: "(\<And>s. P s \<Longrightarrow> P (u s)) \<Longrightarrow> keeps P m \<Longrightarrow> keeps P (\<lambda>s. m (u s))"
  by (simp add: keeps_def)


section \<open>Pre- and postconditions\<close>

definition valid :: "('s \<Rightarrow> bool) \<Rightarrow> ('s, 'a) prog \<Rightarrow> ('a \<Rightarrow> 's \<Rightarrow> bool) \<Rightarrow> ('s \<Rightarrow> bool) \<Rightarrow> bool" where
  "valid P m Q E \<longleftrightarrow> (\<forall>s. P s \<longrightarrow> (case m s of (Inl e, s') \<Rightarrow> E s' | (Inr x, s') \<Rightarrow> Q x s'))"

lemma keeps_valid: "keeps P m \<longleftrightarrow> valid P m (\<lambda>_. P) P"
  by (simp add: keeps_def valid_def split: prod.split sum.split) (metis prod.exhaust_sel sum.exhaust snd_conv)

lemma validD:
  "valid P m Q E \<Longrightarrow> P s \<Longrightarrow> m s = (r, s') \<Longrightarrow> (case r of Inl e \<Rightarrow> E s' | Inr x \<Rightarrow> Q x s')"
  by (auto simp: valid_def split: sum.split)

lemma validI:
  "(\<And>s e s'. P s \<Longrightarrow> m s = (Inl e, s') \<Longrightarrow> E s') \<Longrightarrow> (\<And>s x s'. P s \<Longrightarrow> m s = (Inr x, s') \<Longrightarrow> Q x s') \<Longrightarrow>
     valid P m Q E"
  by (auto simp: valid_def split: prod.split sum.split)

lemma valid_any: "valid P m Q E \<Longrightarrow> P s \<Longrightarrow> (\<And>x s'. Q x s' \<Longrightarrow> R s') \<Longrightarrow> (\<And>s'. E s' \<Longrightarrow> R s') \<Longrightarrow> R (snd (m s))"
  by (cases "m s"; cases "fst (m s)") (auto dest: validD)

lemma valid_conseq:
  "valid P m Q E \<Longrightarrow> (\<And>s. P' s \<Longrightarrow> P s) \<Longrightarrow> (\<And>x s. Q x s \<Longrightarrow> Q' x s) \<Longrightarrow> (\<And>s. E s \<Longrightarrow> E' s) \<Longrightarrow> valid P' m Q' E'"
  by (fastforce simp: valid_def split: prod.split sum.split)

lemma valid_pre: "valid P m Q E \<Longrightarrow> (\<And>s. P' s \<Longrightarrow> P s) \<Longrightarrow> valid P' m Q E"
  by (simp add: valid_def)

lemma valid_ret: "(\<And>s. P s \<Longrightarrow> Q x s) \<Longrightarrow> valid P (ret x) Q E"
  by (simp add: valid_def)

lemma valid_throw: "(\<And>s. P s \<Longrightarrow> E s) \<Longrightarrow> valid P (throw e) Q E"
  by (simp add: valid_def)

lemma valid_andThen: "valid P m R E \<Longrightarrow> (\<And>x. valid (R x) (f x) Q E) \<Longrightarrow> valid P (andThen m f) Q E"
  by (fastforce simp: valid_def andThen_def split: prod.split sum.split)

lemma valid_catching:
  "valid P m Q E' \<Longrightarrow> (\<And>s. E' s \<Longrightarrow> E s) \<Longrightarrow> (\<And>e k. h e = Some k \<Longrightarrow> valid E' k Q E) \<Longrightarrow>
     valid P (catching m h) Q E"
  by (fastforce simp: valid_def catching_def split: prod.split sum.split option.split)

lemma valid_if: "(b \<Longrightarrow> valid P m Q E) \<Longrightarrow> (\<not> b \<Longrightarrow> valid P n Q E) \<Longrightarrow> valid P (if b then m else n) Q E"
  by simp

lemma valid_prod: "(\<And>a b. x = (a, b) \<Longrightarrow> valid P (f a b) Q E) \<Longrightarrow> valid P (case x of (a, b) \<Rightarrow> f a b) Q E"
  by (cases x) simp

lemma valid_option:
  "(v = None \<Longrightarrow> valid P m Q E) \<Longrightarrow> (\<And>x. v = Some x \<Longrightarrow> valid P (f x) Q E) \<Longrightarrow>
     valid P (case v of None \<Rightarrow> m | Some x \<Rightarrow> f x) Q E"
  by (cases v) simp_all

text \<open>An invariant, with a fact that does not depend on the state.\<close>

lemma valid_keeps: "keeps P m \<Longrightarrow> valid P m (\<lambda>_. P) P"
  by (simp add: keeps_valid)

lemma valid_pure: "(A \<Longrightarrow> valid P m Q E) \<Longrightarrow> valid (\<lambda>s. P s \<and> A) m Q E"
  by (simp add: valid_def)

text \<open>A program that looks at the state first.\<close>

lemma valid_branch:
  "valid P m Q E \<Longrightarrow> valid P n Q E \<Longrightarrow> valid P (\<lambda>s. if b s then m s else n s) Q E"
  by (simp add: valid_def)

lemma valid_state_option:
  "valid P n Q E \<Longrightarrow> (\<And>x. valid P (f x) Q E) \<Longrightarrow> valid P (\<lambda>s. case v s of None \<Rightarrow> n s | Some x \<Rightarrow> f x s) Q E"
  by (simp add: valid_def split: option.split)

lemma valid_at: "(\<And>s. P s \<Longrightarrow> valid (\<lambda>t. t = s) (m s) Q E) \<Longrightarrow> valid P (\<lambda>s. m s s) Q E"
  by (simp add: valid_def)

lemma valid_update: "valid P m Q E \<Longrightarrow> (\<And>s. P' s \<Longrightarrow> P (u s)) \<Longrightarrow> valid P' (\<lambda>s. m (u s)) Q E"
  by (simp add: valid_def)

text \<open>In the outside.\<close>

lemma valid_in_world:
  "(\<And>s. P s \<Longrightarrow> case m (world s) of (Inl e, w) \<Rightarrow> E (s\<lparr>world := w\<rparr>) | (Inr x, w) \<Rightarrow> Q x (s\<lparr>world := w\<rparr>)) \<Longrightarrow>
     valid P (in_world m) Q E"
  by (fastforce simp: valid_def in_world_def split: prod.split sum.split)

section \<open>Files\<close>

text \<open>What every write and synchronization of the device keeps, the buffered operations keep.\<close>

lemma keeps_on_dev: "keeps I m \<Longrightarrow> keeps (I \<circ> dev) (on_dev m)"
  by (simp add: keeps_def on_dev_def split: prod.split) (metis snd_conv)

lemma keeps_flush:
  assumes "\<And>bs. keeps I (wb bs)" "keeps I sync"
  shows "keeps (I \<circ> dev) (flush wb sync)"
proof -
  have flush: "flush wb sync = (\<lambda>f. if mode f = Reading then (Inl (AssertFailed ''mode != reading''), f)
      else andThen
          (\<lambda>f. if mode f = Writing then
                 (if next_pos f \<noteq> 0 then on_dev (wb (take (next_pos f) (buffer f))) f
                  else (Inr (), f))
               else (Inr (), f\<lparr>mode := Writing\<rparr>))
          (\<lambda>_ f. on_dev sync (f\<lparr>next_pos := 0, top_pos := BUFFER_SIZE\<rparr>)) f)"
    by (simp add: fun_eq_iff flush_def)
  have out: "keeps (I \<circ> dev) (\<lambda>f. on_dev (wb (take (next_pos f) (buffer f))) f)"
    using keeps_on_dev [OF assms(1)] by (simp add: keeps_def)
  have sync: "keeps (I \<circ> dev) (\<lambda>f. on_dev sync (f\<lparr>next_pos := 0, top_pos := BUFFER_SIZE\<rparr>))"
    by (rule keeps_update [OF _ keeps_on_dev [OF assms(2)]]) simp
  show ?thesis
    unfolding flush by (intro keeps_branch keeps_andThen out sync) (simp_all add: keeps_def)
qed

lemma keeps_put_byte:
  assumes "\<And>bs. keeps I (wb bs)" "keeps I sync"
  shows "keeps (I \<circ> dev) (put_byte wb sync c)"
proof -
  have flush: "I (dev g)" if "flush wb sync f = (r, g)" "I (dev f)" for f r g
    using keepsD [OF keeps_flush [OF assms] _ that(1)] that(2) by simp
  show ?thesis by (auto simp: keeps_def put_byte_def andThen_def intro: flush split: prod.split sum.split)
qed

lemma keeps_put:
  assumes "\<And>bs. keeps I (wb bs)" "keeps I sync"
  shows "keeps (I \<circ> dev) (put wb sync s)"
proof (induction s)
  case (Cons c s)
  have "put wb sync (c # s) = andThen (put_byte wb sync c) (\<lambda>_. put wb sync s)" by (simp add: fun_eq_iff)
  then show ?case using keeps_andThen [OF keeps_put_byte [OF assms] Cons.IH] by simp
qed (simp add: keeps_def)

text \<open>The copying loop, with a reader that keeps its contract and an invariant of the receiver.\<close>

context byte_source
begin

lemma read_loop_inv:
  assumes run: "read_loop readbytes sz sink f s = Some (r, f', s')"
    and ok: "reader_ok f" "J s" "0 < sz"
    and sink: "\<And>bs. bs \<noteq> [] \<Longrightarrow> length bs \<le> sz \<Longrightarrow> valid J (sink bs) (\<lambda>_. J) A"
  shows "(case r of Inl e \<Rightarrow> A s' \<or> J s' | Inr _ \<Rightarrow> J s' \<and> reader_ok f')"
  using run ok(1,2)
proof (induction "length (unread f)" arbitrary: f s rule: less_induct)
  case less
  obtain q f1 where f1: "getbytes readbytes sz False f = (q, f1)" by fastforce
  note unf = read_loop.simps [of readbytes sz sink f s]
  show ?case
  proof (cases q)
    case (Inl e)
    then show ?thesis using less.prems(1,3) by (auto simp: unf f1)
  next
    case (Inr bs)
    note ok1 = getbytes_ok [OF less.prems(2) ok(3) f1 [unfolded Inr]]
    show ?thesis
    proof (cases "bs = []")
      case True
      then show ?thesis using less.prems(1,3) ok1 by (auto simp: unf f1 Inr)
    next
      case False
      obtain q2 s1 where s1: "sink bs s = (q2, s1)" by fastforce
      note out = validD [OF sink [OF False] less.prems(3) s1]
      show ?thesis
      proof (cases q2)
        case (Inl e)
        then show ?thesis using less.prems(1) False out ok1 by (auto simp: unf f1 Inr s1)
      next
        case q2: (Inr u)
        have "length (unread f1) < length (unread f)" using ok1 False by (cases bs) auto
        then show ?thesis
          using less.hyps [of f1 s1] less.prems(1) False out ok1 q2 by (auto simp: unf f1 Inr s1)
      qed
    qed
  qed
qed

end

end
