(* ===== verification/Store.thy ===== *)
theory Store
  imports Hoare Repository Hashing
begin

text \<open>
  What the operations that write rely on: the interface \<open>writable_store\<close> says what every
  function of a file system may change, whether it succeeds or fails, and what it has done when it
  succeeds. With it, the invariant of the repository: a file that is stored under a hash has that
  hash.
\<close>

section \<open>Interface: a file system to write to\<close>

definition at_or_below :: "place \<Rightarrow> place \<Rightarrow> bool" where
  "at_or_below a k \<longleftrightarrow> fst a = fst k \<and> take (length (snd a)) (snd k) = snd a"

lemma at_or_below_refl [simp]: "at_or_below k k"
  by (simp add: at_or_below_def)

lemma at_or_below_comparable: "at_or_below a k \<Longrightarrow> at_or_below b k \<Longrightarrow> at_or_below a b \<or> at_or_below b a"
proof -
  have "take (length x) y = x \<or> take (length y) x = y" if "take (length x) z = x" "take (length y) z = y" for x y z :: "string list"
    using that by (metis min.absorb1 nat_le_linear take_take)
  then show "at_or_below a k \<Longrightarrow> at_or_below b k \<Longrightarrow> at_or_below a b \<or> at_or_below b a"
    unfolding at_or_below_def by blast
qed

text \<open>
  \<open>place_of\<close> is where an open file is. A failing call changes nothing but the file it is
  about; no call makes a symbolic link; a rename moves what is at and below the old place to the new
  one (of renaming a file to another, which may be the same, only that). No promise is made about opening a symbolic link or a device for writing, or about a failing
  test for existence.
\<close>

locale writable_store =
  fixes fs :: "('d, 'w) filesystem"
    and view :: "'w \<Rightarrow> place \<Rightarrow> entry"
    and place_of :: "'d \<Rightarrow> place"
  assumes exists_frame: "view (snd (fs_exists fs p w)) = view w"
    and exists_true: "plain_path p \<Longrightarrow> fs_exists fs p w = (Inr True, w') \<Longrightarrow> view w (resolve p) \<noteq> Absent"
    and exists_false: "plain_path p \<Longrightarrow> fs_exists fs p w = (Inr False, w') \<Longrightarrow>
      view w (resolve p) = Absent \<or> view w (resolve p) = Symlink"
    and prefigure_frame: "view (snd (fs_prefigure_exists fs p w)) = view w"
    and overwrite_fails: "plain_path p \<Longrightarrow> fs_open fs p Overwrite w = (Inl e, w') \<Longrightarrow> view w' = view w"
    and overwrite_opens: "plain_path p \<Longrightarrow> view w (resolve p) \<noteq> Symlink \<Longrightarrow> view w (resolve p) \<noteq> Special \<Longrightarrow>
      fs_open fs p Overwrite w = (Inr d, w') \<Longrightarrow>
      place_of d = resolve p \<and> view w' = (view w)(resolve p := Regular [])"
    and mkdir_frame: "view (snd (fs_mkdir fs p m w)) k = view w k \<or>
      view w k = Absent \<and> view (snd (fs_mkdir fs p m w)) k = Folder"
    and mkdir_place: "plain_path p \<or> p = [] \<Longrightarrow> k \<noteq> resolve p \<Longrightarrow> view (snd (fs_mkdir fs p m w)) k = view w k"
    and write_frame: "file_writebytes fs bs (d, w) = (r, (d', w')) \<Longrightarrow>
      place_of d' = place_of d \<and> (\<forall>k. k \<noteq> place_of d \<longrightarrow> view w' k = view w k)"
    and write_file: "file_writebytes fs bs (d, w) = (r, (d', w')) \<Longrightarrow> view w (place_of d) = Regular a \<Longrightarrow>
      \<exists>b. view w' (place_of d) = Regular b \<and> (r = Inr () \<longrightarrow> b = a @ bs)"
    and synchronize_frame: "file_synchronize fs (d, w) = (r, (d', w')) \<Longrightarrow> place_of d' = place_of d \<and> view w' = view w"
    and destroy_frame: "view (snd (file_destroy fs d w)) = view w"
    and rename_frame: "plain_path p \<Longrightarrow> plain_path q \<Longrightarrow> fs_rename fs p q w = (r, w') \<Longrightarrow>
      \<not> at_or_below (resolve p) k \<Longrightarrow> \<not> at_or_below (resolve q) k \<Longrightarrow> view w' k = view w k"
    and rename_fails: "plain_path p \<Longrightarrow> plain_path q \<Longrightarrow> fs_rename fs p q w = (Inl e, w') \<Longrightarrow> view w' = view w"
    and rename_file: "plain_path p \<Longrightarrow> plain_path q \<Longrightarrow> resolve p \<noteq> resolve q \<Longrightarrow> view w (resolve p) = Regular bs \<Longrightarrow>
      \<forall>b. view w (resolve q) \<noteq> Regular b \<Longrightarrow>
      fs_rename fs p q w = (Inr (), w') \<Longrightarrow>
      view w' = (view w)(resolve p := Absent, resolve q := Regular bs)"
begin

text \<open>The bytes of an open file; it is a sink for bytes as long as it is there.\<close>

definition contents_of :: "'d \<times> 'w \<Rightarrow> bytes" where
  "contents_of x = (case view (snd x) (place_of (fst x)) of Regular bs \<Rightarrow> bs | _ \<Rightarrow> [])"

definition present :: "'d \<times> 'w \<Rightarrow> bool" where
  "present x \<longleftrightarrow> (\<exists>bs. view (snd x) (place_of (fst x)) = Regular bs)"

sublocale sink: byte_sink "file_writebytes fs" "file_synchronize fs" contents_of present
proof unfold_locales
  fix bs and d d' :: "'d \<times> 'w"
  assume w: "file_writebytes fs bs d = (Inr (), d')" "present d"
  then show "present d' \<and> contents_of d' = contents_of d @ bs"
    using write_frame [of bs "fst d" "snd d" "Inr ()" "fst d'" "snd d'"]
      write_file [of bs "fst d" "snd d" "Inr ()" "fst d'" "snd d'"]
    by (auto simp: present_def contents_of_def)
next
  fix d d' :: "'d \<times> 'w"
  assume "file_synchronize fs d = (Inr (), d')" "present d"
  then show "present d' \<and> contents_of d' = contents_of d"
    using synchronize_frame [of "fst d" "snd d" "Inr ()" "fst d'" "snd d'"]
    by (auto simp: present_def contents_of_def)
qed

text \<open>Whatever becomes of writing to it, an open file stays where it is, and nothing else changes.\<close>

definition elsewhere :: "place \<Rightarrow> (place \<Rightarrow> entry) \<Rightarrow> 'd \<times> 'w \<Rightarrow> bool" where
  "elsewhere k v x \<longleftrightarrow> place_of (fst x) = k \<and> (\<forall>j. j \<noteq> k \<longrightarrow> view (snd x) j = v j)"

lemma keeps_elsewhere:
  "keeps (elsewhere k v) (file_writebytes fs bs)" "keeps (elsewhere k v) (file_synchronize fs)"
proof -
  have "elsewhere k v (snd (file_writebytes fs bs x))" if "elsewhere k v x" for x
    using that write_frame [of bs "fst x" "snd x" "fst (file_writebytes fs bs x)"
        "fst (snd (file_writebytes fs bs x))" "snd (snd (file_writebytes fs bs x))"]
    by (auto simp: elsewhere_def)
  then show "keeps (elsewhere k v) (file_writebytes fs bs)" by (simp add: keeps_def)
  have "elsewhere k v (snd (file_synchronize fs x))" if "elsewhere k v x" for x
    using that synchronize_frame [of "fst x" "snd x" "fst (file_synchronize fs x)"
        "fst (snd (file_synchronize fs x))" "snd (snd (file_synchronize fs x))"]
    by (auto simp: elsewhere_def)
  then show "keeps (elsewhere k v) (file_synchronize fs)" by (simp add: keeps_def)
qed

lemma keeps_present: "keeps present (file_writebytes fs bs)" "keeps present (file_synchronize fs)"
proof -
  have "present (snd (file_writebytes fs bs x))" if "present x" for x
    using that write_frame [of bs "fst x" "snd x" "fst (file_writebytes fs bs x)"
        "fst (snd (file_writebytes fs bs x))" "snd (snd (file_writebytes fs bs x))"]
      write_file [of bs "fst x" "snd x" "fst (file_writebytes fs bs x)"
        "fst (snd (file_writebytes fs bs x))" "snd (snd (file_writebytes fs bs x))"]
    by (auto simp: present_def)
  then show "keeps present (file_writebytes fs bs)" by (simp add: keeps_def)
  have "present (snd (file_synchronize fs x))" if "present x" for x
    using that synchronize_frame [of "fst x" "snd x" "fst (file_synchronize fs x)"
        "fst (snd (file_synchronize fs x))" "snd (snd (file_synchronize fs x))"]
    by (auto simp: present_def)
  then show "keeps present (file_synchronize fs)" by (simp add: keeps_def)
qed

text \<open>Opening to write, of what is not a link or a device.\<close>

lemma open_over:
  assumes "plain_path p" "view w (resolve p) \<noteq> Symlink" "view w (resolve p) \<noteq> Special"
    and "fs_open fs p Overwrite w = (r, w')"
  shows "case r of Inl e \<Rightarrow> view w' = view w
    | Inr d \<Rightarrow> place_of d = resolve p \<and> view w' = (view w)(resolve p := Regular [])"
  using overwrite_fails [of p w _ w'] overwrite_opens [of p w _ w'] assms by (cases r) simp_all

lemma delete_frame: "view (snd (delete_File fs f d w)) = view w"
  using destroy_frame [of d w] by (cases "file_destroy fs d w") (simp add: delete_File_def)

lemma makedirs_frame:
  assumes p: "plain_path p"
  shows "keeps (\<lambda>w. \<forall>k. view w k = v k \<or>
    v k = Absent \<and> view w k = Folder \<and> length (snd k) \<le> length (snd (resolve p))) (makedirs fs p)"
proof -
  let ?I = "\<lambda>w. \<forall>k. view w k = v k \<or> v k = Absent \<and> view w k = Folder \<and> length (snd k) \<le> length (snd (resolve p))"
  have exists: "keeps ?I (fs_exists fs q)" for q by (simp add: keeps_def exists_frame)
  have mkdir: "keeps ?I (fs_mkdir fs q m)"
    if q: "plain_path q \<or> q = []" "length (snd (resolve q)) \<le> length (snd (resolve p))" for q m
    unfolding keeps_def
  proof (intro allI impI)
    fix w and k :: place
    assume I: "?I w"
    show "view (snd (fs_mkdir fs q m w)) k = v k \<or>
        v k = Absent \<and> view (snd (fs_mkdir fs q m w)) k = Folder \<and> length (snd k) \<le> length (snd (resolve p))"
    proof (cases "k = resolve q")
      case True
      then show ?thesis using I q(2) mkdir_frame [of q m w k] by (metis entry.distinct(3))
    qed (use I mkdir_place [OF q(1)] in metis)
  qed
  have prefix: "(plain_path (take n p) \<or> take n p = []) \<and> length (snd (resolve (take n p))) \<le> length (snd (resolve p))"
    if "n < length p" "p ! n = CHR ''/''" for n
  proof -
    have "components (take n p) \<in> stops p" using components_stop [OF that] .
    then have "length (components (take n p)) \<le> length (components p)" by (auto simp: stops_def)
    moreover have "plain_path (take n p) \<or> take n p = []"
      using plain_stop(1) [OF p _ that] by (cases n) auto
    ultimately show ?thesis by (simp add: resolve_def)
  qed
  have loop: "keeps ?I (makedirs_loop fs p ns)" if "\<forall>n \<in> set ns. n < length p" for ns
    using that
  proof (induction ns)
    case (Cons n ns)
    have step: "makedirs_loop fs p (n # ns) =
        (if p ! n = CHR ''/'' then
           andThen (fs_exists fs (take n p))
             (\<lambda>found. andThen (if \<not> found then fs_mkdir fs (take n p) 511 else ret ())
                (\<lambda>_. makedirs_loop fs p ns))
         else makedirs_loop fs p ns)"
      by (simp add: fun_eq_iff)
    have rest: "keeps ?I (makedirs_loop fs p ns)" using Cons by simp
    show ?case
    proof (cases "p ! n = CHR ''/''")
      case True
      have one: "keeps ?I (fs_mkdir fs (take n p) 511)" using prefix [OF _ True] Cons.prems by (intro mkdir) simp_all
      show ?thesis
        unfolding step if_P [OF True] by (intro keeps_andThen [OF exists] keeps_andThen keeps_if one keeps_ret rest)
    next
      case False
      show ?thesis unfolding step if_not_P [OF False] by (rule rest)
    qed
  qed (simp add: keeps_def)
  have "keeps ?I (makedirs_loop fs p [1..<length p])" by (rule loop) simp
  moreover have "keeps ?I (fs_mkdir fs p 511)" by (rule mkdir) (use p in simp_all)
  ultimately show ?thesis unfolding makedirs_def by (intro keeps_andThen [OF exists] keeps_if keeps_ret keeps_andThen)
qed

end

section \<open>The invariant of the repository\<close>

text \<open>Everything the repository holds is below this place.\<close>

definition area :: "options \<Rightarrow> place" where
  "area opts = (fst (resolve (repo opts)), snd (resolve (repo opts)) @ [HASH_NAME])"

text \<open>Where the file with a hash is made before it gets its name.\<close>

definition temp_place :: "options \<Rightarrow> bytes \<Rightarrow> place" where
  "temp_place opts h =
     (fst (area opts), snd (area opts) @ [hexpair_of (h ! 0), hexpair_of (h ! 1), hexencode h @ ''.tmp''])"

lemma hash_place_area:
  "hash_place opts h = (fst (area opts), snd (area opts) @ [hexpair_of (h ! 0), hexpair_of (h ! 1), hexencode h])"
  by (simp add: hash_place_def area_def split: prod.split)

lemma temp_file_place:
  assumes "plain_path (repo opts)" "length h = HASH_SIZE"
  shows "plain_path (hash_file opts h @ ''.tmp'')" "resolve (hash_file opts h @ ''.tmp'') = temp_place opts h"
proof -
  obtain p where p: "plain_path p" "hash_file opts h = p @ ''/'' @ hexencode h"
      "resolve p = (fst (hash_place opts h), butlast (snd (hash_place opts h)))"
    using hash_dir_place [OF assms] by blast
  have hex: "CHR ''/'' \<notin> set (hexencode h)" "CHR 0x00 \<notin> set (hexencode h)"
    using hex_plain [OF hexencode_alphabet] by blast+
  have "length (hexencode h @ ''.tmp'') = 44" using assms(2) by (simp add: HASH_SIZE_def)
  then have ne: "hexencode h @ ''.tmp'' \<noteq> ''.''" "hexencode h @ ''.tmp'' \<noteq> ''..''" by auto
  have "CHR ''/'' \<notin> set (hexencode h @ ''.tmp'')" "CHR 0x00 \<notin> set (hexencode h @ ''.tmp'')"
    using hex by auto
  note e = plain_extend [OF p(1) _ this ne]
  show "plain_path (hash_file opts h @ ''.tmp'')" using e(1) p(2) by simp
  show "resolve (hash_file opts h @ ''.tmp'') = temp_place opts h"
    using e(2) p(2,3) by (simp add: temp_place_def hash_place_area butlast_append)
qed

text \<open>All these places are apart.\<close>

lemma places_apart:
  assumes "length g = HASH_SIZE" "length h = HASH_SIZE"
  shows "\<not> at_or_below (temp_place opts g) (hash_place opts h)" "\<not> at_or_below (hash_place opts h) (temp_place opts g)"
    "at_or_below (hash_place opts g) (hash_place opts h) \<Longrightarrow> g = h"
    "at_or_below (temp_place opts g) (temp_place opts h) \<Longrightarrow> g = h"
proof -
  have ne: "hexencode g @ ''.tmp'' \<noteq> hexencode h"
  proof
    assume "hexencode g @ ''.tmp'' = hexencode h"
    then have "length (hexencode g @ ''.tmp'') = length (hexencode h)" by simp
    then show False using assms by simp
  qed
  then show "\<not> at_or_below (temp_place opts g) (hash_place opts h)" "\<not> at_or_below (hash_place opts h) (temp_place opts g)"
    by (auto simp: at_or_below_def temp_place_def hash_place_area)
  have inj: "hexencode g = hexencode h \<Longrightarrow> g = h" using hex.encode_eq_iff assms by blast
  then show "at_or_below (hash_place opts g) (hash_place opts h) \<Longrightarrow> g = h"
      "at_or_below (temp_place opts g) (temp_place opts h) \<Longrightarrow> g = h"
    by (auto simp: at_or_below_def temp_place_def hash_place_area)
qed

lemma in_area: "at_or_below (area opts) (hash_place opts h)" "at_or_below (area opts) (temp_place opts h)"
  by (simp_all add: at_or_below_def temp_place_def hash_place_area)

text \<open>
  A file under a hash has that hash, and there is nothing but files under hashes; where a file is
  made, there is no link or device that would be written through.
\<close>

definition sound_store :: "options \<Rightarrow> (place \<Rightarrow> entry) \<Rightarrow> bool" where
  "sound_store opts v \<longleftrightarrow>
     (\<forall>h bs. length h = HASH_SIZE \<longrightarrow> v (hash_place opts h) = Regular bs \<longrightarrow> sha1_fits bs \<longrightarrow> sha1 bs = h)"

definition only_files :: "options \<Rightarrow> (place \<Rightarrow> entry) \<Rightarrow> bool" where
  "only_files opts v \<longleftrightarrow>
     (\<forall>h. length h = HASH_SIZE \<longrightarrow> v (hash_place opts h) = Absent \<or> (\<exists>bs. v (hash_place opts h) = Regular bs))"

definition clear_temps :: "options \<Rightarrow> (place \<Rightarrow> entry) \<Rightarrow> bool" where
  "clear_temps opts v \<longleftrightarrow>
     (\<forall>h. length h = HASH_SIZE \<longrightarrow> v (temp_place opts h) \<noteq> Symlink \<and> v (temp_place opts h) \<noteq> Special)"

definition store_ok :: "options \<Rightarrow> (place \<Rightarrow> entry) \<Rightarrow> bool" where
  "store_ok opts v \<longleftrightarrow> sound_store opts v \<and> only_files opts v \<and> clear_temps opts v"

lemmas store_ok_defs = store_ok_def sound_store_def only_files_def clear_temps_def

lemma store_ok_mono:
  assumes "store_ok opts v" "\<And>h. length h = HASH_SIZE \<Longrightarrow> v' (hash_place opts h) = v (hash_place opts h)"
    "\<And>h. length h = HASH_SIZE \<Longrightarrow> v' (temp_place opts h) = v (temp_place opts h) \<or> v' (temp_place opts h) = Folder"
  shows "store_ok opts v'"
proof -
  have "v' (temp_place opts h) \<noteq> Symlink \<and> v' (temp_place opts h) \<noteq> Special" if "length h = HASH_SIZE" for h
    using assms(1) assms(3) [OF that] that by (auto simp: store_ok_defs)
  then show ?thesis using assms(1,2) by (simp add: store_ok_defs)
qed

lemma store_ok_area:
  assumes "store_ok opts v" "\<And>k. at_or_below (area opts) k \<Longrightarrow> v' k = v k"
  shows "store_ok opts v'"
  by (rule store_ok_mono [OF assms(1)]) (simp_all add: assms(2) in_area)

lemma store_ok_temp:
  assumes "store_ok opts v" "length h = HASH_SIZE" "\<And>k. k \<noteq> temp_place opts h \<Longrightarrow> v' k = v k"
    "v' (temp_place opts h) \<noteq> Symlink" "v' (temp_place opts h) \<noteq> Special"
  shows "store_ok opts v'"
proof -
  have same: "v' (hash_place opts g) = v (hash_place opts g)" if "length g = HASH_SIZE" for g
    using assms(3) places_apart(1) [OF assms(2) that] by (metis at_or_below_refl)
  have "v' (temp_place opts g) \<noteq> Symlink \<and> v' (temp_place opts g) \<noteq> Special" if "length g = HASH_SIZE" for g
    using assms(1) assms(3) [of "temp_place opts g"] assms(4,5) that
    by (cases "temp_place opts g = temp_place opts h") (simp_all add: store_ok_defs)
  then show ?thesis using assms(1) same by (simp add: store_ok_defs)
qed

lemma store_ok_stored:
  assumes "store_ok opts v" "length h = HASH_SIZE" "sha1_fits bs \<Longrightarrow> sha1 bs = h"
  shows "store_ok opts (v(temp_place opts h := Absent, hash_place opts h := Regular bs))"
proof -
  have h: "hash_place opts g = hash_place opts h \<longleftrightarrow> g = h" "temp_place opts g \<noteq> hash_place opts h"
      "hash_place opts g \<noteq> temp_place opts h" if "length g = HASH_SIZE" for g
    using places_apart [OF that assms(2)] places_apart [OF assms(2) that] at_or_below_refl by metis+
  show ?thesis using assms unfolding store_ok_defs by (auto simp: h)
qed

text \<open>A file outside of the repository's; nothing that would be written through.\<close>

definition outside :: "options \<Rightarrow> path \<Rightarrow> bool" where
  "outside opts p \<longleftrightarrow>
     plain_path p \<and> \<not> at_or_below (area opts) (resolve p) \<and> \<not> at_or_below (resolve p) (area opts)"

definition writable_place :: "(place \<Rightarrow> entry) \<Rightarrow> path \<Rightarrow> bool" where
  "writable_place v p \<longleftrightarrow> v (resolve p) \<noteq> Symlink \<and> v (resolve p) \<noteq> Special"

end
