(* ===== verification/Kernel.thy ===== *)
theory Kernel
  imports Store "HOL-Library.AList"
begin

text \<open>
  A kernel to run the program on: a tree of directories and files, kept as an association list from
  places to nodes, with the system calls on it. Reads and writes may be short. The contracts of the
  other theories are proved here for \<open>LocalFilesystem\<close> and \<open>LocalFile\<close> of local.cc on
  this kernel, which also runs the witnesses.
\<close>

section \<open>The tree\<close>

datatype special = CharDevice | BlockDevice | Socket | Fifo

datatype node = DirNode | FileNode bytes | LinkNode string | SpecialNode special

record disk =
  nodes :: "(place \<times> node) list"

text \<open>Only names that a path can hold are seen.\<close>

definition proper :: "place \<Rightarrow> bool" where
  "proper k \<longleftrightarrow> list_all plain_name (snd k)"

definition node_at :: "disk \<Rightarrow> place \<Rightarrow> node option" where
  "node_at w k =
     (if snd k = [] then Some DirNode else if proper k then map_of (nodes w) k else None)"

definition put_node :: "place \<Rightarrow> node \<Rightarrow> disk \<Rightarrow> disk" where
  "put_node k n w = w\<lparr>nodes := AList.update k n (nodes w)\<rparr>"

definition del_node :: "place \<Rightarrow> disk \<Rightarrow> disk" where
  "del_node k w = w\<lparr>nodes := AList.delete k (nodes w)\<rparr>"

definition parent_of :: "place \<Rightarrow> place" where
  "parent_of k = (fst k, butlast (snd k))"

text \<open>A missing path: \<open>ENOENT\<close>, or \<open>ENOTDIR\<close> if it goes through a file.\<close>

definition ENOTDIR :: errno where "ENOTDIR = 20"
definition EISDIR :: errno where "EISDIR = 21"
definition ENOTEMPTY :: errno where "ENOTEMPTY = 39"
definition EINVAL :: errno where "EINVAL = 22"

definition missing :: "disk \<Rightarrow> place \<Rightarrow> errno" where
  "missing w k =
     (if list_ex (\<lambda>j. node_at w (fst k, take j (snd k)) \<notin> {None, Some DirNode}) [0 ..< length (snd k)]
      then ENOTDIR else ENOENT)"

definition children :: "disk \<Rightarrow> place \<Rightarrow> string list" where
  "children w k =
     remdups (map (\<lambda>(c, n). last (snd c))
       (filter (\<lambda>(c, n). snd c \<noteq> [] \<and> proper c \<and> parent_of c = k) (nodes w)))"

fun special_type :: "special \<Rightarrow> inode_type" where
  "special_type CharDevice = S_IFCHR"
| "special_type BlockDevice = S_IFBLK"
| "special_type Socket = S_IFSOCK"
| "special_type Fifo = S_IFIFO"

fun node_type :: "node \<Rightarrow> inode_type" where
  "node_type DirNode = S_IFDIR"
| "node_type (FileNode bs) = S_IFREG"
| "node_type (LinkNode t) = S_IFLNK"
| "node_type (SpecialNode sp) = special_type sp"

fun node_stat :: "node \<Rightarrow> stat" where
  "node_stat n = \<lparr>st_type = node_type n, st_perm = 420,
     st_size = (case n of FileNode bs \<Rightarrow> length bs | LinkNode t \<Rightarrow> length t | _ \<Rightarrow> 0), st_dev = 1,
     st_ino = 0, st_nlink = 1, st_uid = 0, st_gid = 0, st_rdev = 0, st_atime = 0, st_ctime = 0, st_mtime = 0\<rparr>"

section \<open>The system calls\<close>

text \<open>An open file description: where the file is, its bytes when opened, and those not read yet.\<close>

record ofd =
  of_place :: place
  of_data :: bytes
  of_left :: bytes

definition new_node :: "place \<Rightarrow> node \<Rightarrow> disk \<Rightarrow> (errno + unit) \<times> disk" where
  "new_node k n w =
     (if node_at w k \<noteq> None then (Inl EEXIST, w)
      else if node_at w (parent_of k) \<noteq> Some DirNode then (Inl (missing w k), w)
      else (Inr (), put_node k n w))"

definition disk_open :: "string \<Rightarrow> open_flags \<Rightarrow> disk \<Rightarrow> (errno + ofd) \<times> disk" where
  "disk_open s flags w =
     (let k = resolve s
      in if s = [] then (Inl ENOENT, w)
         else
           (case flags of
              O_RDONLY \<Rightarrow>
                (case node_at w k of
                   Some (FileNode bs) \<Rightarrow> (Inr \<lparr>of_place = k, of_data = bs, of_left = bs\<rparr>, w)
                 | Some _ \<Rightarrow> (Inl EISDIR, w)
                 | None \<Rightarrow> (Inl (missing w k), w))
            | O_WRONLY_CREAT_TRUNC \<Rightarrow>
                (case node_at w k of
                   Some (FileNode bs) \<Rightarrow>
                     (Inr \<lparr>of_place = k, of_data = [], of_left = []\<rparr>, put_node k (FileNode []) w)
                 | Some _ \<Rightarrow> (Inl EISDIR, w)
                 | None \<Rightarrow>
                     (case new_node k (FileNode []) w of
                        (Inl e, w') \<Rightarrow> (Inl e, w')
                      | (Inr _, w') \<Rightarrow> (Inr \<lparr>of_place = k, of_data = [], of_left = []\<rparr>, w')))
            | O_WRONLY_CREAT_EXCL \<Rightarrow>
                (case new_node k (FileNode []) w of
                   (Inl e, w') \<Rightarrow> (Inl e, w')
                 | (Inr _, w') \<Rightarrow> (Inr \<lparr>of_place = k, of_data = [], of_left = []\<rparr>, w'))))"

text \<open>A call moves at most \<open>Suc lim\<close> bytes, if there is a limit.\<close>

definition at_most :: "nat option \<Rightarrow> nat \<Rightarrow> nat" where
  "at_most lim n = (case lim of None \<Rightarrow> n | Some l \<Rightarrow> min n (Suc l))"

definition disk_read :: "nat option \<Rightarrow> nat \<Rightarrow> ofd \<Rightarrow> (errno + bytes) \<times> ofd" where
  "disk_read rlim n fd =
     (let m = at_most rlim n in (Inr (take m (of_left fd)), fd\<lparr>of_left := drop m (of_left fd)\<rparr>))"

definition file_bytes :: "disk \<Rightarrow> place \<Rightarrow> bytes" where
  "file_bytes w k = (case map_of (nodes w) k of Some (FileNode bs) \<Rightarrow> bs | _ \<Rightarrow> [])"

definition disk_write :: "nat option \<Rightarrow> bytes \<Rightarrow> ofd \<times> disk \<Rightarrow> (errno + nat) \<times> (ofd \<times> disk)" where
  "disk_write wlim bs d =
     (case d of (fd, w) \<Rightarrow>
        (let m = at_most wlim (length bs)
         in (Inr m, (fd, put_node (of_place fd) (FileNode (file_bytes w (of_place fd) @ take m bs)) w))))"

definition disk_remove :: "string \<Rightarrow> disk \<Rightarrow> (errno + unit) \<times> disk" where
  "disk_remove s w =
     (let k = resolve s
      in if s = [] then (Inl ENOENT, w)
         else
           (case node_at w k of
              None \<Rightarrow> (Inl (missing w k), w)
            | Some DirNode \<Rightarrow> if snd k = [] \<or> children w k \<noteq> [] then (Inl ENOTEMPTY, w) else (Inr (), del_node k w)
            | Some _ \<Rightarrow> (Inr (), del_node k w)))"

definition disk_rename :: "string \<Rightarrow> string \<Rightarrow> disk \<Rightarrow> (errno + unit) \<times> disk" where
  "disk_rename old new w =
     (if old = [] \<or> new = [] then (Inl ENOENT, w)
      else
        (case node_at w (resolve old) of
           None \<Rightarrow> (Inl (missing w (resolve old)), w)
         | Some DirNode \<Rightarrow> (Inl EISDIR, w)
         | Some n \<Rightarrow>
             if node_at w (resolve new) = Some DirNode then (Inl EISDIR, w)
             else if node_at w (parent_of (resolve new)) \<noteq> Some DirNode then (Inl (missing w (resolve new)), w)
             else (Inr (), put_node (resolve new) n (del_node (resolve old) w))))"

definition disk_make :: "string \<Rightarrow> node \<Rightarrow> disk \<Rightarrow> (errno + unit) \<times> disk" where
  "disk_make s n w = (if s = [] then (Inl ENOENT, w) else new_node (resolve s) n w)"

definition disk_link :: "string \<Rightarrow> string \<Rightarrow> disk \<Rightarrow> (errno + unit) \<times> disk" where
  "disk_link old new w =
     (case node_at w (resolve old) of
        None \<Rightarrow> (Inl (missing w (resolve old)), w)
      | Some DirNode \<Rightarrow> (Inl EISDIR, w)
      | Some n \<Rightarrow> disk_make new n w)"

definition disk_stat :: "string \<Rightarrow> disk \<Rightarrow> errno + stat" where
  "disk_stat s w =
     (if s = [] then Inl ENOENT
      else (case node_at w (resolve s) of None \<Rightarrow> Inl (missing w (resolve s)) | Some n \<Rightarrow> Inr (node_stat n)))"

definition disk_change :: "string \<Rightarrow> disk \<Rightarrow> (errno + unit) \<times> disk" where
  "disk_change s w = (case disk_stat s w of Inl e \<Rightarrow> (Inl e, w) | Inr _ \<Rightarrow> (Inr (), w))"

definition disk_posix :: "nat option \<Rightarrow> nat option \<Rightarrow> (ofd, disk) posix" where
  "disk_posix rlim wlim =
     \<lparr>sys_open = disk_open,
      sys_read = disk_read rlim,
      sys_write = disk_write wlim,
      sys_close = (\<lambda>fd w. (Inr (), w)),
      sys_fstat = (\<lambda>fd w. Inr (node_stat (FileNode (of_data fd)))),
      sys_mmap = (\<lambda>fd off n w. (Inr (take n (drop off (of_data fd))), w)),
      sys_munmap = (\<lambda>n w. (Inr (), w)),
      sys_rename = disk_rename,
      sys_link = disk_link,
      sys_remove = disk_remove,
      sys_mkdir = (\<lambda>s m. disk_make s DirNode),
      sys_mknod = (\<lambda>s m rdev. disk_make s (SpecialNode CharDevice)),
      sys_lchown = (\<lambda>s uid gid. disk_change s),
      sys_chmod = (\<lambda>s m. disk_change s),
      sys_symlink = (\<lambda>t s. disk_make s (LinkNode t)),
      sys_utimes = (\<lambda>s atime mtime. disk_change s),
      sys_stat = disk_stat,
      sys_lstat = disk_stat,
      sys_opendir = (\<lambda>s w.
        if s = [] then Inl ENOENT
        else (case node_at w (resolve s) of
                None \<Rightarrow> Inl (missing w (resolve s))
              | Some DirNode \<Rightarrow> Inr (''.'' # ''..'' # children w (resolve s), 0)
              | Some _ \<Rightarrow> Inl ENOTDIR)),
      sys_closedir = (\<lambda>s w. Inr ()),
      sys_readlink = (\<lambda>s n w.
        case node_at w (resolve s) of
          None \<Rightarrow> Inl (missing w (resolve s))
        | Some (LinkNode t) \<Rightarrow> Inr (take n t)
        | Some _ \<Rightarrow> Inl EINVAL)\<rparr>"

section \<open>The contracts on this kernel\<close>

lemma node_at_put: "snd k \<noteq> [] \<Longrightarrow> proper k \<Longrightarrow> node_at (put_node k n w) = (node_at w)(k := Some n)"
  by (auto simp: node_at_def put_node_def update_conv' fun_eq_iff)

lemma node_at_del: "snd k \<noteq> [] \<Longrightarrow> node_at (del_node k w) = (node_at w)(k := None)"
  by (auto simp: node_at_def del_node_def delete_conv' fun_eq_iff)

lemma file_bytes_put: "file_bytes (put_node k (FileNode bs) w) k = bs"
  by (simp add: file_bytes_def put_node_def update_conv')

fun entry_of :: "node option \<Rightarrow> entry" where
  "entry_of None = Absent"
| "entry_of (Some DirNode) = Folder"
| "entry_of (Some (FileNode bs)) = Regular bs"
| "entry_of (Some (LinkNode t)) = Symlink"
| "entry_of (Some (SpecialNode ty)) = Special"

definition disk_view :: "disk \<Rightarrow> place \<Rightarrow> entry" where
  "disk_view w k = entry_of (node_at w k)"

lemma entry_of_eq:
  "entry_of n = Absent \<longleftrightarrow> n = None" "entry_of n = Folder \<longleftrightarrow> n = Some DirNode"
  "entry_of n = Regular bs \<longleftrightarrow> n = Some (FileNode bs)"
  by (cases n rule: entry_of.cases; simp)+

lemma missing_unobstructed: "unobstructed (disk_view w) k \<Longrightarrow> missing w k = ENOENT"
  by (auto simp: missing_def unobstructed_def disk_view_def list_ex_iff entry_of_eq)

lemma disk_view_put: "snd k \<noteq> [] \<Longrightarrow> proper k \<Longrightarrow> disk_view (put_node k n w) = (disk_view w)(k := entry_of (Some n))"
  by (simp add: disk_view_def node_at_put fun_eq_iff)

lemma disk_view_del: "snd k \<noteq> [] \<Longrightarrow> disk_view (del_node k w) = (disk_view w)(k := Absent)"
  by (simp add: disk_view_def node_at_del fun_eq_iff)

lemma plain_nonempty [simp]: "plain_path p \<Longrightarrow> p \<noteq> []"
  by (simp add: plain_path_def)

lemma plain_proper:
  assumes "plain_path p"
  shows "proper (resolve p)"
proof -
  have "plain_name c" if "c \<in> set (components p)" for c
    using components_names(1) [OF that] components_names(2) [OF that, of "CHR ''/''"]
      components_names(2) [OF that, of "CHR 0x00"] assms that
    by (auto simp: plain_path_def plain_name_def)
  then show ?thesis by (simp add: proper_def resolve_def list_all_iff)
qed

text \<open>Reading a \<open>LocalFile\<close>, with reads of any length.\<close>

interpretation local_reads: reliable_source "LocalFile_readbytes (disk_posix rlim wlim)"
    "\<lambda>file. of_left (snd file)"
  for rlim wlim :: "nat option"
  by unfold_locales
    (auto simp: LocalFile_readbytes_def disk_posix_def disk_read_def at_most_def Let_def split: option.splits)

text \<open>Writing one, with writes that are complete.\<close>

lemma write_loop_complete:
  "write_loop (sys_write (disk_posix rlim None)) path bs beyond 0 (fd, w) =
     Some (Inr (), (fd, if bs = [] then w else
       put_node (of_place fd) (FileNode (file_bytes w (of_place fd) @ bs)) w))"
  by (subst write_loop.simps, simp add: disk_posix_def disk_write_def at_most_def Let_def)
    (subst write_loop.simps, simp)

interpretation local_writes: byte_sink "LocalFile_writebytes (disk_posix rlim None) beyond"
    File_synchronize "\<lambda>((path, fd), w). file_bytes w (of_place fd)" "\<lambda>_. True"
  for rlim :: "nat option" and beyond :: bytes
  by unfold_locales
    (auto simp: LocalFile_writebytes_def write_loop_complete File_synchronize_def file_bytes_put split: if_splits)

text \<open>Opening, removing and making, on the paths the contracts speak of.\<close>

lemma disk_open_regular:
  "plain_path p \<Longrightarrow> disk_view w (resolve p) = Regular bs \<Longrightarrow>
     disk_open p O_RDONLY w = (Inr \<lparr>of_place = resolve p, of_data = bs, of_left = bs\<rparr>, w)"
  by (simp add: disk_open_def disk_view_def entry_of_eq)

lemma disk_open_absent:
  "plain_path p \<Longrightarrow> disk_view w (resolve p) = Absent \<Longrightarrow> unobstructed (disk_view w) (resolve p) \<Longrightarrow>
     disk_open p O_RDONLY w = (Inl ENOENT, w)"
  using missing_unobstructed [of w "resolve p"]
  by (simp add: disk_open_def disk_view_def entry_of_eq)

lemma disk_remove_regular:
  assumes "plain_path p" "disk_view w (resolve p) = Regular bs"
  shows "disk_remove p w = (Inr (), del_node (resolve p) w)" "snd (resolve p) \<noteq> []"
proof -
  have n: "node_at w (resolve p) = Some (FileNode bs)"
    using assms(2) by (simp add: disk_view_def entry_of_eq)
  then show "snd (resolve p) \<noteq> []" by (auto simp: node_at_def)
  show "disk_remove p w = (Inr (), del_node (resolve p) w)"
    using n assms(1) by (simp add: disk_remove_def)
qed

interpretation local_files: file_store "LocalFilesystem (disk_posix rlim wlim) beyond"
    "\<lambda>file. of_left (snd file)" disk_view
  for rlim wlim :: "nat option" and beyond :: bytes
proof unfold_locales
  fix p and w :: disk and bs and d :: "path \<times> ofd"
  let ?fs = "LocalFilesystem (disk_posix rlim wlim) beyond"
  show "\<exists>w'. file_destroy ?fs d w = (Inr (), w') \<and> disk_view w' = disk_view w"
    by (simp add: LocalFilesystem_simps disk_posix_def)
  assume p: "plain_path p"
  show "\<exists>w'. fs_open ?fs p ReadOnly w = (Inl (FileError ''opening'' p ENOENT), w') \<and> disk_view w' = disk_view w"
    if "disk_view w (resolve p) = Absent" "unobstructed (disk_view w) (resolve p)"
    using disk_open_absent [OF p that] p by (simp add: LocalFilesystem_simps disk_posix_def)
  assume r: "disk_view w (resolve p) = Regular bs"
  show "\<exists>d w'. fs_open ?fs p ReadOnly w = (Inr d, w') \<and> of_left (snd d) = bs \<and> disk_view w' = disk_view w"
    using disk_open_regular [OF p r] p by (simp add: LocalFilesystem_simps disk_posix_def)
  show "\<exists>w'. fs_remove ?fs p w = (Inr (), w') \<and> disk_view w' = (disk_view w)(resolve p := Absent)"
    using disk_remove_regular [OF p r] p disk_view_del
    by (simp add: LocalFilesystem_simps disk_posix_def)
next
  fix n bs and d d' :: "path \<times> ofd"
  let ?rb = "file_readbytes (LocalFilesystem (disk_posix rlim wlim) beyond)"
  have rb: "?rb = LocalFile_readbytes (disk_posix rlim wlim)" by (simp add: LocalFilesystem_def)
  show "\<exists>bs d'. ?rb n d = (Inr bs, d')" unfolding rb by (rule local_reads.read_total)
  show "of_left (snd d) = bs @ of_left (snd d') \<and> length bs \<le> n" if "?rb n d = (Inr bs, d')"
    using that unfolding rb by (rule local_reads.read_front)
  show "of_left (snd d) = []" if "?rb n d = (Inr [], d')" "0 < n"
    using that unfolding rb by (rule local_reads.read_progress)
qed

lemma set_children:
  "proper k \<Longrightarrow> set (children w k) =
     {n. plain_name n \<and> node_at w (fst k, snd k @ [n]) \<noteq> None}"
proof -
  assume k: "proper k"
  have "n \<in> set (children w k) \<longleftrightarrow> plain_name n \<and> (fst k, snd k @ [n]) \<in> fst ` set (nodes w)" for n
  proof
    assume "n \<in> set (children w k)"
    then obtain c m where c: "(c, m) \<in> set (nodes w)" "snd c \<noteq> []" "proper c" "parent_of c = k" "n = last (snd c)"
      by (auto simp: children_def)
    then have e: "c = (fst k, snd k @ [n])" by (cases c) (auto simp: parent_of_def)
    then have "plain_name n" using c(3) by (simp add: proper_def)
    then show "plain_name n \<and> (fst k, snd k @ [n]) \<in> fst ` set (nodes w)" using c(1) e by force
  next
    assume n: "plain_name n \<and> (fst k, snd k @ [n]) \<in> fst ` set (nodes w)"
    then obtain m where "((fst k, snd k @ [n]), m) \<in> set (nodes w)" by auto
    then show "n \<in> set (children w k)" using n k
      by (force simp: children_def parent_of_def proper_def)
  qed
  moreover have "map_of (nodes w) q \<noteq> None \<longleftrightarrow> q \<in> fst ` set (nodes w)" for q
    by (simp add: map_of_eq_None_iff)
  ultimately show ?thesis using k
    by (auto simp: node_at_def proper_def)
qed

lemma read_entries_filter: "read_entries names c = c @ filter (\<lambda>s. s \<noteq> ''.'' \<and> s \<noteq> ''..'') names"
  by (induction names arbitrary: c) auto

lemma children_names: "proper k \<Longrightarrow> filter (\<lambda>s. s \<noteq> ''.'' \<and> s \<noteq> ''..'') (children w k) = children w k"
  using set_children [of k w] by (auto simp: filter_id_conv plain_name_def)

interpretation local_tree: directory_store "LocalFilesystem (disk_posix rlim wlim) beyond"
    "\<lambda>file. of_left (snd file)" disk_view
  for rlim wlim :: "nat option" and beyond :: bytes
proof unfold_locales
  fix p and w :: disk
  let ?fs = "LocalFilesystem (disk_posix rlim wlim) beyond" and ?k = "resolve p"
  assume p: "plain_path p"
  show "\<exists>names w'. fs_contents ?fs p w = (Inr names, w') \<and> disk_view w' = disk_view w \<and> distinct names \<and>
      set names = {n. plain_name n \<and> disk_view w (fst ?k, snd ?k @ [n]) \<noteq> Absent}"
    if "disk_view w ?k = Folder"
  proof -
    have "fs_contents ?fs p w = (Inr (children w ?k), w)"
      using that p children_names [OF plain_proper [OF p], of w]
      by (simp add: LocalFilesystem_simps disk_posix_def disk_view_def entry_of_eq read_entries_filter)
    moreover have "distinct (children w ?k)" by (simp add: children_def)
    ultimately show ?thesis using set_children [OF plain_proper [OF p], of w]
      by (simp add: disk_view_def entry_of_eq)
  qed
  show "\<exists>w'. fs_type ?fs p w = (Inr (filetype_of (disk_view w ?k)), w') \<and> disk_view w' = disk_view w"
    if there: "disk_view w ?k \<noteq> Absent"
  proof -
    obtain n where n: "node_at w ?k = Some n" using there by (cases "node_at w ?k") (auto simp: disk_view_def)
    have "fs_type ?fs p w = (Inr (filetype_of (entry_of (Some n))), w)"
      using n p by (cases n rule: node_type.cases)
        (auto simp: LocalFilesystem_simps disk_posix_def disk_stat_def elim: special_type.elims)
    then show ?thesis by (simp add: disk_view_def n)
  qed
qed

interpretation disk_maps: mappable "disk_posix rlim wlim" disk_view of_data
  for rlim wlim :: "nat option"
proof unfold_locales
  show "\<exists>fd w'. sys_open (disk_posix rlim wlim) p O_RDONLY w = (Inr fd, w') \<and> of_data fd = bs \<and>
      disk_view w' = disk_view w"
    if "plain_path p" "disk_view w (resolve p) = Regular bs" for p w bs
    using disk_open_regular [OF that] by (simp add: disk_posix_def)
qed (simp_all add: disk_posix_def)

definition disk_present :: "bool \<Rightarrow> disk \<Rightarrow> string list set" where
  "disk_present absolute w = {c. node_at w (absolute, c) \<noteq> None}"

definition disk_dirs :: "bool \<Rightarrow> disk \<Rightarrow> string list set" where
  "disk_dirs absolute w = {c. node_at w (absolute, c) = Some DirNode}"

lemma new_node_ok:
  assumes "node_at w k = None" "node_at w (parent_of k) = Some DirNode"
  shows "new_node k n w = (Inr (), put_node k n w)" "snd k \<noteq> []"
  using assms by (auto simp: new_node_def node_at_def)

interpretation local_dirs: directories "LocalFilesystem (disk_posix rlim wlim) beyond" absolute
    "disk_present absolute" "disk_dirs absolute"
  for rlim wlim :: "nat option" and beyond :: bytes and absolute :: bool
proof unfold_locales
  fix p and w :: disk and m :: nat
  let ?fs = "LocalFilesystem (disk_posix rlim wlim) beyond" and ?c = "components p"
  assume p: "plain_path p" "(hd p = CHR ''/'') = absolute"
  then have r: "resolve p = (absolute, ?c)" by (simp add: resolve_def)
  show "fs_exists ?fs p w = (Inr (?c \<in> disk_present absolute w), w)"
    if a: "\<forall>k. take k ?c \<in> disk_present absolute w \<longrightarrow> take k ?c \<in> disk_dirs absolute w"
  proof -
    have "missing w (absolute, ?c) = ENOENT"
      using a by (auto simp: missing_def list_ex_iff disk_present_def disk_dirs_def)
    then show ?thesis using p(1) r
      by (auto simp: LocalFilesystem_simps disk_posix_def disk_stat_def disk_present_def split: option.split)
  qed
  show "fs_mkdir ?fs p m w = (Inl (FileError ''creating directory'' p EEXIST), w)"
    if "?c \<in> disk_dirs absolute w"
    using that p(1) r
    by (simp add: LocalFilesystem_simps disk_posix_def disk_make_def new_node_def disk_dirs_def)
  show "\<exists>w'. fs_mkdir ?fs p m w = (Inr (), w') \<and>
      disk_present absolute w' = insert ?c (disk_present absolute w) \<and>
      disk_dirs absolute w' = insert ?c (disk_dirs absolute w)"
    if a: "?c \<notin> disk_present absolute w" "butlast ?c \<in> disk_dirs absolute w"
  proof -
    have n: "node_at w (resolve p) = None" "node_at w (parent_of (resolve p)) = Some DirNode"
      using a r by (simp_all add: disk_present_def disk_dirs_def parent_of_def)
    note new = new_node_ok [OF n]
    have "fs_mkdir ?fs p m w = (Inr (), put_node (resolve p) DirNode w)"
      using new(1) p(1) by (simp add: LocalFilesystem_simps disk_posix_def disk_make_def)
    then show ?thesis
      using node_at_put [OF new(2) plain_proper [OF p(1)]] r by (auto simp: disk_present_def disk_dirs_def)
  qed
qed (auto simp: disk_present_def disk_dirs_def node_at_def)

section \<open>Writing to this kernel\<close>

lemma node_at_put_other: "j \<noteq> k \<Longrightarrow> node_at (put_node k n w) j = node_at w j"
  by (simp add: node_at_def put_node_def update_conv')

lemma node_at_del_other: "j \<noteq> k \<Longrightarrow> node_at (del_node k w) j = node_at w j"
  by (simp add: node_at_def del_node_def delete_conv')

lemma node_at_nonroot: "node_at w k \<noteq> Some DirNode \<Longrightarrow> snd k \<noteq> []"
  by (auto simp: node_at_def)

lemma node_at_file: "node_at w k = Some (FileNode bs) \<Longrightarrow> snd k \<noteq> [] \<and> proper k \<and> file_bytes w k = bs"
  by (auto simp: node_at_def file_bytes_def split: if_splits)

lemma new_node_view:
  "new_node k n w = (Inl e, w') \<Longrightarrow> w' = w"
  "new_node k n w = (Inr (), w') \<Longrightarrow> w' = put_node k n w \<and> node_at w k = None \<and> snd k \<noteq> []"
  by (auto simp: new_node_def node_at_def split: if_splits)

lemma disk_open_over:
  assumes "plain_path p" "disk_open p O_WRONLY_CREAT_TRUNC w = (r, w')"
  shows "case r of Inl e \<Rightarrow> w' = w
    | Inr fd \<Rightarrow> of_place fd = resolve p \<and> disk_view w' = (disk_view w)(resolve p := Regular [])"
proof (cases "node_at w (resolve p)")
  case None
  obtain q w1 where q: "new_node (resolve p) (FileNode []) w = (q, w1)" by fastforce
  show ?thesis
    using assms None q new_node_view [of "resolve p" "FileNode []" w] disk_view_put [OF _ plain_proper [OF assms(1)]]
    by (cases q) (auto simp: disk_open_def)
next
  case (Some n)
  show ?thesis
    using assms Some node_at_nonroot [of w "resolve p"] disk_view_put [OF _ plain_proper [OF assms(1)]]
    by (cases n) (auto simp: disk_open_def Let_def)
qed

lemma disk_rename_view:
  assumes "plain_path p" "plain_path q" "disk_rename p q w = (r, w')"
  shows "case r of Inl e \<Rightarrow> w' = w
    | Inr u \<Rightarrow> disk_view w' = (disk_view w)(resolve p := Absent, resolve q := disk_view w (resolve p))"
proof (cases r)
  case (Inr u)
  obtain n where n: "node_at w (resolve p) = Some n" "n \<noteq> DirNode" "node_at w (resolve q) \<noteq> Some DirNode"
      "w' = put_node (resolve q) n (del_node (resolve p) w)"
    using assms(3) Inr by (auto simp: disk_rename_def split: option.splits node.splits if_splits)
  have ne: "snd (resolve p) \<noteq> []" "snd (resolve q) \<noteq> []"
    using n node_at_nonroot [of w "resolve p"] node_at_nonroot [of w "resolve q"] by auto
  then show ?thesis
    using Inr disk_view_put [OF ne(2) plain_proper [OF assms(2)]] disk_view_del [OF ne(1)] n
    by (simp add: disk_view_def)
next
  case (Inl e)
  then show ?thesis using assms(3) by (auto simp: disk_rename_def split: option.splits node.splits if_splits)
qed

interpretation local_store: writable_store "LocalFilesystem (disk_posix rlim None) beyond" disk_view
    "\<lambda>file. of_place (snd file)"
  for rlim :: "nat option" and beyond :: bytes
proof unfold_locales
  fix p q and w w' :: disk and e k and d d' :: "path \<times> ofd" and m :: nat and bs a :: bytes and r :: "exn + unit"
  let ?fs = "LocalFilesystem (disk_posix rlim None) beyond"
  show "disk_view (snd (fs_exists ?fs p w)) = disk_view w"
    by (simp add: LocalFilesystem_simps split: sum.split)
  show "disk_view (snd (fs_prefigure_exists ?fs p w)) = disk_view w"
    by (simp add: LocalFilesystem_def Filesystem_prefigure_exists_def)
  show "disk_view (snd (file_destroy ?fs d w)) = disk_view w"
    by (simp add: LocalFilesystem_simps disk_posix_def)
  show "disk_view (snd (fs_mkdir ?fs p m w)) k = disk_view w k \<or>
      disk_view w k = Absent \<and> disk_view (snd (fs_mkdir ?fs p m w)) k = Folder"
  proof -
    obtain s w1 where s: "new_node (resolve (c_str p)) DirNode w = (s, w1)" by fastforce
    show ?thesis
    proof (cases "c_str p = [] \<or> (\<exists>e. s = Inl e)")
      case True
      then show ?thesis using s new_node_view(1) [of "resolve (c_str p)" DirNode w]
        by (auto simp: LocalFilesystem_simps disk_posix_def disk_make_def checked_def split: prod.split sum.split)
    next
      case False
      then have w1: "w1 = put_node (resolve (c_str p)) DirNode w" "node_at w (resolve (c_str p)) = None"
        "snd (fs_mkdir ?fs p m w) = w1"
        using s new_node_view(2) [of "resolve (c_str p)" DirNode w]
        by (cases s; simp add: LocalFilesystem_simps disk_posix_def disk_make_def)+
      show ?thesis
      proof (cases "k = resolve (c_str p)")
        case True
        have "node_at w1 k \<in> {None, Some DirNode}"
          by (simp add: w1(1) True node_at_def put_node_def update_conv')
        then show ?thesis using w1 True by (auto simp: disk_view_def)
      qed (simp add: w1 disk_view_def node_at_put_other)
    qed
  qed
  show "disk_view (snd (fs_mkdir ?fs p m w)) k = disk_view w k" if "plain_path p \<or> p = []" "k \<noteq> resolve p"
  proof (cases "p = []")
    case True
    then show ?thesis by (simp add: LocalFilesystem_simps disk_posix_def disk_make_def c_str_def)
  next
    case False
    then have p: "plain_path p" using that(1) by simp
    obtain s w1 where s: "new_node (resolve p) DirNode w = (s, w1)" by fastforce
    have "disk_view w1 k = disk_view w k"
      using s that(2) new_node_view [of "resolve p" DirNode w] by (cases s) (auto simp: disk_view_def node_at_put_other)
    then show ?thesis using s p by (cases s) (simp_all add: LocalFilesystem_simps disk_posix_def disk_make_def)
  qed
  show "fs_exists ?fs p w = (Inr True, w') \<Longrightarrow> disk_view w (resolve p) \<noteq> Absent"
    "fs_exists ?fs p w = (Inr False, w') \<Longrightarrow> disk_view w (resolve p) = Absent \<or> disk_view w (resolve p) = Symlink"
    if "plain_path p"
    using that by (auto simp: LocalFilesystem_simps disk_posix_def disk_stat_def disk_view_def entry_of_eq
        split: option.splits if_splits)
  show "disk_view w' = disk_view w" if "plain_path p" "fs_open ?fs p Overwrite w = (Inl e, w')"
    using that disk_open_over [of p w]
    by (auto simp: LocalFilesystem_simps disk_posix_def checked_def split: prod.splits sum.splits)
  show "of_place (snd d) = resolve p \<and> disk_view w' = (disk_view w)(resolve p := Regular [])"
    if "plain_path p" "fs_open ?fs p Overwrite w = (Inr d, w')"
    using that disk_open_over [of p w]
    by (auto simp: LocalFilesystem_simps disk_posix_def checked_def split: prod.splits sum.splits)
  show "of_place (snd d') = of_place (snd d) \<and> (\<forall>k. k \<noteq> of_place (snd d) \<longrightarrow> disk_view w' k = disk_view w k)"
    if "file_writebytes ?fs bs (d, w) = (r, d', w')"
    using that
    by (cases d) (auto simp: LocalFilesystem_def LocalFile_writebytes_def write_loop_complete disk_view_def
        node_at_put_other simp del: split_paired_All)
  show "\<exists>b. disk_view w' (of_place (snd d)) = Regular b \<and> (r = Inr () \<longrightarrow> b = a @ bs)"
    if "file_writebytes ?fs bs (d, w) = (r, d', w')" "disk_view w (of_place (snd d)) = Regular a"
    using that node_at_file [of w "of_place (snd d)" a]
    by (cases d) (auto simp: LocalFilesystem_def LocalFile_writebytes_def write_loop_complete node_at_put
        disk_view_def entry_of_eq split: if_splits)
  show "of_place (snd d') = of_place (snd d) \<and> disk_view w' = disk_view w"
    if "file_synchronize ?fs (d, w) = (r, d', w')"
    using that by (simp add: LocalFilesystem_def File_synchronize_def)
  assume pq: "plain_path p" "plain_path q"
  have ren: "case s of Inl e \<Rightarrow> w' = w
      | Inr u \<Rightarrow> disk_view w' = (disk_view w)(resolve p := Absent, resolve q := disk_view w (resolve p))"
    if "fs_rename ?fs p q w = (s, w')" for s :: "exn + unit"
    using that pq disk_rename_view [OF pq, of w]
    by (auto simp: LocalFilesystem_simps disk_posix_def checked_def split: prod.splits sum.splits)
  show "disk_view w' = disk_view w" if "fs_rename ?fs p q w = (Inl e, w')"
    using ren [OF that] by simp
  show "disk_view w' k = disk_view w k"
    if "fs_rename ?fs p q w = (r, w')" "\<not> at_or_below (resolve p) k" "\<not> at_or_below (resolve q) k"
  proof -
    have "k \<noteq> resolve p" "k \<noteq> resolve q" using that(2,3) at_or_below_refl by blast+
    then show ?thesis using ren [OF that(1)] by (cases r) auto
  qed
  show "disk_view w' = (disk_view w)(resolve p := Absent, resolve q := Regular bs)"
    if "disk_view w (resolve p) = Regular bs" "fs_rename ?fs p q w = (Inr (), w')"
    using ren [OF that(2)] that(1) by simp
qed

end
