(* ===== verification/Sample.thy ===== *)
theory Sample
  imports Cleanup Kernel
begin

text \<open>
  A small repository on the kernel of theory Kernel, on which the properties are applied: an index
  with two entries, of which the repository holds the first, and a stray file that no index needs.
\<close>

definition sample_opts :: options where
  "sample_opts = initial_options\<lparr>repo := ''/r'', indexfile := ''/i'', deleteclean := True\<rparr>"

definition sample_bytes :: bytes where
  "sample_bytes = [0x68, 0x69]"

definition sample_entries :: "(string \<times> string) list list" where
  "sample_entries =
     [[(''name'', ''a b''), (HASH_NAME, hexencode (sha1 sample_bytes))], [(''name'', ''c'')]]"

definition sample_place :: place where
  "sample_place = hash_place sample_opts (sha1 sample_bytes)"

definition stray :: place where
  "stray = (True, [''r'', HASH_NAME, ''stray''])"

definition disk_with :: "bytes \<Rightarrow> disk" where
  "disk_with index =
     (let c = snd sample_place
      in \<lparr>nodes =
        [((True, [''i'']), FileNode index),
         ((True, take 1 c), DirNode), ((True, take 2 c), DirNode), ((True, take 3 c), DirNode),
         ((True, take 4 c), DirNode), (sample_place, FileNode sample_bytes),
         (stray, FileNode [])]\<rparr>)"

definition sample_disk :: disk where
  "sample_disk = disk_with (index_text sample_entries)"

text \<open>An index without its end mark.\<close>

definition truncated_bytes :: bytes where
  "truncated_bytes = bytes_of_string ''name=a+b''"

definition truncated_disk :: disk where
  "truncated_disk = disk_with truncated_bytes"

definition sample_memory :: memory where
  "sample_memory =
     \<lparr>mem_context = \<lparr>Intermediate_Hash = [], Length_Low = 0, Length_High = 0, Message_Block_Index = 0,
        Message_Block = replicate 64 7, Computed = True, Corrupted = 3\<rparr>,
      mem_buffer = replicate BUFFER_SIZE 9\<rparr>"

lemma sample_memory_ok: "memory_ok sample_memory"
  by (simp add: memory_ok_def sample_memory_def)

lemma sample_components: "components ''/r'' = [''r'']" "components ''/i'' = [''i'']"
  by code_simp+

lemma sample_paths:
  "plain_path (repo sample_opts)" "plain_path (indexfile sample_opts)" "root sample_opts = ''''"
  "resolve (indexfile sample_opts) = (True, [''i''])" "resolve (repo sample_opts) = (True, [''r''])"
  "plain_path ''/i''" "resolve ''/i'' = (True, [''i''])"
  by (simp_all add: sample_opts_def initial_options_def plain_path_def resolve_def sample_components)

lemma sample_place_eq:
  "sample_place = (True, [''r'', HASH_NAME, hexpair_of (sha1 sample_bytes ! 0),
     hexpair_of (sha1 sample_bytes ! 1), hexencode (sha1 sample_bytes)])"
  by (simp add: sample_place_def hash_place_def sample_paths)

lemma hex_name: "set n \<subseteq> set hexdigits \<Longrightarrow> n \<noteq> [] \<Longrightarrow> plain_name n"
  using hex_plain by (auto simp: plain_name_def)

lemma hexpair_ne: "hexpair_of b \<noteq> []"
  by (simp add: hexpair_of_def)

lemma sample_proper: "proper sample_place"
  using hex_name [OF hexpair_of_alphabet hexpair_ne] hex_name [OF hexencode_alphabet hexencode_nonempty]
  by (auto simp: proper_def sample_place_eq plain_name_def HASH_NAME_def HASH_SIZE_def)

text \<open>What is on the disk, place by place.\<close>

lemma disk_with_nodes:
  "nodes (disk_with index) =
     [((True, [''i'']), FileNode index),
      ((True, [''r'']), DirNode), ((True, [''r'', HASH_NAME]), DirNode),
      ((True, [''r'', HASH_NAME, hexpair_of (sha1 sample_bytes ! 0)]), DirNode),
      ((True, [''r'', HASH_NAME, hexpair_of (sha1 sample_bytes ! 0), hexpair_of (sha1 sample_bytes ! 1)]), DirNode),
      (sample_place, FileNode sample_bytes), (stray, FileNode [])]"
  by (simp add: disk_with_def Let_def sample_place_eq)

lemma disk_with_index: "disk_view (disk_with index) (True, [''i'']) = Regular index"
  by (simp add: disk_view_def node_at_def disk_with_nodes proper_def plain_name_def)

lemma disk_with_stored: "disk_view (disk_with index) sample_place = Regular sample_bytes"
  using sample_proper
  by (simp add: disk_view_def node_at_def disk_with_nodes) (simp add: sample_place_eq)

lemma stray_length: "length (hexpair_of b) = 2 \<and> length ''stray'' = 5"
  by (simp add: hexpair_of_def)

lemma disk_with_stray: "disk_view (disk_with index) stray = Regular []"
proof -
  have "''stray'' \<noteq> hexpair_of b" for b by (simp add: hexpair_of_def)
  then show ?thesis
    by (simp add: disk_view_def node_at_def disk_with_nodes stray_def sample_place_eq proper_def plain_name_def HASH_NAME_def)
qed

text \<open>Every regular file is one of these three, and directories are at most four deep.\<close>

lemma disk_with_regular:
  "disk_view (disk_with index) k = Regular bs \<Longrightarrow>
     (k, bs) \<in> {((True, [''i'']), index), (sample_place, sample_bytes), (stray, [])}"
  by (auto simp: disk_view_def entry_of_eq node_at_def disk_with_nodes split: if_splits)

lemma disk_with_folder:
  "disk_view (disk_with index) k = Folder \<Longrightarrow> length (snd k) \<le> 4"
  by (auto simp: disk_view_def entry_of_eq node_at_def disk_with_nodes split: if_splits)

lemma disk_with_special: "disk_view (disk_with index) k \<noteq> Symlink \<and> disk_view (disk_with index) k \<noteq> Special"
  by (auto simp: disk_view_def node_at_def disk_with_nodes)

lemmas sample_index = disk_with_index [of "index_text sample_entries", folded sample_disk_def]
lemmas sample_stored = disk_with_stored [of "index_text sample_entries", folded sample_disk_def]
lemmas sample_stray = disk_with_stray [of "index_text sample_entries", folded sample_disk_def]
lemmas sample_regular = disk_with_regular [of "index_text sample_entries", folded sample_disk_def]
lemmas sample_folder = disk_with_folder [of "index_text sample_entries", folded sample_disk_def]
lemmas truncated_index = disk_with_index [of truncated_bytes, folded truncated_disk_def]

lemma sample_depth:
  "depth_below (disk_view sample_disk) (resolve (repo sample_opts @ ''/'' @ HASH_NAME)) 4"
proof -
  have r: "resolve (repo sample_opts @ ''/'' @ HASH_NAME) = (True, [''r'', HASH_NAME])"
    using plain_extend(2) [OF sample_paths(1), of HASH_NAME] by (simp add: sample_paths HASH_NAME_def)
  show ?thesis
    unfolding depth_below_def r
  proof (intro allI impI)
    fix c assume "\<forall>j \<le> length c. disk_view sample_disk (child (True, [''r'', HASH_NAME]) (take j c)) = Folder"
    then have "disk_view sample_disk (child (True, [''r'', HASH_NAME]) c) = Folder"
      by (metis order_refl take_all)
    then show "length c < 4" using sample_folder by (fastforce simp: child_def)
  qed
qed

section \<open>The hypotheses of the properties\<close>

lemma sample_fits: "sha1_fits (index_text sample_entries)" "sha1_fits sample_bytes" "sha1_fits []"
proof -
  have f: "length (format_fields kvs) \<le> 3 * (\<Sum>kv \<leftarrow> kvs. length (fst kv) + length (snd kv) + 1)" for kvs
  proof (induction kvs rule: induct_list012)
    case (2 x)
    then show ?case using length_urlencode [of "fst x"] length_urlencode [of "snd x"]
      by (simp add: format_fields_def format_field_def)
  next
    case (3 x y zs)
    then show ?case using length_urlencode [of "fst x"] length_urlencode [of "snd x"]
      by (simp add: format_fields_def format_field_def)
  qed (simp add: format_fields_def)
  show "sha1_fits (index_text sample_entries)"
    using f [of "hd sample_entries"] f [of "hd (tl sample_entries)"]
    by (simp add: sha1_fits_def index_text_def sample_entries_def HASH_NAME_def)
qed (simp_all add: sha1_fits_def sample_bytes_def)

lemma sample_hashable: "all_hashable (disk_view sample_disk)"
  unfolding all_hashable_def using sample_regular sample_fits by fastforce

lemma disk_with_sane:
  assumes "sha1_fits index"
  shows "sane_store sample_opts (disk_view (disk_with index))"
  unfolding sane_store_def
proof (intro conjI allI impI)
  show "sha1_fits bs" if "disk_view (disk_with index) k = Regular bs" for k bs
    using disk_with_regular [OF that] sample_fits(2,3) assms by auto
  fix h :: bytes assume "length h = HASH_SIZE"
  have k: "hash_place sample_opts h =
      (True, [''r'', HASH_NAME, hexpair_of (h ! 0), hexpair_of (h ! 1), hexencode h])"
    by (simp add: hash_place_def sample_paths)
  have kinds: "disk_view (disk_with index) q \<in> {Absent, Folder} \<union> range Regular" for q
    using disk_with_special [of index q] by (cases "disk_view (disk_with index) q") auto
  show "disk_view (disk_with index) (hash_place sample_opts h) = Absent \<or>
      (\<exists>bs. disk_view (disk_with index) (hash_place sample_opts h) = Regular bs)"
    using kinds [of "hash_place sample_opts h"] disk_with_folder [of index "hash_place sample_opts h"] by (auto simp: k)
  have "disk_view (disk_with index) (True, take j (snd (hash_place sample_opts h))) \<noteq> Regular bs" if "j < 5" for j bs
  proof
    assume r: "disk_view (disk_with index) (True, take j (snd (hash_place sample_opts h))) = Regular bs"
    have j: "j = 0 \<or> j = 1 \<or> j = 2 \<or> j = 3 \<or> j = 4" using that by auto
    have "hexpair_of (h ! 0) \<noteq> ''stray''" by (simp add: hexpair_of_def)
    then show False using disk_with_regular [OF r] j by (auto simp: k sample_place_eq stray_def)
  qed
  then show "unobstructed (disk_view (disk_with index)) (hash_place sample_opts h)"
    using kinds by (fastforce simp: unobstructed_def k)
qed

lemma sample_sane: "sane_store sample_opts (disk_view sample_disk)"
  unfolding sample_disk_def by (rule disk_with_sane [OF sample_fits(1)])

lemma truncated_sane: "sane_store sample_opts (disk_view truncated_disk)"
  unfolding truncated_disk_def
  by (rule disk_with_sane) (simp add: sha1_fits_def truncated_bytes_def)

lemma truncated_details: "index_details truncated_bytes = None"
  by code_simp

lemma sample_details:
  "index_details (index_text sample_entries) = Some (map (\<lambda>kvs. map_of (rev kvs)) sample_entries)"
  by (rule index_details_text) (simp add: sample_entries_def)

lemma sample_hash_of_text: "hash_of_text (hexencode (sha1 sample_bytes)) = Some (sha1 sample_bytes)"
  by (rule hex.decode_encode) (simp add: HASH_SIZE_def)

lemma sample_live: "live_hashes (index_text sample_entries) = Some {sha1 sample_bytes}"
  using sample_hash_of_text
  by (simp add: live_hashes_def sample_details) (simp add: sample_entries_def index_hash_def map_filter_simps HASH_NAME_def)

lemma sample_sound:
  "map (sound_entry sample_opts (disk_view sample_disk)) (map (\<lambda>kvs. map_of (rev kvs)) sample_entries) = [True, False]"
  using sample_hash_of_text sample_stored
  by (simp add: sample_entries_def sound_entry_def entry_hash_def stored_def sample_place_def HASH_NAME_def)

lemma sample_unsound:
  "length (filter (\<lambda>l. \<not> sound_entry sample_opts (disk_view sample_disk) l)
     (map (\<lambda>kvs. map_of (rev kvs)) sample_entries)) = 1"
  using sample_sound by (simp add: sample_entries_def)

lemma sample_readable:
  "\<forall>l \<in> set (map (\<lambda>kvs. map_of (rev kvs)) sample_entries). readable_entry l"
  using sample_hash_of_text by (simp add: sample_entries_def readable_entry_def entry_hash_def HASH_NAME_def)

text \<open>The top of the hashed files, and what the walk finds there.\<close>

lemma sample_top:
  "resolve (repo sample_opts @ ''/'' @ HASH_NAME) = (True, [''r'', HASH_NAME])"
  "disk_view sample_disk (True, [''r'', HASH_NAME]) = Folder"
proof -
  show "resolve (repo sample_opts @ ''/'' @ HASH_NAME) = (True, [''r'', HASH_NAME])"
    using plain_extend(2) [OF sample_paths(1), of HASH_NAME] by (simp add: sample_paths HASH_NAME_def)
  show "disk_view sample_disk (True, [''r'', HASH_NAME]) = Folder"
    unfolding sample_disk_def
    by (simp add: disk_view_def node_at_def disk_with_nodes proper_def plain_name_def HASH_NAME_def sample_place_eq stray_def)
qed

lemma sample_stray_garbage:
  "stray \<in> garbage (disk_view sample_disk) (kept sample_opts {sha1 sample_bytes}) (True, [''r'', HASH_NAME])"
proof -
  have "\<not> kept sample_opts {sha1 sample_bytes} ''stray'' []"
  proof
    assume "kept sample_opts {sha1 sample_bytes} ''stray'' []"
    then obtain h where "hash_of_text ''stray'' = Some h" by (auto simp: kept_def)
    then show False by (simp add: hash_of_text_def hashdecode_def)
  qed
  then show ?thesis using sample_stray sample_top(2)
    by (auto simp: garbage_def child_def stray_def reach_def plain_name_def intro!: exI [of _ "[''stray'']"])
qed

text \<open>The sample options and the initial state, field by field.\<close>

lemma sample_fields [simp]:
  "deleteclean sample_opts" "\<not> detectbogus sample_opts" "repo sample_opts = ''/r''"
  "world (initial_globals w) = w" "errors (initial_globals w) = 0" "hash_read (initial_globals w) = 0"
  "hash_mmap (initial_globals w) = 0"
  by (simp_all add: sample_opts_def initial_options_def initial_globals_def)

lemma sample_live_set [simp]: "live (\<lambda>_. index_text sample_entries) [''/i''] = {sha1 sample_bytes}"
  by (simp add: live_def sample_live)

definition sample_libc :: libc where
  "sample_libc = \<lparr>strerror = (\<lambda>_. ''error''), format_g = (\<lambda>_ _. ''1'')\<rparr>"

lemma sample_args:
  "\<forall>arg \<in> set [''/i'']. plain_path arg \<and>
     disk_view (world (initial_globals sample_disk)) (resolve arg) = Regular (index_text sample_entries)"
  "\<forall>arg \<in> set [''/i'']. live_hashes (index_text sample_entries) \<noteq> None"
  "disk_view (world (initial_globals sample_disk)) (resolve (repo sample_opts @ ''/'' @ HASH_NAME)) = Folder"
  "depth_below (disk_view (world (initial_globals sample_disk))) (resolve (repo sample_opts @ ''/'' @ HASH_NAME)) 4"
  "all_hashable (disk_view (world (initial_globals sample_disk)))"
  using sample_paths(6,7) sample_index sample_live sample_top sample_depth sample_hashable by simp_all

end
