(* ===== verification/Numbers.thy ===== *)
theory Numbers
  imports Prelude
begin

text \<open>
  The number conversions of the C library that the program uses (\<open>strtol\<close>, \<open>strtoull\<close>,
  \<open>atol\<close>, and the formats \<open>%llu\<close> and \<open>%0#o\<close>), at their widths, with the round
  trips between printing and reading.
\<close>

section \<open>Reading\<close>

definition is_space :: "char \<Rightarrow> bool" where
  "is_space c \<longleftrightarrow> c = CHR '' '' \<or> 9 \<le> (of_char c :: nat) \<and> (of_char c :: nat) \<le> 13"

definition digit_value :: "nat \<Rightarrow> char \<Rightarrow> nat option" where
  "digit_value base c =
     (let n = of_char c :: nat in if 48 \<le> n \<and> n < 48 + base then Some (n - 48) else None)"

definition digits_value :: "nat \<Rightarrow> string \<Rightarrow> nat" where
  "digits_value base ds = foldl (\<lambda>n c. base * n + the (digit_value base c)) 0 ds"

text \<open>Blanks, a sign, and as many digits as there are; the rest is not looked at. Bases up to 10.\<close>

definition scan_sign :: "string \<Rightarrow> bool \<times> string" where
  "scan_sign t =
     (case t of
        [] \<Rightarrow> (False, [])
      | c # u \<Rightarrow> if c = CHR ''-'' then (True, u) else if c = CHR ''+'' then (False, u) else (False, t))"

definition scan_number :: "nat \<Rightarrow> string \<Rightarrow> bool \<times> nat" where
  "scan_number base s =
     (case scan_sign (dropWhile is_space (c_str s)) of
        (neg, u) \<Rightarrow> (neg, digits_value base (takeWhile (\<lambda>c. digit_value base c \<noteq> None) u)))"

definition LONG_MAX :: int where
  "LONG_MAX = 2 ^ 63 - 1"

text \<open>A value that does not fit is the nearest one that does.\<close>

definition strtol :: "string \<Rightarrow> nat \<Rightarrow> int" where
  "strtol s base =
     (case scan_number base s of
        (neg, n) \<Rightarrow> if neg then max (- LONG_MAX - 1) (- int n) else min LONG_MAX (int n))"

definition strtoull :: "string \<Rightarrow> nat \<Rightarrow> 64 word" where
  "strtoull s base =
     (case scan_number base s of
        (neg, n) \<Rightarrow> if 2 ^ 64 \<le> n then - 1 else if neg then - word_of_nat n else word_of_nat n)"

definition atol :: "string \<Rightarrow> int" where
  "atol s = strtol s 10"

section \<open>Writing\<close>

fun radix :: "nat \<Rightarrow> nat \<Rightarrow> string" where
  "radix base n =
     (if n < base \<or> base < 2 then [digit n] else radix base (n div base) @ [digit (n mod base)])"

declare radix.simps [simp del]

text \<open>\<open>%0#o\<close>: a zero in front, unless the number starts with one.\<close>

definition octal :: "nat \<Rightarrow> string" where
  "octal n = (if n = 0 then ''0'' else CHR ''0'' # radix 8 n)"

section \<open>Round trips\<close>

lemma decimal_radix: "decimal n = radix 10 n"
proof (induction n rule: decimal.induct)
  case (1 n)
  then show ?case by (cases "n < 10") (simp_all add: decimal.simps [of n] radix.simps [of 10 n])
qed

lemma digit_value_digit: "d < base \<Longrightarrow> base \<le> 10 \<Longrightarrow> digit_value base (digit d) = Some d"
  by (simp add: digit_value_def digit_def)

lemma digit_not: "d < 10 \<Longrightarrow> \<not> is_space (digit d) \<and> digit d \<noteq> CHR ''-'' \<and> digit d \<noteq> CHR ''+'' \<and> digit d \<noteq> CHR 0x00"
proof -
  assume "d < 10"
  then have "(of_char (digit d) :: nat) = 48 + d" by (simp add: digit_def)
  then show ?thesis by (auto simp: is_space_def)
qed

lemma digits_value_snoc: "digits_value base (ds @ [c]) = base * digits_value base ds + the (digit_value base c)"
  by (simp add: digits_value_def)

definition all_digits :: "nat \<Rightarrow> string \<Rightarrow> bool" where
  "all_digits base ds \<longleftrightarrow> (\<forall>c \<in> set ds. \<exists>d < base. c = digit d)"

lemma radix_digits:
  assumes "2 \<le> base" "base \<le> 10"
  shows "all_digits base (radix base n) \<and> radix base n \<noteq> [] \<and> digits_value base (radix base n) = n"
proof (induction n rule: less_induct)
  case (less n)
  show ?case
  proof (cases "n < base")
    case True
    then show ?thesis using assms digit_value_digit [of n base]
      by (auto simp: radix.simps [of base n] all_digits_def digits_value_def)
  next
    case False
    have "n div base < n" using False assms(1) by (intro div_less_dividend) auto
    note ih = less [OF this]
    have m: "n mod base < base" using assms(1) by simp
    then have "\<exists>d < base. digit (n mod base) = digit d" by blast
    then show ?thesis using ih False assms digit_value_digit [OF m assms(2)]
      by (auto simp: radix.simps [of base n] digits_value_snoc all_digits_def)
  qed
qed

lemma scan_digits:
  assumes "2 \<le> base" "base \<le> 10" "all_digits base ds" "ds \<noteq> []"
  shows "scan_number base ds = (False, digits_value base ds)"
proof -
  have d: "\<forall>c \<in> set ds. \<not> is_space c \<and> c \<noteq> CHR ''-'' \<and> c \<noteq> CHR ''+'' \<and> c \<noteq> CHR 0x00 \<and> digit_value base c \<noteq> None"
    using assms(2,3) digit_not digit_value_digit unfolding all_digits_def
    by (metis option.distinct(1) order_less_le_trans)
  have "c_str ds = ds" using d by (simp add: c_str_def takeWhile_eq_all_conv)
  moreover have "dropWhile is_space ds = ds" using d assms(4) by (cases ds) auto
  moreover have "scan_sign ds = (False, ds)" using d assms(4) by (cases ds) (auto simp: scan_sign_def)
  moreover have "takeWhile (\<lambda>c. digit_value base c \<noteq> None) ds = ds" using d by (simp add: takeWhile_eq_all_conv)
  ultimately show ?thesis by (simp only: scan_number_def prod.case)
qed

lemma scan_decimal: "scan_number 10 (decimal n) = (False, n)"
  using scan_digits [of 10 "decimal n"] radix_digits [of 10 n] by (simp add: decimal_radix)

lemma strtoull_decimal: "n < 2 ^ 64 \<Longrightarrow> strtoull (decimal n) 10 = word_of_nat n"
  by (simp add: strtoull_def scan_decimal)

lemma strtol_decimal: "int n \<le> LONG_MAX \<Longrightarrow> strtol (decimal n) 10 = int n"
  by (simp add: strtol_def scan_decimal)

lemma digit_zero: "CHR ''0'' = digit 0"
  by code_simp

lemma strtol_octal:
  assumes "int n \<le> LONG_MAX"
  shows "strtol (octal n) 8 = int n"
proof -
  have r: "all_digits 8 (radix 8 n)" "digits_value 8 (radix 8 n) = n" using radix_digits [of 8 n] by auto
  note z = digit_zero
  have zv: "digit_value 8 (CHR ''0'') = Some 0" unfolding z by (rule digit_value_digit) simp_all
  have "digits_value 8 (CHR ''0'' # ds) = digits_value 8 ds" for ds
    by (simp add: digits_value_def zv)
  moreover have "all_digits 8 (CHR ''0'' # radix 8 n)"
    using r(1) z unfolding all_digits_def by (metis set_ConsD zero_less_numeral)
  ultimately have "scan_number 8 (CHR ''0'' # radix 8 n) = (False, n)"
    using scan_digits [of 8 "CHR ''0'' # radix 8 n"] r(2) by simp
  moreover have "scan_number 8 ''0'' = (False, 0)"
  proof -
    have "all_digits 8 ''0''" unfolding all_digits_def z by (auto intro: exI [of _ 0])
    then show ?thesis using scan_digits [of 8 "''0''"] zv by (simp add: digits_value_def)
  qed
  ultimately show ?thesis using assms by (simp add: strtol_def octal_def)
qed

lemma decimal_plain: "c \<in> set (decimal n) \<Longrightarrow> \<exists>d < 10. c = digit d"
  using radix_digits [of 10 n] by (auto simp: decimal_radix all_digits_def)

lemma octal_plain: "c \<in> set (octal n) \<Longrightarrow> \<exists>d < 10. c = digit d"
proof -
  assume "c \<in> set (octal n)"
  then have "c = digit 0 \<or> c \<in> set (radix 8 n)" by (auto simp: octal_def digit_zero split: if_splits)
  moreover have "c \<in> set (radix 8 n) \<Longrightarrow> \<exists>d < 8. c = digit d"
    using radix_digits [of 8 n] by (auto simp: all_digits_def)
  moreover have "d < 8 \<Longrightarrow> d < 10" for d :: nat by simp
  ultimately show ?thesis by (metis zero_less_numeral)
qed

text \<open>A text of decimal digits and nothing else, as \<open>alldigits\<close> of utils.cc tests it.\<close>

lemma digit_10_range: "(\<exists>d < 10. c = digit d) \<longleftrightarrow> 48 \<le> (of_char c :: nat) \<and> (of_char c :: nat) \<le> 57"
proof
  assume "48 \<le> (of_char c :: nat) \<and> (of_char c :: nat) \<le> 57"
  then obtain d where d: "(of_char c :: nat) = 48 + d" by (metis le_iff_add)
  then have "c = digit d" unfolding digit_def by (metis char_of_char)
  then show "\<exists>d < 10. c = digit d"
    using d \<open>48 \<le> (of_char c :: nat) \<and> (of_char c :: nat) \<le> 57\<close> by (intro exI [of _ d]) simp
qed (auto simp: digit_def)

end
