(* ===== verification/Users.thy ===== *)
theory Users
  imports Globals Numbers
begin

text \<open>
  User and group names, from utils.cc: four caches over the password and group databases, which are
  parameters here. Each cached function is shown to compute what the uncached lookup does, and the
  names of an index lead back to the identifiers.
\<close>

section \<open>State\<close>

text \<open>A \<open>uid_t\<close> or \<open>gid_t\<close> has 32 bits.\<close>

type_synonym id = "32 word"

record accounts =
  getpwuid :: "id \<Rightarrow> string option"
  getgrgid :: "id \<Rightarrow> string option"
  getpwnam :: "string \<Rightarrow> id option"
  getgrnam :: "string \<Rightarrow> id option"

record 'w caches = "'w globals" +
  uid2names :: "id \<rightharpoonup> string"
  gid2names :: "id \<rightharpoonup> string"
  names2uid :: "string \<rightharpoonup> id"
  names2gid :: "string \<rightharpoonup> id"

definition initial_caches :: "'w \<Rightarrow> 'w caches" where
  "initial_caches w = globals.extend (initial_globals w)
     \<lparr>uid2names = Map.empty, gid2names = Map.empty, names2uid = Map.empty, names2gid = Map.empty\<rparr>"

section \<open>From identifiers to names\<close>

definition uid2string :: "accounts \<Rightarrow> id \<Rightarrow> (('w, 'z) caches_scheme, string) prog" where
  "uid2string db uid s =
     (case uid2names s uid of
        Some name \<Rightarrow> (Inr name, s)
      | None \<Rightarrow>
          (case getpwuid db uid of
             Some name \<Rightarrow> (Inr name, s\<lparr>uid2names := (uid2names s)(uid \<mapsto> name)\<rparr>)
           | None \<Rightarrow>
               let s = warning (''no name for UID '' @ decimal (unat uid)) s; name = decimal (unat uid)
               in (Inr name, s\<lparr>uid2names := (uid2names s)(uid \<mapsto> name)\<rparr>)))"

definition gid2string :: "accounts \<Rightarrow> id \<Rightarrow> (('w, 'z) caches_scheme, string) prog" where
  "gid2string db gid s =
     (case gid2names s gid of
        Some name \<Rightarrow> (Inr name, s)
      | None \<Rightarrow>
          (case getgrgid db gid of
             Some name \<Rightarrow> (Inr name, s\<lparr>gid2names := (gid2names s)(gid \<mapsto> name)\<rparr>)
           | None \<Rightarrow>
               let s = warning (''no name for GID '' @ decimal (unat gid)) s; name = decimal (unat gid)
               in (Inr name, s\<lparr>gid2names := (gid2names s)(gid \<mapsto> name)\<rparr>)))"

section \<open>From names to identifiers\<close>

definition isdigit :: "char \<Rightarrow> bool" where
  "isdigit c \<longleftrightarrow> 48 \<le> (of_char c :: nat) \<and> (of_char c :: nat) \<le> 57"

definition alldigits :: "string \<Rightarrow> bool" where
  "alldigits s = (if length s = 0 then False else list_all isdigit s)"

definition string2uid :: "accounts \<Rightarrow> string \<Rightarrow> (('w, 'z) caches_scheme, id) prog" where
  "string2uid db name s =
     (case names2uid s name of
        Some uid \<Rightarrow> (Inr uid, s)
      | None \<Rightarrow>
          if \<not> alldigits name then
            (case getpwnam db (c_str name) of
               None \<Rightarrow> fatal (''no UID with name '' @ c_str name) s
             | Some uid \<Rightarrow> (Inr uid, s\<lparr>names2uid := (names2uid s)(name \<mapsto> uid)\<rparr>))
          else
            let uid = word_of_int (atol name)
            in (Inr uid, s\<lparr>names2uid := (names2uid s)(name \<mapsto> uid)\<rparr>))"

definition string2gid :: "accounts \<Rightarrow> string \<Rightarrow> (('w, 'z) caches_scheme, id) prog" where
  "string2gid db name s =
     (case names2gid s name of
        Some gid \<Rightarrow> (Inr gid, s)
      | None \<Rightarrow>
          if \<not> alldigits name then
            (case getgrnam db (c_str name) of
               None \<Rightarrow> fatal (''no GID with name '' @ c_str name) s
             | Some gid \<Rightarrow> (Inr gid, s\<lparr>names2gid := (names2gid s)(name \<mapsto> gid)\<rparr>))
          else
            let gid = word_of_int (atol name)
            in (Inr gid, s\<lparr>names2gid := (names2gid s)(name \<mapsto> gid)\<rparr>))"

section \<open>What the lookups mean\<close>

definition uid_name :: "accounts \<Rightarrow> id \<Rightarrow> string" where
  "uid_name db uid = (case getpwuid db uid of Some name \<Rightarrow> name | None \<Rightarrow> decimal (unat uid))"

definition gid_name :: "accounts \<Rightarrow> id \<Rightarrow> string" where
  "gid_name db gid = (case getgrgid db gid of Some name \<Rightarrow> name | None \<Rightarrow> decimal (unat gid))"

definition name_uid :: "accounts \<Rightarrow> string \<Rightarrow> id option" where
  "name_uid db name = (if alldigits name then Some (word_of_int (atol name)) else getpwnam db (c_str name))"

definition name_gid :: "accounts \<Rightarrow> string \<Rightarrow> id option" where
  "name_gid db name = (if alldigits name then Some (word_of_int (atol name)) else getgrnam db (c_str name))"

section \<open>Interface: a cached lookup\<close>

text \<open>
  \<open>spec\<close> is the uncached function (\<open>None\<close> where there is nothing to find). A hit answers
  from the cache and changes nothing; a miss answers as \<open>spec\<close> does and fills the cache.
\<close>

locale cached_lookup =
  fixes run :: "'k \<Rightarrow> ('s, 'v) prog"
    and cache :: "'s \<Rightarrow> 'k \<rightharpoonup> 'v"
    and spec :: "'k \<Rightarrow> 'v option"
  assumes hit: "cache s k = Some v \<Longrightarrow> run k s = (Inr v, s)"
    and miss: "cache s k = None \<Longrightarrow> spec k = Some v \<Longrightarrow>
      \<exists>s'. run k s = (Inr v, s') \<and> cache s' = (cache s)(k \<mapsto> v)"
    and absent: "cache s k = None \<Longrightarrow> spec k = None \<Longrightarrow> \<exists>msg s'. run k s = (Inl (Fatal msg), s')"
begin

definition coherent :: "'s \<Rightarrow> bool" where
  "coherent s \<longleftrightarrow> (\<forall>k v. cache s k = Some v \<longrightarrow> spec k = Some v)"

text \<open>With a coherent cache the function is the uncached one, and the second time it is silent.\<close>

lemma run_spec:
  assumes "coherent s" "spec k = Some v"
  shows "\<exists>s'. run k s = (Inr v, s') \<and> coherent s' \<and> run k s' = (Inr v, s')"
proof (cases "cache s k")
  case None
  then obtain s' where s': "run k s = (Inr v, s')" "cache s' = (cache s)(k \<mapsto> v)"
    using miss assms(2) by blast
  then show ?thesis using assms hit [of s' k v] by (auto simp: coherent_def)
next
  case (Some u)
  then show ?thesis using assms hit [OF Some] by (auto simp: coherent_def)
qed

lemma run_fails:
  assumes "coherent s" "spec k = None"
  shows "\<exists>msg s'. run k s = (Inl (Fatal msg), s')"
  using assms absent [of s k] by (cases "cache s k") (auto simp: coherent_def)

lemma run_inverse:
  assumes "coherent s" "run k s = (Inr v, s')"
  shows "spec k = Some v"
  using assms run_spec [of s k] run_fails [of s k] by (cases "spec k") fastforce+

end

interpretation uid_names: cached_lookup "uid2string db" uid2names "\<lambda>uid. Some (uid_name db uid)" for db
  by unfold_locales (auto simp: uid2string_def uid_name_def Let_def warning_def split: option.split)

interpretation gid_names: cached_lookup "gid2string db" gid2names "\<lambda>gid. Some (gid_name db gid)" for db
  by unfold_locales (auto simp: gid2string_def gid_name_def Let_def warning_def split: option.split)

interpretation name_uids: cached_lookup "string2uid db" names2uid "name_uid db" for db
  by unfold_locales (auto simp: string2uid_def name_uid_def Let_def fatal_def split: if_splits)

interpretation name_gids: cached_lookup "string2gid db" names2gid "name_gid db" for db
  by unfold_locales (auto simp: string2gid_def name_gid_def Let_def fatal_def split: if_splits)

text \<open>Nothing of the rest of the state is touched, apart from the warnings.\<close>

lemma lookup_frame:
  "world (snd (uid2string db uid s)) = world s" "world (snd (gid2string db gid s)) = world s"
  "world (snd (string2uid db n s)) = world s" "world (snd (string2gid db n s)) = world s"
  "errors (snd (string2uid db n s)) = errors s" "errors (snd (string2gid db n s)) = errors s"
  "names2gid (snd (string2uid db n s)) = names2gid s" "names2uid (snd (string2gid db n s)) = names2uid s"
  by (simp_all add: uid2string_def gid2string_def string2uid_def string2gid_def fatal_def Let_def warning_def
      split: option.split)

section \<open>There and back\<close>

text \<open>
  A database in which the account of a number is found under its name, and no name looks like a
  number; names are C strings.
\<close>

definition consistent :: "accounts \<Rightarrow> bool" where
  "consistent db \<longleftrightarrow>
     (\<forall>uid name. getpwuid db uid = Some name \<longrightarrow>
        getpwnam db name = Some uid \<and> \<not> alldigits name \<and> CHR 0x00 \<notin> set name) \<and>
     (\<forall>gid name. getgrgid db gid = Some name \<longrightarrow>
        getgrnam db name = Some gid \<and> \<not> alldigits name \<and> CHR 0x00 \<notin> set name)"

lemma decimal_id: "alldigits (decimal (unat u)) \<and> word_of_int (atol (decimal (unat u))) = u" for u :: id
proof -
  have "list_all isdigit (decimal (unat u))"
    unfolding list_all_iff isdigit_def using decimal_plain digit_10_range by blast
  moreover have "decimal (unat u) \<noteq> []" using radix_digits [of 10] by (simp add: decimal_radix)
  moreover have "int (unat u) \<le> LONG_MAX"
  proof -
    have "uint u < 2 ^ 32" by (rule order_less_le_trans [OF unsigned_less]) simp
    then show ?thesis by (simp add: LONG_MAX_def)
  qed
  ultimately show ?thesis by (simp add: alldigits_def atol_def strtol_decimal)
qed

lemma uid_round_trip:
  assumes c: "consistent db"
  shows "name_uid db (uid_name db uid) = Some uid"
proof (cases "getpwuid db uid")
  case None
  then show ?thesis using decimal_id [of uid] by (simp add: uid_name_def name_uid_def)
next
  case (Some name)
  then have "c_str name = name" using c by (auto simp: consistent_def c_str_def takeWhile_eq_all_conv)
  then show ?thesis using Some c by (simp add: consistent_def uid_name_def name_uid_def)
qed

lemma gid_round_trip:
  assumes c: "consistent db"
  shows "name_gid db (gid_name db gid) = Some gid"
proof (cases "getgrgid db gid")
  case None
  then show ?thesis using decimal_id [of gid] by (simp add: gid_name_def name_gid_def)
next
  case (Some name)
  then have "c_str name = name" using c by (auto simp: consistent_def c_str_def takeWhile_eq_all_conv)
  then show ?thesis using Some c by (simp add: consistent_def gid_name_def name_gid_def)
qed

end
