(* ===== verification/Exclude.thy ===== *)
theory Exclude
  imports Globals
begin

text \<open>
  The exclusions of exclude.cc: a list of compiled regular expressions, tried in order. The PCRE
  library is a parameter. \<open>excluded\<close> is shown to be "some pattern matches", up to the first
  pattern on which the library fails.
\<close>

section \<open>The library\<close>

text \<open>
  \<open>pcre_compile\<close> gives the pattern or an error message, \<open>pcre_study\<close> an error
  message, if there is one, and what it found; \<open>pcre_exec\<close> a number, negative for errors.
\<close>

record ('re, 'extra) pcre =
  pcre_compile :: "string \<Rightarrow> string + 're"
  pcre_study :: "'re \<Rightarrow> string option \<times> 'extra"
  pcre_exec :: "'re \<Rightarrow> 'extra \<Rightarrow> string \<Rightarrow> int"

definition PCRE_ERROR_NOMATCH :: int where
  "PCRE_ERROR_NOMATCH = -1"

section \<open>The classes\<close>

type_synonym ('re, 'extra) exclusion = "'re \<times> 'extra"

definition quoted :: "string \<Rightarrow> string" where
  "quoted s = [CHR 0x27] @ s @ [CHR 0x27]"

definition Exclusion :: "('re, 'extra) pcre \<Rightarrow> string \<Rightarrow> ('z diag_scheme, ('re, 'extra) exclusion) prog" where
  "Exclusion lib s d =
     (case pcre_compile lib s of
        Inl err \<Rightarrow> fatal (''error compiling regular expression '' @ quoted s @ '': '' @ err) d
      | Inr re \<Rightarrow>
          (case pcre_study lib re of
             (Some err, _) \<Rightarrow> fatal (''error studying regular expression '' @ quoted s @ '': '' @ err) d
           | (None, extra) \<Rightarrow> (Inr (re, extra), d)))"

definition Exclusion_matches ::
  "('re, 'extra) pcre \<Rightarrow> ('re, 'extra) exclusion \<Rightarrow> string \<Rightarrow> ('z diag_scheme, bool) prog" where
  "Exclusion_matches lib x s d =
     (let rc = pcre_exec lib (fst x) (snd x) s
      in if rc < 0 then
           (if rc = PCRE_ERROR_NOMATCH then (Inr False, d)
            else fatal (''error from pcre_exec: -'' @ decimal (nat (- rc))) d)
         else (Inr True, d))"

definition Exclusions_add ::
  "('re, 'extra) pcre \<Rightarrow> string \<Rightarrow> ('re, 'extra) exclusion list \<Rightarrow>
     ('z diag_scheme, ('re, 'extra) exclusion list) prog" where
  "Exclusions_add lib s exclusions = andThen (Exclusion lib s) (\<lambda>x. ret (exclusions @ [x]))"

fun excluded_loop ::
  "('re, 'extra) pcre \<Rightarrow> ('re, 'extra) exclusion list \<Rightarrow> string \<Rightarrow> ('z diag_scheme, bool) prog" where
  "excluded_loop lib [] p d = (Inr False, d)"
| "excluded_loop lib (x # xs) p d =
     andThen (Exclusion_matches lib x p) (\<lambda>m. if m then ret True else excluded_loop lib xs p) d"

definition excluded ::
  "('re, 'extra) pcre \<Rightarrow> ('re, 'extra) exclusion list \<Rightarrow> string \<Rightarrow> ('z diag_scheme, bool) prog" where
  "excluded lib exclusions path = excluded_loop lib exclusions (c_str path)"

section \<open>What they do\<close>

definition accepts :: "('re, 'extra) pcre \<Rightarrow> string \<Rightarrow> ('re, 'extra) exclusion \<Rightarrow> bool" where
  "accepts lib p x \<longleftrightarrow> 0 \<le> pcre_exec lib (fst x) (snd x) p"

definition fails :: "('re, 'extra) pcre \<Rightarrow> string \<Rightarrow> ('re, 'extra) exclusion \<Rightarrow> bool" where
  "fails lib p x \<longleftrightarrow> pcre_exec lib (fst x) (snd x) p < PCRE_ERROR_NOMATCH"

lemma matches_cases:
  "\<not> fails lib p x \<Longrightarrow> Exclusion_matches lib x p d = (Inr (accepts lib p x), d)"
  "fails lib p x \<Longrightarrow> \<exists>msg d'. Exclusion_matches lib x p d = (Inl (Fatal msg), d')"
  by (auto simp: Exclusion_matches_def accepts_def fails_def PCRE_ERROR_NOMATCH_def Let_def fatal_def)

text \<open>The patterns before the first one that decides.\<close>

lemma excluded_loop_eq:
  "\<forall>x \<in> set xs. \<not> fails lib p x \<and> \<not> accepts lib p x \<Longrightarrow>
     excluded_loop lib (xs @ ys) p d = excluded_loop lib ys p d"
  by (induction xs) (simp_all add: matches_cases(1) andThen_def)

lemma excluded_ok:
  "\<forall>x \<in> set xs. \<not> fails lib (c_str path) x \<Longrightarrow>
     excluded lib xs path d = (Inr (\<exists>x \<in> set xs. accepts lib (c_str path) x), d)"
  unfolding excluded_def by (induction xs) (auto simp: matches_cases(1) andThen_def)

lemma excluded_fails:
  assumes "\<forall>x \<in> set xs. \<not> fails lib (c_str path) x \<and> \<not> accepts lib (c_str path) x" "fails lib (c_str path) y"
  shows "\<exists>msg d'. excluded lib (xs @ y # ys) path d = (Inl (Fatal msg), d')"
  using matches_cases(2) [OF assms(2), of d] unfolding excluded_def excluded_loop_eq [OF assms(1)]
  by (auto simp: andThen_def)

end
