(* ===== verification/Backup.thy ===== *)
theory Backup
  imports Hashing Repository IndexLine HashSet Users Exclude Verify "HOL-Library.List_Lexorder" "HOL-Library.Char_ord"
begin

text \<open>
  \<open>do_backup\<close> and \<open>backup_dir\<close> of backup.cc: each directory is listed, its files are put
  into order and written to the index, small ones with their contents, larger ones by hash; then the
  files the repository does not have are copied into it, and the subdirectories follow.
\<close>

section \<open>State\<close>

definition STORE_LIMIT :: nat where
  "STORE_LIMIT = 256"

definition MINMAP :: nat where
  "MINMAP = 256 * 1024"

text \<open>A hint: the hash of a file, with the stat data it had (\<open>time_t\<close> and \<open>off_t\<close> are signed).\<close>

record hint =
  hint_hash :: bytes
  hint_ctime :: int
  hint_mtime :: int
  hint_size :: int

text \<open>
  The static variables, and the index that is being written. \<open>'h\<close> and \<open>'d\<close> are the files of
  the local file system and of the one with the repository.
\<close>

record ('h, 'd, 'w) backing = "'w caches" +
  hints :: "(string \<rightharpoonup> hint) option"
  newhints :: "'h fileobj option"
  inrepo :: "table option"
  index_file :: "'d fileobj option"

text \<open>The file systems, the kernel and the libraries. \<open>hostfs\<close> is the local file system.\<close>

record ('re, 'extra, 'fd, 'd, 'w) source =
  src_conf :: options
  src_sys :: "('fd, 'w) posix"
  src_local :: "('fd localfile, 'w) filesystem"
  src_repo :: "('d, 'w) filesystem"
  src_accounts :: accounts
  src_pcre :: "('re, 'extra) pcre"
  src_exclusions :: "('re, 'extra) exclusion list"
  src_libc :: libc
  src_memory :: memory

section \<open>Writing to a file of the state\<close>

definition write_text :: "('d, 'w) filesystem \<Rightarrow> string \<Rightarrow> ('d \<times> 'w) fileobj \<Rightarrow> (exn + unit) \<times> ('d \<times> 'w) fileobj" where
  "write_text fs t = put (file_writebytes fs) (file_synchronize fs) (bytes_of_string t)"

definition flush_file :: "('d, 'w) filesystem \<Rightarrow> ('d \<times> 'w) fileobj \<Rightarrow> (exn + unit) \<times> ('d \<times> 'w) fileobj" where
  "flush_file fs = flush (file_writebytes fs) (file_synchronize fs)"

definition on_index ::
  "(('d \<times> 'w) fileobj, unit) prog \<Rightarrow> (('h, 'd, 'w, 'z) backing_scheme, unit) prog" where
  "on_index m s =
     (case index_file s of
        None \<Rightarrow> (Inl (AssertFailed ''null pointer''), s)
      | Some f \<Rightarrow>
          (case m (with_world f (world s)) of
             (r, g) \<Rightarrow> (r, s\<lparr>index_file := Some (without_world g), world := snd (dev g)\<rparr>)))"

definition on_newhints ::
  "(('h \<times> 'w) fileobj, unit) prog \<Rightarrow> (('h, 'd, 'w, 'z) backing_scheme, unit) prog" where
  "on_newhints m s =
     (case newhints s of
        None \<Rightarrow> (Inl (AssertFailed ''null pointer''), s)
      | Some f \<Rightarrow>
          (case m (with_world f (world s)) of
             (r, g) \<Rightarrow> (r, s\<lparr>newhints := Some (without_world g), world := snd (dev g)\<rparr>)))"

text \<open>\<open>index->putf(...)\<close> with the text already made.\<close>

definition put_index :: "('re, 'extra, 'fd, 'd, 'w) source \<Rightarrow> string \<Rightarrow>
    (('fd localfile, 'd, 'w, 'z) backing_scheme, unit) prog" where
  "put_index env t = on_index (write_text (src_repo env) t)"

section \<open>Hints\<close>

definition load_hint :: "details \<Rightarrow> (string \<rightharpoonup> hint) \<Rightarrow> 'z diag_scheme \<Rightarrow> (exn + (string \<rightharpoonup> hint)) \<times> 'z diag_scheme" where
  "load_hint hintdetails m =
     andThen (hashdecode (subscript hintdetails HASH_NAME))
       (\<lambda>h. ret (m(subscript hintdetails ''name'' \<mapsto>
          \<lparr>hint_hash = h,
           hint_ctime = sint (strtoull (subscript hintdetails ''ctime'') 10),
           hint_mtime = sint (strtoull (subscript hintdetails ''mtime'') 10),
           hint_size = sint (strtoull (subscript hintdetails ''size'') 10)\<rparr>)))"

definition load_hints ::
  "('re, 'extra, 'fd, 'd, 'w) source \<Rightarrow> (('fd localfile, 'd, 'w, 'z) backing_scheme, unit) prog" where
  "load_hints env =
     (let fs = src_local env; path = hintfile (src_conf env)
      in andThen (in_world (fs_exists fs path))
           (\<lambda>found. if \<not> found then ret ()
              else
                andThen (\<lambda>s. in_world (fs_open fs path ReadOnly)
                          (note_if (verbose (src_conf env)) (''Loading hints from '' @ c_str path) s))
                  (\<lambda>d s.
                     case hints s of
                       None \<Rightarrow> (Inl (AssertFailed ''hints != 0''), s)
                     | Some m \<Rightarrow>
                         (case index_loop (file_readbytes fs) load_hint
                                 (File (mem_buffer (src_memory env)) d) m s of
                            None \<Rightarrow> (Inl Diverges, s)
                          | Some (Inl e, f, s') \<Rightarrow> (Inl e, s')
                          | Some (Inr m', f, s') \<Rightarrow>
                              in_world (delete_File fs f (dev f)) (s'\<lparr>hints := Some m'\<rparr>)))))"

section \<open>Numbers in the index\<close>

text \<open>\<open>%llu\<close> of a signed 64-bit number, and \<open>%d\<close> of the low 32 bits.\<close>

definition format_llu :: "int \<Rightarrow> string" where
  "format_llu t = decimal (unat (word_of_int t :: 64 word))"

definition format_d :: "nat \<Rightarrow> string" where
  "format_d n =
     (let i = sint (word_of_nat n :: 32 word)
      in if i < 0 then CHR ''-'' # decimal (nat (- i)) else decimal (nat i))"

section \<open>Choosing the files of a directory\<close>

text \<open>\<open>dir == "." ? name : dir + "/" + name\<close>\<close>

definition local_name :: "string \<Rightarrow> string \<Rightarrow> string" where
  "local_name dname name = (if dname = ''.'' then name else dname @ ''/'' @ name)"

definition backed_up_type :: "inode_type \<Rightarrow> bool" where
  "backed_up_type ty \<longleftrightarrow> ty = S_IFREG \<or> ty = S_IFDIR \<or> ty = S_IFLNK \<or> ty = S_IFCHR \<or> ty = S_IFBLK \<or> ty = S_IFSOCK"

text \<open>The first loop: the names that are kept, in \<open>ci\<close>, and their stat data, in \<open>sm\<close>.\<close>

fun select_files ::
  "('re, 'extra, 'fd, 'd, 'w) source \<Rightarrow> string \<Rightarrow> string \<Rightarrow> string list \<Rightarrow> string list \<Rightarrow> (string \<rightharpoonup> stat) \<Rightarrow>
     (('fd localfile, 'd, 'w, 'z) backing_scheme, string list \<times> (string \<rightharpoonup> stat)) prog" where
  "select_files env rootdir dname [] ci sm s = (Inr (ci, sm), s)"
| "select_files env rootdir dname (name # c) ci sm s =
     (if name = ''.'' \<or> name = ''..'' then select_files env rootdir dname c ci sm s
      else
        let localname = local_name dname name; fullname = rootdir @ ''/'' @ localname
        in andThen (excluded (src_pcre env) (src_exclusions env) localname)
             (\<lambda>x s. if x then select_files env rootdir dname c ci sm s
                else
                  (case sys_lstat (src_sys env) (c_str fullname) (world s) of
                     Inl e \<Rightarrow>
                       if e = ENOENT then
                         select_files env rootdir dname c ci sm
                           (warning (''lstat '' @ c_str fullname @ '': '' @ strerror (src_libc env) e) s)
                       else (Inl (FileError ''lstat'' fullname e), s)
                   | Inr sb \<Rightarrow>
                       if \<not> backed_up_type (st_type sb) then
                         select_files env rootdir dname c ci sm
                           ((warning (''cannot back up '' @ c_str fullname) s)
                              \<lparr>unknown_files := unknown_files s + 1\<rparr>)
                       else select_files env rootdir dname c (ci @ [name]) (sm(name \<mapsto> sb)) s)) s)"

section \<open>One entry of the index\<close>

text \<open>The name that is written: relative, except at the start of a directory and at the top.\<close>

definition relative_name :: "bool \<Rightarrow> string \<Rightarrow> string" where
  "relative_name first localname =
     (if first then localname
      else (case rfind localname (CHR ''/'') of
              Some n \<Rightarrow> ''./'' @ drop (n + 1) localname
            | None \<Rightarrow> localname))"

definition generic_details :: "string \<Rightarrow> stat \<Rightarrow> string \<Rightarrow> string \<Rightarrow> string" where
  "generic_details relname sb uname gname =
     ''name='' @ urlencode relname @ ''&perms='' @ octal (st_perm sb) @ ''&uid='' @ urlencode uname @
     ''&gid='' @ urlencode gname @ ''&atime='' @ format_llu (st_atime sb) @ ''&ctime='' @
     format_llu (st_ctime sb) @ ''&mtime='' @ format_llu (st_mtime sb)"

text \<open>Reading a small file, in as many pieces as it takes.\<close>

function read_small ::
  "'d reader \<Rightarrow> string \<Rightarrow> nat \<Rightarrow> bytes \<Rightarrow> 'd fileobj \<Rightarrow> 'z diag_scheme \<Rightarrow> (exn + bytes) \<times> 'd fileobj \<times> 'z diag_scheme" where
  "read_small rb fullname sz got f s =
     (if length got < sz then
        (case getbytes rb (sz - length got) False f of
           (Inl e, f') \<Rightarrow> (Inl e, f', s)
         | (Inr bs, f') \<Rightarrow>
             if bs = [] then (case fatal (''unexpected EOF reading '' @ c_str fullname) s of (r, s') \<Rightarrow> (r, f', s'))
             else read_small rb fullname sz (got @ bs) f' s)
      else (Inr got, f, s))"
  by pat_completeness auto
termination
  by (relation "measure (\<lambda>(_, _, sz, got, _, _). sz - length got)") (auto simp: length_greater_0_conv [symmetric] simp del: length_greater_0_conv)

declare read_small.simps [simp del]

definition backup_small ::
  "('re, 'extra, 'fd, 'd, 'w) source \<Rightarrow> path \<Rightarrow> stat \<Rightarrow> (('fd localfile, 'd, 'w, 'z) backing_scheme, unit) prog" where
  "backup_small env fullname sb =
     (let fs = src_local env
      in andThen (in_world (fs_open fs fullname ReadOnly))
           (\<lambda>d s.
              case read_small (file_readbytes fs) fullname (st_size sb) [] (File (mem_buffer (src_memory env)) d) s of
                (Inl e, f, s') \<Rightarrow> (Inl e, s')
              | (Inr bs, f, s') \<Rightarrow>
                  andThen (put_index env (''&data='' @ urlencode (string_of_bytes bs)))
                    (\<lambda>_. andThen (in_world (delete_File fs f (dev f)))
                       (\<lambda>_ s. (Inr (), s\<lparr>small_files := small_files s + 1\<rparr>))) s'))"

text \<open>A file that the repository may not have yet.\<close>

record hashable =
  ha_path :: path
  ha_hp :: path
  ha_hash :: bytes

definition hint_matches :: "hint \<Rightarrow> stat \<Rightarrow> bool" where
  "hint_matches h sb \<longleftrightarrow>
     hint_size h = int (st_size sb) \<and> hint_mtime h = st_mtime sb \<and> hint_ctime h = st_ctime sb"

definition find_hint :: "(string \<rightharpoonup> hint) option \<Rightarrow> path \<Rightarrow> stat \<Rightarrow> bytes option" where
  "find_hint hs fullname sb =
     (case hs of
        None \<Rightarrow> None
      | Some m \<Rightarrow>
          (case m fullname of
             None \<Rightarrow> None
           | Some h \<Rightarrow> if hint_matches h sb then Some (hint_hash h) else None))"

definition backup_hash ::
  "('re, 'extra, 'fd, 'd, 'w) source \<Rightarrow> path \<Rightarrow> stat \<Rightarrow> (('fd localfile, 'd, 'w, 'z) backing_scheme, bytes) prog" where
  "backup_hash env fullname sb s =
     (case find_hint (hints s) fullname sb of
        Some h \<Rightarrow> (Inr h, s\<lparr>hints_used := hints_used s + 1\<rparr>)
      | None \<Rightarrow>
          hashfile (src_sys env) (src_local env) (mem_context (src_memory env)) (mem_buffer (src_memory env))
            fullname (MINMAP \<le> st_size sb) s)"

definition save_hint ::
  "('re, 'extra, 'fd, 'd, 'w) source \<Rightarrow> path \<Rightarrow> stat \<Rightarrow> bytes \<Rightarrow> (('fd localfile, 'd, 'w, 'z) backing_scheme, unit) prog" where
  "save_hint env fullname sb h s =
     (if hints s \<noteq> None then
        on_newhints (write_text (src_local env)
          (''name='' @ urlencode fullname @ ''&'' @ HASH_NAME @ ''='' @ hexencode h @ ''&ctime='' @
           format_llu (st_ctime sb) @ ''&mtime='' @ format_llu (st_mtime sb) @ ''&size='' @
           format_llu (int (st_size sb)) @ [CHR 0x0A])) s
      else (Inr (), s))"

definition backup_large ::
  "('re, 'extra, 'fd, 'd, 'w) source \<Rightarrow> path \<Rightarrow> stat \<Rightarrow> hashable list \<Rightarrow>
     (('fd localfile, 'd, 'w, 'z) backing_scheme, hashable list) prog" where
  "backup_large env fullname sb hashables =
     andThen (backup_hash env fullname sb)
       (\<lambda>h. andThen (save_hint env fullname sb h)
          (\<lambda>_. andThen
             (\<lambda>s. case inrepo s of
                 None \<Rightarrow> (Inl (AssertFailed ''null pointer''), s)
               | Some t \<Rightarrow>
                   if \<not> HashSet_has h t then
                     (let hp = hash_file (src_conf env) h
                      in andThen (in_world (fs_prefigure_exists (src_repo env) hp))
                           (\<lambda>_ s. (Inr (hashables @ [\<lparr>ha_path = fullname, ha_hp = hp, ha_hash = h\<rparr>]),
                              s\<lparr>inrepo := Some (HashSet_insert h t)\<rparr>)) s)
                   else (Inr hashables, s))
             (\<lambda>hashables'. andThen (put_index env (''&'' @ HASH_NAME @ ''='' @ hexencode h))
                (\<lambda>_. ret hashables'))))"

definition restore_atime ::
  "('re, 'extra, 'fd, 'd, 'w) source \<Rightarrow> path \<Rightarrow> stat \<Rightarrow> (('fd localfile, 'd, 'w, 'z) backing_scheme, unit) prog" where
  "restore_atime env fullname sb =
     (if preserve_atime (src_conf env) then
        in_world (\<lambda>w. checked ''restoring access time'' fullname
          (sys_utimes (src_sys env) (c_str fullname) (st_atime sb) (st_mtime sb) w))
      else ret ())"

definition backup_regular ::
  "('re, 'extra, 'fd, 'd, 'w) source \<Rightarrow> path \<Rightarrow> stat \<Rightarrow> hashable list \<Rightarrow>
     (('fd localfile, 'd, 'w, 'z) backing_scheme, hashable list) prog" where
  "backup_regular env fullname sb hashables =
     andThen
       (if st_size sb \<le> STORE_LIMIT then andThen (backup_small env fullname sb) (\<lambda>_. ret hashables)
        else backup_large env fullname sb hashables)
       (\<lambda>hashables'. andThen
          (put_index env ((if 1 < st_nlink sb then ''&inode='' @ decimal (st_ino sb) else []) @ [CHR 0x0A]))
          (\<lambda>_. andThen (restore_atime env fullname sb)
             (\<lambda>_ s. (Inr hashables', s\<lparr>total_regular_files := total_regular_files s + 1\<rparr>))))"

text \<open>The rest of the line, by type; the result has the new lists of files to store and of directories.\<close>

definition backup_details ::
  "('re, 'extra, 'fd, 'd, 'w) source \<Rightarrow> string \<Rightarrow> path \<Rightarrow> stat \<Rightarrow> hashable list \<Rightarrow> string list \<Rightarrow>
     (('fd localfile, 'd, 'w, 'z) backing_scheme, hashable list \<times> string list) prog" where
  "backup_details env localname fullname sb hashables dirs =
     (case st_type sb of
        S_IFREG \<Rightarrow> andThen (backup_regular env fullname sb hashables) (\<lambda>hashables'. ret (hashables', dirs))
      | S_IFDIR \<Rightarrow>
          andThen (put_index env (''&type=dir'' @ [CHR 0x0A]))
            (\<lambda>_. andThen
               (if crossfs (src_conf env) then ret True
                else andThen (in_world (fs_ismount (src_local env) fullname)) (\<lambda>m. ret (\<not> m)))
               (\<lambda>follow. ret (hashables, if follow then dirs @ [localname] else dirs)))
      | S_IFLNK \<Rightarrow>
          andThen (in_world (fs_readlink (src_local env) fullname))
            (\<lambda>target. andThen (put_index env (''&target='' @ urlencode target @ ''&type=link'' @ [CHR 0x0A]))
               (\<lambda>_ s. (Inr (hashables, dirs), s\<lparr>total_links := total_links s + 1\<rparr>)))
      | S_IFSOCK \<Rightarrow>
          andThen (put_index env (''&type=socket'' @ [CHR 0x0A]))
            (\<lambda>_ s. (Inr (hashables, dirs), s\<lparr>total_socks := total_socks s + 1\<rparr>))
      | S_IFCHR \<Rightarrow>
          andThen (put_index env (''&rdev='' @ format_d (st_rdev sb) @ ''&type=chr'' @ [CHR 0x0A]))
            (\<lambda>_ s. (Inr (hashables, dirs), s\<lparr>total_devs := total_devs s + 1\<rparr>))
      | S_IFBLK \<Rightarrow>
          andThen (put_index env (''&rdev='' @ format_d (st_rdev sb) @ ''&type=blk'' @ [CHR 0x0A]))
            (\<lambda>_ s. (Inr (hashables, dirs), s\<lparr>total_devs := total_devs s + 1\<rparr>))
      | S_IFIFO \<Rightarrow> ret (hashables, dirs))"

definition backup_entry ::
  "('re, 'extra, 'fd, 'd, 'w) source \<Rightarrow> string \<Rightarrow> string \<Rightarrow> bool \<Rightarrow> string \<Rightarrow> stat \<Rightarrow> hashable list \<Rightarrow> string list \<Rightarrow>
     (('fd localfile, 'd, 'w, 'z) backing_scheme, hashable list \<times> string list) prog" where
  "backup_entry env rootdir dname first name sb hashables dirs =
     (let localname = local_name dname name; fullname = rootdir @ ''/'' @ localname
      in andThen (uid2string (src_accounts env) (st_uid sb))
           (\<lambda>uname. andThen (gid2string (src_accounts env) (st_gid sb))
              (\<lambda>gname. andThen (put_index env (generic_details (relative_name first localname) sb uname gname))
                 (\<lambda>_. backup_details env localname fullname sb hashables dirs))))"

fun backup_entries ::
  "('re, 'extra, 'fd, 'd, 'w) source \<Rightarrow> string \<Rightarrow> string \<Rightarrow> (string \<rightharpoonup> stat) \<Rightarrow> bool \<Rightarrow> string list \<Rightarrow>
     hashable list \<Rightarrow> string list \<Rightarrow>
     (('fd localfile, 'd, 'w, 'z) backing_scheme, hashable list \<times> string list) prog" where
  "backup_entries env rootdir dname sm first [] hashables dirs s = (Inr (hashables, dirs), s)"
| "backup_entries env rootdir dname sm first (name # ci) hashables dirs s =
     andThen (backup_entry env rootdir dname first name (the (sm name)) hashables dirs)
       (\<lambda>(hashables', dirs'). backup_entries env rootdir dname sm False ci hashables' dirs') s"

section \<open>Storing the files\<close>

text \<open>The open of the temporary file, with the directories made if they are missing.\<close>

definition open_in_repo :: "('d, 'w) filesystem \<Rightarrow> path \<Rightarrow> path \<Rightarrow> ('w, 'd) prog" where
  "open_in_repo fs hp tmpname =
     catching (fs_open fs tmpname Overwrite)
       (\<lambda>e. case file_error e of
              None \<Rightarrow> None
            | Some n \<Rightarrow>
                Some (if n \<noteq> ENOENT then throw e
                      else andThen (makedirs fs (take (case rfind hp (CHR ''/'') of Some i \<Rightarrow> i | None \<Rightarrow> length hp) hp))
                             (\<lambda>_. fs_open fs tmpname Overwrite)))"

text \<open>What one chunk goes to: the new file, and the hash if it is to be checked.\<close>

definition store_chunk ::
  "('d, 'w) filesystem \<Rightarrow> bool \<Rightarrow> bytes \<Rightarrow> (('d \<times> 'w) fileobj \<times> SHA1Context, unit) prog" where
  "store_chunk fs recheck bs x =
     (case x of (dst, ctx) \<Rightarrow>
        (case put (file_writebytes fs) (file_synchronize fs) bs dst of
           (Inl e, dst') \<Rightarrow> (Inl e, (dst', ctx))
         | (Inr _, dst') \<Rightarrow>
             if recheck then (case Hash_write bs ctx of (r, ctx') \<Rightarrow> (r, (dst', ctx'))) else (Inr (), (dst', ctx))))"

definition store_copy ::
  "('re, 'extra, 'fd, 'd, 'w) source \<Rightarrow> hashable \<Rightarrow> 'fd localfile \<Rightarrow> 'd \<Rightarrow> SHA1Context \<Rightarrow>
     (('fd localfile, 'd, 'w, 'z) backing_scheme, unit) prog" where
  "store_copy env ha d d' ctx s =
     (let hfs = src_local env; bfs = src_repo env; junk = mem_buffer (src_memory env)
      in case read_loop (file_readbytes hfs) 4096 (store_chunk bfs (recheckhash (src_conf env)))
                (File junk d) (File junk (d', world s), ctx) of
           None \<Rightarrow> (Inl Diverges, s)
         | Some (Inl e, f, (dst, ctx')) \<Rightarrow> (Inl e, s\<lparr>world := snd (dev dst)\<rparr>)
         | Some (Inr _, f, (dst, ctx')) \<Rightarrow>
             andThen
               (if recheckhash (src_conf env) then
                  (\<lambda>s. case fst (Hash_value ctx') of
                     Inl e \<Rightarrow> (Inl e, s)
                   | Inr actual_hash \<Rightarrow>
                       if actual_hash \<noteq> ha_hash ha then
                         fatal (c_str (ha_path ha) @ '' changed hash between test and write'') s
                       else (Inr (), s))
                else ret ())
               (\<lambda>_ s. case flush_file bfs dst of
                   (Inl e, dst') \<Rightarrow> (Inl e, s\<lparr>world := snd (dev dst')\<rparr>)
                 | (Inr _, dst') \<Rightarrow>
                     andThen (in_world (delete_File hfs f (dev f)))
                       (\<lambda>_. in_world (delete_File bfs dst' (fst (dev dst')))) (s\<lparr>world := snd (dev dst')\<rparr>))
               (s\<lparr>world := snd (dev dst)\<rparr>))"

definition store_file ::
  "('re, 'extra, 'fd, 'd, 'w) source \<Rightarrow> hashable \<Rightarrow> (('fd localfile, 'd, 'w, 'z) backing_scheme, unit) prog" where
  "store_file env ha =
     (let hfs = src_local env; bfs = src_repo env
      in andThen (in_world (fs_exists bfs (ha_hp ha)))
           (\<lambda>found. if found then ret ()
              else
                let tmpname = ha_hp ha @ ''.tmp''
                in andThen (in_world (fs_open hfs (ha_path ha) ReadOnly))
                     (\<lambda>d. case Hash_init (mem_context (src_memory env)) of
                        (Inl e, _) \<Rightarrow> throw e
                      | (Inr _, ctx) \<Rightarrow>
                          andThen (in_world (open_in_repo bfs (ha_hp ha) tmpname))
                            (\<lambda>d'. andThen (store_copy env ha d d' ctx)
                               (\<lambda>_. andThen (in_world (fs_rename bfs tmpname (ha_hp ha)))
                                  (\<lambda>_ s. (Inr (), s\<lparr>new_hashes := new_hashes s + 1\<rparr>)))))))"

fun store_files ::
  "('re, 'extra, 'fd, 'd, 'w) source \<Rightarrow> hashable list \<Rightarrow> (('fd localfile, 'd, 'w, 'z) backing_scheme, unit) prog" where
  "store_files env [] s = (Inr (), s)"
| "store_files env (ha # hs) s = andThen (store_file env ha) (\<lambda>_. store_files env hs) s"

section \<open>A directory and what is below it\<close>

definition backup_here ::
  "('re, 'extra, 'fd, 'd, 'w) source \<Rightarrow> string \<Rightarrow> string \<Rightarrow> (('fd localfile, 'd, 'w, 'z) backing_scheme, string list) prog" where
  "backup_here env rootdir dname =
     (let fulldir = rootdir @ (if dname = ''.'' then [] else ''/'' @ dname)
      in andThen (in_world (fs_contents (src_local env) fulldir))
           (\<lambda>c. andThen (select_files env rootdir dname c [] Map.empty)
              (\<lambda>(ci, sm). andThen (backup_entries env rootdir dname sm True (sort ci) [] [])
                 (\<lambda>(hashables, dirs). andThen (store_files env hashables) (\<lambda>_. ret dirs)))))"

text \<open>The recursion, with fuel for its depth: 0 fuel stands for not returning.\<close>

function (sequential) backup_dir ::
  "('re, 'extra, 'fd, 'd, 'w) source \<Rightarrow> string \<Rightarrow> nat \<Rightarrow> string \<Rightarrow> (('fd localfile, 'd, 'w, 'z) backing_scheme, unit) prog"
and backup_dirs ::
  "('re, 'extra, 'fd, 'd, 'w) source \<Rightarrow> string \<Rightarrow> nat \<Rightarrow> string list \<Rightarrow> (('fd localfile, 'd, 'w, 'z) backing_scheme, unit) prog" where
  "backup_dir env rootdir 0 dname s = (Inl Diverges, s)"
| "backup_dir env rootdir (Suc k) dname s = andThen (backup_here env rootdir dname) (\<lambda>dirs. backup_dirs env rootdir k dirs) s"
| "backup_dirs env rootdir k [] s = (Inr (), s)"
| "backup_dirs env rootdir k (dname # dirs) s = andThen (backup_dir env rootdir k dname) (\<lambda>_. backup_dirs env rootdir k dirs) s"
  by pat_completeness auto
termination
  by (relation "measures [\<lambda>x. case x of Inl (_, _, k, _, _) \<Rightarrow> k | Inr (_, _, k, _, _) \<Rightarrow> k,
      \<lambda>x. case x of Inl _ \<Rightarrow> 0 | Inr (_, _, _, dirs, _) \<Rightarrow> Suc (length dirs)]") auto

section \<open>The operation\<close>

text \<open>\<open>put("[end]\n")\<close>, \<open>flush\<close> and \<open>delete\<close>, of the index and of the new hints.\<close>

definition finish_index ::
  "('re, 'extra, 'fd, 'd, 'w) source \<Rightarrow> (('fd localfile, 'd, 'w, 'z) backing_scheme, unit) prog" where
  "finish_index env =
     andThen (put_index env (''[end]'' @ [CHR 0x0A]))
       (\<lambda>_. andThen (on_index (flush_file (src_repo env)))
          (\<lambda>_ s. case index_file s of
              None \<Rightarrow> (Inl (AssertFailed ''null pointer''), s)
            | Some f \<Rightarrow> in_world (delete_File (src_repo env) f (dev f)) (s\<lparr>index_file := None\<rparr>)))"

definition finish_hints ::
  "('re, 'extra, 'fd, 'd, 'w) source \<Rightarrow> path \<Rightarrow> (('fd localfile, 'd, 'w, 'z) backing_scheme, unit) prog" where
  "finish_hints env newhintfile =
     andThen (on_newhints (write_text (src_local env) (''[end]'' @ [CHR 0x0A])))
       (\<lambda>_. andThen (on_newhints (flush_file (src_local env)))
          (\<lambda>_. andThen
             (\<lambda>s. case newhints s of
                 None \<Rightarrow> (Inl (AssertFailed ''null pointer''), s)
               | Some f \<Rightarrow> in_world (delete_File (src_local env) f (dev f)) s)
             (\<lambda>_. in_world (fs_rename (src_local env) newhintfile (hintfile (src_conf env))))))"

definition start_hints ::
  "('re, 'extra, 'fd, 'd, 'w) source \<Rightarrow> path \<Rightarrow> (('fd localfile, 'd, 'w, 'z) backing_scheme, unit) prog" where
  "start_hints env newhintfile =
     (if hintfile (src_conf env) \<noteq> '''' then
        andThen (\<lambda>s. load_hints env (s\<lparr>hints := Some Map.empty\<rparr>))
          (\<lambda>_. andThen (in_world (fs_open (src_local env) newhintfile Overwrite))
             (\<lambda>d s. (Inr (), s\<lparr>newhints := Some (File (mem_buffer (src_memory env)) d)\<rparr>)))
      else ret ())"

definition do_backup ::
  "('re, 'extra, 'fd, 'd, 'w) source \<Rightarrow> nat \<Rightarrow> (('fd localfile, 'd, 'w, 'z) backing_scheme, unit) prog" where
  "do_backup env fuel =
     (let conf = src_conf env; bfs = src_repo env; newhintfile = hintfile conf @ ''.tmp'';
          target = (if overwrite_index conf then indexfile conf else indexfile conf @ ''.tmp'')
      in if repo conf = '''' then fatal ''no repository specified''
         else if root conf = '''' then fatal ''no root specified''
         else if indexfile conf = '''' then fatal ''no index specified''
         else if \<not> fs_local (src_local env) then throw (AssertFailed ''hostfs == &local'')
         else
           andThen (if overwrite_index conf then ret False else in_world (fs_exists bfs (indexfile conf)))
             (\<lambda>found. if found then fatal (''index file '' @ c_str (indexfile conf) @ '' already exists'')
                else
                  andThen (\<lambda>s. start_hints env newhintfile
                            (if inrepo s = None then s\<lparr>inrepo := Some HashSet_new\<rparr> else s))
                    (\<lambda>_. andThen (in_world (fs_open bfs target Overwrite))
                       (\<lambda>d. andThen (\<lambda>s. backup_dir env (root conf) fuel ''.''
                                 (s\<lparr>index_file := Some (File (mem_buffer (src_memory env)) d)\<rparr>))
                          (\<lambda>_. andThen (finish_index env)
                             (\<lambda>_. andThen (\<lambda>s. if hints s \<noteq> None then finish_hints env newhintfile s else (Inr (), s))
                                (\<lambda>_. if \<not> overwrite_index conf
                                   then in_world (fs_rename bfs target (indexfile conf)) else ret ())))))))"

end
