(* ===== verification/Recode.thy ===== *)
theory Recode
  imports Globals
begin

text \<open>
  The class \<open>Recode\<close> of recode.cc: conversion between encodings with the \<open>iconv\<close>
  functions, which are parameters. Where they keep their contract, the conversion ends, every
  character is converted, and every byte that belongs to none becomes a question mark.
\<close>

section \<open>The library\<close>

text \<open>
  \<open>'cd\<close> is the state of a conversion descriptor (\<open>None\<close> is the null pointer). One call of
  \<open>iconv\<close> takes the input and the room for output, and gives the error, if any, the number of
  bytes used, and the output.
\<close>

record 'cd iconv =
  iconv_open :: "string \<Rightarrow> string \<Rightarrow> 'cd option"
  iconv_reset :: "'cd \<Rightarrow> 'cd"
  iconv_step :: "'cd \<Rightarrow> string \<Rightarrow> nat \<Rightarrow> errno option \<times> nat \<times> string \<times> 'cd"

definition EILSEQ :: errno where "EILSEQ = 84"
definition EINVAL :: errno where "EINVAL = 22"
definition E2BIG :: errno where "E2BIG = 7"

section \<open>The class\<close>

text \<open>
  The constructor, with the parameters named as in its definition (to, from); its caller passes
  (from, to), and it passes them on as (from, to) to \<open>iconv_open\<close>, which expects (to, from).
\<close>

definition Recode :: "'cd iconv \<Rightarrow> string option \<Rightarrow> string option \<Rightarrow> ('z diag_scheme, 'cd option) prog" where
  "Recode lib to from d =
     (case (from, to) of
        (None, None) \<Rightarrow> (Inr None, d)
      | (Some f, Some t) \<Rightarrow>
          (case iconv_open lib f t of
             None \<Rightarrow> fatal (''error calling iconv_open('' @ f @ '','' @ t @ '')'') d
           | Some cd \<Rightarrow> (Inr (Some cd), d))
      | _ \<Rightarrow> fatal ''incomplete encoding version specification'' d)"

definition CONVERT_BUFFER :: nat where
  "CONVERT_BUFFER = 1024"

text \<open>
  The loop; \<open>None\<close> if it does not end. After an invalid sequence one byte of input is skipped
  (the library never reports one with nothing left).
\<close>

partial_function (option) convert_loop ::
  "'cd iconv \<Rightarrow> libc \<Rightarrow> 'cd \<Rightarrow> string \<Rightarrow> string \<Rightarrow> 'z diag_scheme \<Rightarrow>
     ((exn + string) \<times> 'cd \<times> 'z diag_scheme) option" where
  "convert_loop lib lc cd inbuf r d =
     (if inbuf = [] then Some (Inr r, cd, d)
      else
        (case iconv_step lib cd inbuf CONVERT_BUFFER of
           (e, n, out, cd') \<Rightarrow>
             let r = r @ out; inbuf = drop n inbuf
             in (case e of
                   None \<Rightarrow> convert_loop lib lc cd' inbuf r d
                 | Some e \<Rightarrow>
                     if e = EILSEQ \<or> e = EINVAL then convert_loop lib lc cd' (drop 1 inbuf) (r @ ''?'') d
                     else if e = E2BIG then convert_loop lib lc cd' inbuf r d
                     else (case fatal (''error calling iconv: '' @ strerror lc e) d of
                             (x, d') \<Rightarrow> Some (x, cd', d')))))"

declare convert_loop.simps [code]

definition convert ::
  "'cd iconv \<Rightarrow> libc \<Rightarrow> 'cd option \<Rightarrow> string \<Rightarrow> ('z diag_scheme, string \<times> 'cd option) prog" where
  "convert lib lc cd s d =
     (case cd of
        None \<Rightarrow> (Inr (s, None), d)
      | Some c \<Rightarrow>
          (case convert_loop lib lc (iconv_reset lib c) s [] d of
             None \<Rightarrow> (Inl Diverges, d)
           | Some (Inl e, _, d') \<Rightarrow> (Inl e, d')
           | Some (Inr r, c', d') \<Rightarrow> (Inr (r, Some c'), d')))"

section \<open>What is expected of the library\<close>

text \<open>
  \<open>char1 s\<close> is the first character of a non-empty text: its length and what it becomes, or
  \<open>None\<close> if the text does not start with a character.
\<close>

fun recode_ref :: "(string \<Rightarrow> (nat \<times> string) option) \<Rightarrow> nat \<Rightarrow> string \<Rightarrow> string" where
  "recode_ref char1 0 s = []"
| "recode_ref char1 (Suc k) s =
     (if s = [] then []
      else (case char1 s of
              None \<Rightarrow> ''?'' @ recode_ref char1 k (drop 1 s)
            | Some (n, out) \<Rightarrow> out @ recode_ref char1 k (drop n s)))"

text \<open>The text made of whole characters that a prefix of length \<open>n\<close> becomes.\<close>

inductive converts :: "(string \<Rightarrow> (nat \<times> string) option) \<Rightarrow> string \<Rightarrow> nat \<Rightarrow> string \<Rightarrow> bool"
  for char1 where
    converts_none: "converts char1 s 0 []"
  | converts_char: "s \<noteq> [] \<Longrightarrow> char1 s = Some (n, out) \<Longrightarrow> converts char1 (drop n s) m rest \<Longrightarrow>
      converts char1 s (n + m) (out @ rest)"

inductive_cases converts_SucE: "converts char1 s (Suc n) out"

text \<open>
  The documented behaviour: iconv converts whole characters; it stops at the end of the input, at a
  byte that starts no character, or when the output is full, after at least one character.
\<close>

definition iconv_ok :: "'cd iconv \<Rightarrow> (string \<Rightarrow> (nat \<times> string) option) \<Rightarrow> bool" where
  "iconv_ok lib char1 \<longleftrightarrow>
     (\<forall>s n out. char1 s = Some (n, out) \<longrightarrow> 0 < n \<and> n \<le> length s) \<and>
     (\<forall>cd s. s \<noteq> [] \<longrightarrow>
        (case iconv_step lib cd s CONVERT_BUFFER of
           (e, n, out, cd') \<Rightarrow> n \<le> length s \<and> converts char1 s n out \<and>
             (e = None \<and> n = length s \<or>
              (e = Some EILSEQ \<or> e = Some EINVAL) \<and> n < length s \<and> char1 (drop n s) = None \<or>
              e = Some E2BIG \<and> 0 < n)))"

text \<open>More fuel than bytes makes no difference.\<close>

lemma recode_ref_fuel:
  assumes "\<forall>s n out. char1 s = Some (n, out) \<longrightarrow> 0 < n \<and> n \<le> length s"
  shows "length s \<le> k \<Longrightarrow> recode_ref char1 k s = recode_ref char1 (length s) s"
proof (induction "length s" arbitrary: s k rule: less_induct)
  case less
  show ?case
  proof (cases s)
    case (Cons c t)
    then obtain k' where k: "k = Suc k'" "length t \<le> k'" using less.prems by (cases k) auto
    have eq: "recode_ref char1 k' u = recode_ref char1 (length t) u" if "length u \<le> length t" for u
      using less.hyps [of u k'] less.hyps [of u "length t"] that k Cons by auto
    show ?thesis
    proof (cases "char1 s")
      case None
      then show ?thesis using Cons k eq by simp
    next
      case (Some x)
      then obtain n out where x: "x = (n, out)" "0 < n" using assms by (cases x) blast
      then show ?thesis using Some Cons k eq [of "drop n s"] by simp
    qed
  qed (cases k; simp)
qed

lemma recode_ref_converts:
  assumes c: "\<forall>s n out. char1 s = Some (n, out) \<longrightarrow> 0 < n \<and> n \<le> length s"
    and "converts char1 s n out"
  shows "recode_ref char1 (length s) s = out @ recode_ref char1 (length (drop n s)) (drop n s)"
  using assms(2)
proof induction
  case (converts_char s n out m rest)
  then obtain k where k: "length s = Suc k" by (cases s) auto
  have n: "0 < n" "n \<le> length s" using c converts_char(2) by blast+
  have "recode_ref char1 k (drop n s) = recode_ref char1 (length (drop n s)) (drop n s)"
    using recode_ref_fuel [OF c, of "drop n s" k] k n by simp
  then show ?case using converts_char k by (simp add: add.commute)
qed simp

lemma convert_loop_ok:
  assumes "iconv_ok lib char1"
  shows "\<exists>cd'. convert_loop lib lc cd s r d = Some (Inr (r @ recode_ref char1 (length s) s), cd', d)"
proof (induction "length s" arbitrary: s r cd rule: less_induct)
  case less
  have c: "\<forall>s n out. char1 s = Some (n, out) \<longrightarrow> 0 < n \<and> n \<le> length s"
    using assms by (simp add: iconv_ok_def)
  show ?case
  proof (cases "s = []")
    case True
    then show ?thesis by (simp add: convert_loop.simps [of lib lc cd])
  next
    case False
    obtain e n out cd' where st: "iconv_step lib cd s CONVERT_BUFFER = (e, n, out, cd')"
      by (cases "iconv_step lib cd s CONVERT_BUFFER") auto
    then have ok: "n \<le> length s" "converts char1 s n out"
        "e = None \<and> n = length s \<or> (e = Some EILSEQ \<or> e = Some EINVAL) \<and> n < length s \<and> char1 (drop n s) = None \<or>
         e = Some E2BIG \<and> 0 < n"
      using assms False unfolding iconv_ok_def by (auto dest!: spec [of _ cd] spec [of _ s])
    note ref = recode_ref_converts [OF c ok(2)]
    from ok(3) consider "e = None" "n = length s"
      | "e = Some EILSEQ \<or> e = Some EINVAL" "n < length s" "char1 (drop n s) = None"
      | "e = Some E2BIG" "0 < n" by (elim disjE conjE) simp_all
    then show ?thesis
    proof cases
      case 1
      then show ?thesis using False st ref
        by (simp add: convert_loop.simps [of lib lc cd] convert_loop.simps [of lib lc cd' "[]"] Let_def)
    next
      case 2
      then obtain k where k: "length (drop n s) = Suc k" by (cases "length (drop n s)") auto
      have "recode_ref char1 (length (drop n s)) (drop n s) = ''?'' @ recode_ref char1 k (drop 1 (drop n s))"
        unfolding k using 2 by simp
      moreover have "k = length (drop 1 (drop n s))" using k by simp
      ultimately have "recode_ref char1 (length s) s =
          out @ ''?'' @ recode_ref char1 (length (drop 1 (drop n s))) (drop 1 (drop n s))"
        using ref by (simp only:)
      moreover have "length (drop 1 (drop n s)) < length s" using 2 by simp
      ultimately show ?thesis
        using False st 2(1) less [where s = "drop 1 (drop n s)" and r = "(r @ out) @ ''?''" and cd = cd']
        by (auto simp: convert_loop.simps [of lib lc cd] Let_def EILSEQ_def EINVAL_def E2BIG_def)
    next
      case 3
      have "length (drop n s) < length s" using 3 False by (cases s) auto
      then show ?thesis
        using False st 3 less [where s = "drop n s" and r = "r @ out" and cd = cd'] ref
        by (auto simp: convert_loop.simps [of lib lc cd] Let_def EILSEQ_def EINVAL_def E2BIG_def)
    qed
  qed
qed

lemma convert_ok:
  assumes "iconv_ok lib char1"
  shows "\<exists>cd'. convert lib lc (Some cd) s d = (Inr (recode_ref char1 (length s) s, Some cd'), d)"
  using convert_loop_ok [OF assms, of lc "iconv_reset lib cd" s "[]" d] by (auto simp: convert_def)

end
