(* ===== verification/Restore.thy ===== *)
theory Restore
  imports Verify Users Recode
begin

unbundle bit_operations_syntax

text \<open>
  \<open>do_restore\<close> of restore.cc: the entries of an index are made one after the other below the
  root, each under a temporary name first. The local variables that live across entries are a record
  of their own; a \<open>continue\<close> is a normal return with that record.
\<close>

section \<open>What the operation is given\<close>

text \<open>
  The socket calls, the only system calls besides those of theory LocalFs: \<open>socket\<close>,
  \<open>bind\<close> to a path, \<open>close\<close>.
\<close>

record 'w sockets =
  sys_socket :: "'w \<Rightarrow> (errno + nat) \<times> 'w"
  sys_bind :: "nat \<Rightarrow> string \<Rightarrow> 'w \<Rightarrow> (errno + unit) \<times> 'w"
  sys_close_socket :: "nat \<Rightarrow> 'w \<Rightarrow> (errno + unit) \<times> 'w"

text \<open>The two file systems, the settings, and the libraries.\<close>

record ('cd, 'h, 'd, 'w) setting =
  conf :: options
  hostfs :: "('h, 'w) filesystem"
  backupfs :: "('d, 'w) filesystem"
  sockets :: "'w sockets"
  iconv :: "'cd iconv"
  libc :: libc
  accounts :: accounts
  memory :: memory

text \<open>The variables of the loop.\<close>

record 'cd restoring =
  dirtimes :: "(path \<times> int \<times> int) list"
  prev_dir :: string
  inodes :: "64 word \<rightharpoonup> string"
  recoder :: "'cd option"

section \<open>The name of an entry\<close>

text \<open>
  A name \<open>./x\<close> is in the directory of the last full name; \<open>None\<close> if there is no such
  directory. (Where the code reads characters past the end of a short name, \<open>char_at\<close> reads
  the terminating NUL.)
\<close>

definition restore_name :: "string \<Rightarrow> string \<Rightarrow> (string \<times> string) option" where
  "restore_name last_dir name =
     (if char_at name 0 = CHR ''.'' \<and> char_at name 1 = CHR ''/'' then
        (if length last_dir = 0 then None else Some (last_dir @ ''/'' @ drop 2 name, last_dir))
      else
        Some (name, (case rfind name (CHR ''/'') of Some n \<Rightarrow> take n name | None \<Rightarrow> [])))"

section \<open>Files\<close>

text \<open>\<open>try { m } catch(...) {}\<close>\<close>

definition ignoring :: "('s, unit) prog \<Rightarrow> ('s, unit) prog" where
  "ignoring m = catching m (\<lambda>e. if catchable e then Some (ret ()) else None)"

text \<open>A file whose contents are in the index.\<close>

definition restore_data :: "('h, 'w) filesystem \<Rightarrow> bytes \<Rightarrow> path \<Rightarrow> string \<Rightarrow> ('w, unit) prog" where
  "restore_data fs garbage tmpname data =
     andThen (fs_open fs tmpname Overwrite)
       (\<lambda>d w. case andThen (put (file_writebytes fs) (file_synchronize fs) (bytes_of_string data))
                      (\<lambda>_. flush (file_writebytes fs) (file_synchronize fs)) (File garbage (d, w)) of
          (r, f) \<Rightarrow> closing (delete_File fs f (fst (dev f))) r (snd (dev f)))"

text \<open>
  A file that is in the repository: the loop that copies it. The world is in the state of the file
  that is written, which reading does not touch.
\<close>

definition copy_loop ::
  "('h, 'w) filesystem \<Rightarrow> ('d, 'w) filesystem \<Rightarrow> 'd fileobj \<Rightarrow> ('h \<times> 'w) fileobj \<Rightarrow>
     ((exn + unit) \<times> 'd fileobj \<times> ('h \<times> 'w) fileobj) option" where
  "copy_loop hfs bfs src dst =
     (case read_loop (file_readbytes bfs) 4096 (put (file_writebytes hfs) (file_synchronize hfs)) src dst of
        None \<Rightarrow> None
      | Some (Inl e, src', dst') \<Rightarrow> Some (Inl e, src', dst')
      | Some (Inr _, src', dst') \<Rightarrow>
          (case flush (file_writebytes hfs) (file_synchronize hfs) dst' of
             (r, dst'') \<Rightarrow> Some (r, src', dst'')))"

definition restore_stored ::
  "('h, 'w) filesystem \<Rightarrow> ('d, 'w) filesystem \<Rightarrow> bytes \<Rightarrow> path \<Rightarrow> path \<Rightarrow> ('w, unit) prog" where
  "restore_stored hfs bfs garbage tmpname hp =
     andThen (fs_open hfs tmpname Overwrite)
       (\<lambda>h w. case fs_open bfs hp ReadOnly w of
          (Inl e, w') \<Rightarrow> closing (delete_File hfs (File garbage ()) h) (Inl e) w'
        | (Inr d, w') \<Rightarrow>
            (case copy_loop hfs bfs (File garbage d) (File garbage (h, w')) of
               None \<Rightarrow> (Inl Diverges, w')
             | Some (r, src, dst) \<Rightarrow>
                 closing
                   (andThen (delete_File bfs src (dev src)) (\<lambda>_. delete_File hfs dst (fst (dev dst))))
                   r (snd (dev dst))))"

section \<open>The types of entries\<close>

text \<open>Each returns the mode the file gets, or \<open>None\<close> to go on with the next entry.\<close>

definition S_IFCHR_bits :: nat where "S_IFCHR_bits = 8192"
definition S_IFBLK_bits :: nat where "S_IFBLK_bits = 24576"
definition SUN_PATH_SIZE :: nat where "SUN_PATH_SIZE = 108"

definition restore_dir ::
  "('cd, 'h, 'd, 'w) setting \<Rightarrow> path \<Rightarrow> path \<Rightarrow> nat \<Rightarrow> (('w, 'z) caches_scheme, nat option) prog" where
  "restore_dir env fullname tmpname m s =
     andThen (in_world (fs_exists (hostfs env) fullname))
       (\<lambda>found s.
          if found then (Inr None, warning (c_str fullname @ '' already exists, leaving it alone'') s)
          else
            let m = (if \<not> permissions (conf env) then 511 else m)
            in andThen (in_world (fs_mkdir (hostfs env) tmpname m)) (\<lambda>_. ret (Some m)) s)
       (s\<lparr>total_dirs := total_dirs s + 1\<rparr>)"

definition restore_device ::
  "('cd, 'h, 'd, 'w) setting \<Rightarrow> details \<Rightarrow> string \<Rightarrow> path \<Rightarrow> nat \<Rightarrow> (('w, 'z) caches_scheme, nat option) prog" where
  "restore_device env details type tmpname m s =
     (let devtype = (if type = ''chr'' then S_IFCHR_bits else S_IFBLK_bits);
          m = (if \<not> permissions (conf env) then 438 else m);
          rdev = unat (word_of_int (strtol (subscript details ''rdev'') 10) :: 64 word)
      in andThen (in_world (fs_mknod (hostfs env) tmpname (m OR devtype) rdev)) (\<lambda>_. ret (Some m))
           (s\<lparr>total_devs := total_devs s + 1\<rparr>))"

definition restore_socket ::
  "('cd, 'h, 'd, 'w) setting \<Rightarrow> path \<Rightarrow> path \<Rightarrow> nat \<Rightarrow> (('w, 'z) caches_scheme, nat option) prog" where
  "restore_socket env fullname tmpname m s =
     (let s = s\<lparr>total_socks := total_socks s + 1\<rparr>
      in if \<not> fs_local (hostfs env) then
           (Inr None, warning (c_str fullname @ '': cannot restore socket to remote filesystem'') s)
         else if SUN_PATH_SIZE \<le> length tmpname then
           (Inr None, error (c_str tmpname @ '': socket path name too long'') s)
         else
           (case sys_socket (sockets env) (world s) of
              (Inl e, w) \<Rightarrow> fatal (''error creating socket: '' @ strerror (libc env) e) (s\<lparr>world := w\<rparr>)
            | (Inr fd, w) \<Rightarrow>
                (case sys_bind (sockets env) fd (c_str tmpname) w of
                   (Inl e, w') \<Rightarrow>
                     (Inr None, error (''error binding socket to '' @ c_str tmpname @ '': '' @ strerror (libc env) e)
                        (s\<lparr>world := w'\<rparr>))
                 | (Inr _, w') \<Rightarrow>
                     (case sys_close_socket (sockets env) fd w' of
                        (Inl e, w'') \<Rightarrow> fatal (''error calling close: '' @ strerror (libc env) e) (s\<lparr>world := w''\<rparr>)
                      | (Inr _, w'') \<Rightarrow> (Inr (Some m), s\<lparr>world := w''\<rparr>)))))"

definition restore_symlink ::
  "('cd, 'h, 'd, 'w) setting \<Rightarrow> details \<Rightarrow> path \<Rightarrow> nat \<Rightarrow> 'cd option \<Rightarrow>
     (('w, 'z) caches_scheme, nat option \<times> 'cd option) prog" where
  "restore_symlink env details tmpname m cd s =
     andThen (convert (iconv env) (libc env) cd (subscript details ''target''))
       (\<lambda>(target, cd'). andThen (in_world (fs_symlink (hostfs env) target tmpname)) (\<lambda>_. ret (Some m, cd')))
       (s\<lparr>total_links := total_links s + 1\<rparr>)"

definition restore_special ::
  "('cd, 'h, 'd, 'w) setting \<Rightarrow> details \<Rightarrow> string \<Rightarrow> path \<Rightarrow> path \<Rightarrow> nat \<Rightarrow> 'cd option \<Rightarrow>
     (('w, 'z) caches_scheme, nat option \<times> 'cd option) prog" where
  "restore_special env details type fullname tmpname m cd =
     (if type = ''link'' then restore_symlink env details tmpname m cd
      else if type = ''dir'' then andThen (restore_dir env fullname tmpname m) (\<lambda>r. ret (r, cd))
      else if type = ''chr'' \<or> type = ''blk'' then
        andThen (restore_device env details type tmpname m) (\<lambda>r. ret (r, cd))
      else if type = ''socket'' then andThen (restore_socket env fullname tmpname m) (\<lambda>r. ret (r, cd))
      else (\<lambda>s. (Inr (None, cd), error (''unknown file type '' @ c_str type) s)))"

text \<open>A regular file; the result says whether it could be made.\<close>

definition restore_file ::
  "('cd, 'h, 'd, 'w) setting \<Rightarrow> details \<Rightarrow> string \<Rightarrow> path \<Rightarrow> (('w, 'z) caches_scheme, bool) prog" where
  "restore_file env details name tmpname s =
     (let s = s\<lparr>total_regular_files := total_regular_files s + 1\<rparr>
      in case getdetail details ''data'' of
           Some data \<Rightarrow>
             andThen (in_world (restore_data (hostfs env) (mem_buffer (memory env)) tmpname data)) (\<lambda>_. ret True)
               (s\<lparr>small_files := small_files s + 1\<rparr>)
         | None \<Rightarrow>
             (case getdetail details HASH_NAME of
                Some hash \<Rightarrow>
                  andThen (hashdecode hash)
                    (\<lambda>h. andThen (in_world (restore_stored (hostfs env) (backupfs env) (mem_buffer (memory env))
                                     tmpname (hash_file (conf env) h))) (\<lambda>_. ret True)) s
              | None \<Rightarrow> (Inr False, error (c_str name @ '' does not have a known hash'') s)))"

section \<open>Attributes and the final name\<close>

definition file_time :: "details \<Rightarrow> string \<Rightarrow> int" where
  "file_time details key = sint (strtoull (subscript details key) 10)"

definition restore_owner ::
  "('cd, 'h, 'd, 'w) setting \<Rightarrow> details \<Rightarrow> path \<Rightarrow> (('w, 'z) caches_scheme, unit) prog" where
  "restore_owner env details tmpname =
     (if permissions (conf env) then
        andThen (string2uid (accounts env) (subscript details ''uid''))
          (\<lambda>uid. andThen (string2gid (accounts env) (subscript details ''gid''))
             (\<lambda>gid. in_world (fs_lchown (hostfs env) tmpname (unat uid) (unat gid))))
      else ret ())"

definition restore_attributes ::
  "('cd, 'h, 'd, 'w) setting \<Rightarrow> details \<Rightarrow> path \<Rightarrow> path \<Rightarrow> nat \<Rightarrow> 'cd restoring \<Rightarrow>
     (('w, 'z) caches_scheme, 'cd restoring) prog" where
  "restore_attributes env details fullname tmpname m st =
     (let type = getdetail details ''type''
      in andThen (restore_owner env details tmpname)
           (\<lambda>_. if type \<noteq> Some ''link'' then
                   andThen
                     (if permissions (conf env) then in_world (fs_chmod (hostfs env) tmpname m) else ret ())
                     (\<lambda>_. let atime = file_time details ''atime''; mtime = file_time details ''mtime''
                           in if type = Some ''dir''
                              then ret (st\<lparr>dirtimes := dirtimes st @ [(fullname, atime, mtime)]\<rparr>)
                              else andThen (in_world (fs_utimes (hostfs env) tmpname atime mtime)) (\<lambda>_. ret st))
                 else ret st))"

section \<open>One entry\<close>

definition restore_new ::
  "('cd, 'h, 'd, 'w) setting \<Rightarrow> details \<Rightarrow> string \<Rightarrow> path \<Rightarrow> path \<Rightarrow> 'cd restoring \<Rightarrow>
     (('w, 'z) caches_scheme, 'cd restoring) prog" where
  "restore_new env details name fullname tmpname st =
     (let m = unat (word_of_int (strtol (subscript details ''perms'') 8) :: 32 word);
          finish = (\<lambda>m st. andThen (restore_attributes env details fullname tmpname m st)
                     (\<lambda>st. andThen (in_world (fs_rename (hostfs env) tmpname fullname)) (\<lambda>_. ret st)))
      in case getdetail details ''type'' of
           Some type \<Rightarrow>
             andThen (restore_special env details type fullname tmpname m (recoder st))
               (\<lambda>(made, cd). let st = st\<lparr>recoder := cd\<rparr>
                  in case made of None \<Rightarrow> ret st | Some m \<Rightarrow> finish m st)
         | None \<Rightarrow>
             andThen (restore_file env details name tmpname)
               (\<lambda>made. if \<not> made then ret st
                  else finish m
                    (case getdetail details ''inode'' of
                       Some inode \<Rightarrow> st\<lparr>inodes := (inodes st)(strtoull inode 10 \<mapsto> fullname)\<rparr>
                     | None \<Rightarrow> st)))"

definition restore_named ::
  "('cd, 'h, 'd, 'w) setting \<Rightarrow> details \<Rightarrow> string \<Rightarrow> 'cd restoring \<Rightarrow>
     (('w, 'z) caches_scheme, 'cd restoring) prog" where
  "restore_named env details name st =
     (let fullname = root (conf env) @ ''/'' @ name; tmpname = fullname @ ''~restore~''
      in andThen (ignoring (in_world (fs_remove (hostfs env) tmpname)))
           (\<lambda>_ s.
              case (case getdetail details ''inode'' of
                      Some inode \<Rightarrow> inodes st (strtoull inode 10) | None \<Rightarrow> None) of
                Some inodepath \<Rightarrow>
                  andThen (in_world (fs_link (hostfs env) inodepath tmpname))
                    (\<lambda>_. andThen (in_world (fs_rename (hostfs env) tmpname fullname)) (\<lambda>_. ret st))
                    (s\<lparr>total_hardlinks := total_hardlinks s + 1\<rparr>)
              | None \<Rightarrow> restore_new env details name fullname tmpname st s))"

definition restore_entry ::
  "('cd, 'h, 'd, 'w) setting \<Rightarrow> details \<Rightarrow> 'cd restoring \<Rightarrow> (('w, 'z) caches_scheme, 'cd restoring) prog" where
  "restore_entry env details st =
     andThen (convert (iconv env) (libc env) (recoder st) (subscript details ''name''))
       (\<lambda>(name, cd) s.
          let st = st\<lparr>recoder := cd\<rparr>
          in case restore_name (prev_dir st) name of
               None \<Rightarrow> (Inr st, error (''unexpected relative name: '' @ c_str name) s)
             | Some (name, d) \<Rightarrow> restore_named env details name (st\<lparr>prev_dir := d\<rparr>) s)"

section \<open>The operation\<close>

fun fix_dirtimes :: "('h, 'w) filesystem \<Rightarrow> (path \<times> int \<times> int) list \<Rightarrow> ('w, unit) prog" where
  "fix_dirtimes fs [] w = (Inr (), w)"
| "fix_dirtimes fs ((path, atime, mtime) # ds) w =
     andThen (fs_utimes fs path atime mtime) (\<lambda>_. fix_dirtimes fs ds) w"

definition do_restore ::
  "('cd, 'h, 'd, 'w) setting \<Rightarrow> (('w, 'z) caches_scheme, unit) prog" where
  "do_restore env =
     andThen (Recode (iconv env) (from_encoding (conf env)) (to_encoding (conf env)))
       (\<lambda>cd. if repo (conf env) = '''' then fatal ''no repository specified''
         else if root (conf env) = '''' then fatal ''no root specified''
         else if indexfile (conf env) = '''' then fatal ''no index specified''
         else
           andThen (in_world (fs_open (backupfs env) (indexfile (conf env)) ReadOnly))
             (\<lambda>d s.
                case index_loop (file_readbytes (backupfs env)) (restore_entry env)
                       (File (mem_buffer (memory env)) d)
                       \<lparr>dirtimes = [], prev_dir = [], inodes = Map.empty, recoder = cd\<rparr>
                       (note_if (verbose (conf env)) (''restoring from '' @ c_str (indexfile (conf env))) s) of
                  None \<Rightarrow> (Inl Diverges, s)
                | Some (Inl e, f, s') \<Rightarrow> (Inl e, s')
                | Some (Inr st, f, s') \<Rightarrow>
                    andThen (in_world (delete_File (backupfs env) f (dev f)))
                      (\<lambda>_ s. in_world (fix_dirtimes (hostfs env) (dirtimes st))
                         (note_if (verbose (conf env)) ''fixing directory timestamps'' s)) s'))"

end
