(* ===== verification/Roundtrip.thy ===== *)
theory Roundtrip
  imports Backup Restore
begin

text \<open>
  What a backup writes into an index and what a restore reads out of it are the same: the names of
  the entries, which are written relative to the entry before, and the fields of an entry.
\<close>

section \<open>Names\<close>

text \<open>
  The names a backup writes for directories with their chosen files, in order, and the names a
  restore makes of a list of names; \<open>None\<close> if one of them is refused.
\<close>

definition dir_names :: "string \<times> string list \<Rightarrow> string list" where
  "dir_names g =
     (case map (local_name (fst g)) (snd g) of
        [] \<Rightarrow> []
      | n # ns \<Rightarrow> relative_name True n # map (relative_name False) ns)"

fun restore_names :: "string \<Rightarrow> string list \<Rightarrow> string list option" where
  "restore_names d [] = Some []"
| "restore_names d (n # ns) =
     (case restore_name d n of
        None \<Rightarrow> None
      | Some (full, d') \<Rightarrow> map_option (Cons full) (restore_names d' ns))"

text \<open>A directory as \<open>do_backup\<close> passes it on: the top, or a name that is not written as relative.\<close>

definition plain_dir :: "string \<Rightarrow> bool" where
  "plain_dir d \<longleftrightarrow> d = ''.'' \<or> d \<noteq> [] \<and> take 2 d \<noteq> ''./''"

definition plain_file :: "string \<Rightarrow> bool" where
  "plain_file n \<longleftrightarrow> n \<noteq> [] \<and> CHR ''/'' \<notin> set n"

definition base_of :: "string \<Rightarrow> string" where
  "base_of d = (if d = ''.'' then [] else d)"

lemma not_relative:
  "take 2 n \<noteq> ''./'' \<Longrightarrow> \<not> (char_at n 0 = CHR ''.'' \<and> char_at n 1 = CHR ''/'')"
  by (cases n; cases "tl n") (auto simp: char_at_def)

lemma restore_full:
  assumes "plain_dir d" "plain_file n"
  shows "restore_name prev (relative_name True (local_name d n)) = Some (local_name d n, base_of d)"
proof (cases "d = ''.''")
  case True
  have "take 2 n \<noteq> ''./''"
  proof
    assume "take 2 n = ''./''"
    then have "set ''./'' \<subseteq> set n" using set_take_subset [of 2 n] by simp
    then show False using assms(2) by (simp add: plain_file_def)
  qed
  then show ?thesis
    using not_relative [of n] assms(2) True rfind_None [of n "CHR ''/''"]
    by (auto simp: restore_name_def relative_name_def local_name_def base_of_def plain_file_def)
next
  case False
  then have d: "d \<noteq> []" "take 2 d \<noteq> ''./''" using assms(1) by (auto simp: plain_dir_def)
  have "take 2 (d @ ''/'' @ n) \<noteq> ''./''"
    using d False by (cases d; cases "tl d") auto
  then show ?thesis
    using not_relative [of "d @ ''/'' @ n"] rfind_append [of "CHR ''/''" n d] assms(2) False
    by (auto simp: restore_name_def relative_name_def local_name_def base_of_def plain_file_def)
qed

lemma restore_relative:
  assumes "plain_dir d" "plain_file n"
  shows "restore_name (base_of d) (relative_name False (local_name d n)) = Some (local_name d n, base_of d)"
proof (cases "d = ''.''")
  case True
  have "relative_name False n = relative_name True n"
    using assms(2) rfind_None [of n "CHR ''/''"] by (auto simp: relative_name_def plain_file_def)
  then show ?thesis using restore_full [OF assms, of "base_of d"] True by (simp add: local_name_def)
next
  case False
  then show ?thesis
    using assms rfind_append [of "CHR ''/''" n d]
    by (auto simp: restore_name_def relative_name_def local_name_def base_of_def plain_file_def plain_dir_def char_at_def)
qed

lemma restore_rest:
  assumes "plain_dir d" "\<forall>n \<in> set ns. plain_file n"
  shows "restore_names (base_of d) (map (relative_name False) (map (local_name d) ns) @ rest) =
    map_option ((@) (map (local_name d) ns)) (restore_names (base_of d) rest)"
  using assms(2)
proof (induction ns)
  case Nil
  then show ?case by (simp add: option.map_ident)
next
  case (Cons n ns)
  then show ?case
    by (simp add: restore_relative [OF assms(1)] option.map_comp comp_def)
qed

lemma restore_names_backup:
  assumes "\<forall>g \<in> set gs. plain_dir (fst g) \<and> (\<forall>n \<in> set (snd g). plain_file n)"
  shows "restore_names prev (concat (map dir_names gs)) =
    Some (concat (map (\<lambda>g. map (local_name (fst g)) (snd g)) gs))"
  using assms
proof (induction gs arbitrary: prev)
  case (Cons g gs)
  show ?case
  proof (cases "snd g")
    case Nil
    then show ?thesis using Cons by (simp add: dir_names_def)
  next
    case (Cons n ns)
    then have g: "plain_dir (fst g)" "plain_file n" "\<forall>m \<in> set ns. plain_file m" using Cons.prems by auto
    show ?thesis
      using Cons.IH Cons.prems restore_full [OF g(1,2), of prev] restore_rest [OF g(1,3)]
      by (simp add: dir_names_def Cons del: map_map)
  qed
qed simp

section \<open>Fields\<close>

text \<open>The fields that every entry has, and the text of further ones.\<close>

definition generic_fields :: "string \<Rightarrow> stat \<Rightarrow> string \<Rightarrow> string \<Rightarrow> (string \<times> string) list" where
  "generic_fields relname sb uname gname =
     [(''name'', relname), (''perms'', octal (st_perm sb)), (''uid'', uname), (''gid'', gname),
      (''atime'', format_llu (st_atime sb)), (''ctime'', format_llu (st_ctime sb)),
      (''mtime'', format_llu (st_mtime sb))]"

definition more_fields :: "(string \<times> string) list \<Rightarrow> string" where
  "more_fields kvs = concat (map (\<lambda>kv. CHR ''&'' # format_field kv) kvs)"

lemma urlencode_digits: "\<forall>c \<in> set s. \<exists>d < 10. c = digit d \<Longrightarrow> urlencode s = s"
proof (induction s)
  case (Cons c s)
  then obtain d where d: "d < 10" "c = digit d" by auto
  have "\<forall>d < 10. urlencode_char (digit d) = [digit d]" by code_simp
  then show ?case using d Cons by (simp add: urlencode_Cons)
qed simp

lemma urlencode_numbers [simp]:
  "urlencode (decimal n) = decimal n" "urlencode (octal n) = octal n" "urlencode (format_llu t) = format_llu t"
  using decimal_plain octal_plain by (auto intro!: urlencode_digits simp: format_llu_def)

lemma urlencode_keys:
  "urlencode ''name'' = ''name''" "urlencode ''perms'' = ''perms''" "urlencode ''uid'' = ''uid''"
  "urlencode ''gid'' = ''gid''" "urlencode ''atime'' = ''atime''" "urlencode ''ctime'' = ''ctime''"
  "urlencode ''mtime'' = ''mtime''" "urlencode ''data'' = ''data''" "urlencode ''sha1'' = ''sha1''"
  "urlencode ''type'' = ''type''" "urlencode ''target'' = ''target''" "urlencode ''inode'' = ''inode''"
  by code_simp+

lemma join_snoc: "xs \<noteq> [] \<Longrightarrow> join sep (xs @ ys) = join sep xs @ concat (map ((@) sep) ys)"
proof (induction sep xs rule: join.induct)
  case (2 sep x)
  show ?case
  proof (induction ys arbitrary: x)
    case (Cons y ys)
    then show ?case using Cons.IH [of y] by simp
  qed simp
qed simp_all

lemma generic_details_fields:
  "generic_details relname sb uname gname @ more_fields kvs =
     format_fields (generic_fields relname sb uname gname @ kvs)"
proof -
  have "generic_details relname sb uname gname = format_fields (generic_fields relname sb uname gname)"
    by (simp add: generic_details_def generic_fields_def format_fields_def format_field_def urlencode_keys)
  then show ?thesis
    using join_snoc [of "map format_field (generic_fields relname sb uname gname)" "''&''" "map format_field kvs"]
    by (simp add: format_fields_def more_fields_def comp_def) (simp add: generic_fields_def)
qed

text \<open>The texts that \<open>backup_dir\<close> adds are of this form.\<close>

lemma more_fields_texts:
  "''&data='' @ urlencode t = more_fields [(''data'', t)]"
  "''&target='' @ urlencode t @ ''&type=link'' = more_fields [(''target'', t), (''type'', ''link'')]"
  "''&type=dir'' = more_fields [(''type'', ''dir'')]"
  "''&inode='' @ decimal n = more_fields [(''inode'', decimal n)]"
proof -
  have "urlencode ''link'' = ''link''" "urlencode ''dir'' = ''dir''" by code_simp+
  then show
    "''&data='' @ urlencode t = more_fields [(''data'', t)]"
    "''&target='' @ urlencode t @ ''&type=link'' = more_fields [(''target'', t), (''type'', ''link'')]"
    "''&type=dir'' = more_fields [(''type'', ''dir'')]"
    "''&inode='' @ decimal n = more_fields [(''inode'', decimal n)]"
    by (simp_all add: more_fields_def format_field_def urlencode_keys)
qed

lemma file_time_format:
  assumes "- (2 ^ 63) \<le> t" "t < 2 ^ 63" "subscript l key = format_llu t"
  shows "file_time l key = t"
proof -
  have "strtoull (format_llu t) 10 = (word_of_int t :: 64 word)"
    using strtoull_decimal [of "unat (word_of_int t :: 64 word)"] unsigned_less [of "word_of_int t :: 64 word"]
    by (simp add: format_llu_def)
  then show ?thesis using assms by (simp add: file_time_def sint_sbintrunc' signed_take_bit_int_eq_self)
qed

lemma permissions_format:
  assumes "m < 2 ^ 12"
  shows "unat (word_of_int (strtol (octal m) 8) :: 32 word) = m"
  using assms strtol_octal [of m] by (simp add: LONG_MAX_def unat_of_nat)

text \<open>What a restore gets out of the line that a backup writes for a file.\<close>

lemma entry_fields:
  assumes "distinct (map fst kvs)" "set (map fst kvs) \<inter> {''name'', ''perms'', ''uid'', ''gid'', ''atime'', ''ctime'', ''mtime''} = {}"
  shows "\<exists>l. parseIndexLine (generic_details relname sb uname gname @ more_fields kvs) d = (Inr l, d) \<and>
    (\<forall>kv \<in> set (generic_fields relname sb uname gname @ kvs). l (fst kv) = Some (snd kv))"
proof -
  let ?fs = "generic_fields relname sb uname gname @ kvs"
  have "distinct (map fst ?fs)" using assms by (auto simp: generic_fields_def)
  then have "map_of (rev ?fs) = map_of ?fs" by (rule map_of_rev)
  moreover have "parse_line (format_fields ?fs) = Some (map_of (rev ?fs))"
    by (rule parse_line_format) (simp add: generic_fields_def)
  ultimately have "parseIndexLine (generic_details relname sb uname gname @ more_fields kvs) d = (Inr (map_of ?fs), d)"
    using parseIndexLine_Some by (simp add: generic_details_fields)
  moreover have "\<forall>kv \<in> set ?fs. map_of ?fs (fst kv) = Some (snd kv)"
    using \<open>distinct (map fst ?fs)\<close> by (auto intro!: map_of_is_SomeI simp del: map_of_append)
  ultimately show ?thesis by blast
qed

end
