(* ===== verification/Nhbackup.thy ===== *)
theory Nhbackup
  imports Exclude
begin

text \<open>
  The main program, nhbackup.cc: the option tables, GNU \<open>getopt_long\<close> as the program uses it,
  the settings made from the options, the choice of the operation, and the exit status.
\<close>

section \<open>The option tables\<close>

definition short_options :: string where
  "short_options = ''brcCR:I:F:xaX:Os:vhBSVzPf:t:H:''"

text \<open>Name, whether there is an argument, and the value (a character or 257).\<close>

definition longopts :: "(string \<times> bool \<times> nat) list" where
  "longopts =
     (let ch = (\<lambda>c. of_char c) in
      [(''backup'', False, ch (CHR ''b'')), (''restore'', False, ch (CHR ''r'')),
       (''verify'', False, ch (CHR ''c'')), (''cleanup'', False, ch (CHR ''C'')),
       (''repo'', True, ch (CHR ''R'')), (''index'', True, ch (CHR ''I'')),
       (''root'', True, ch (CHR ''F'')), (''one-file-system'', False, ch (CHR ''x'')),
       (''preserve-atime'', False, ch (CHR ''a'')), (''exclude'', True, ch (CHR ''X'')),
       (''overwrite'', False, ch (CHR ''O'')), (''sftp'', True, ch (CHR ''s'')),
       (''sftp-server'', True, ch (CHR ''S'')), (''delete'', False, ch (CHR ''d'')),
       (''detect-bogus'', False, ch (CHR ''B'')), (''speedtest'', False, ch (CHR ''z'')),
       (''no-permissions'', False, ch (CHR ''P'')), (''from-encoding'', True, ch (CHR ''f'')),
       (''to-encoding'', True, ch (CHR ''t'')), (''verbose'', False, ch (CHR ''v'')),
       (''no-recheck-hash'', False, 257), (''hint-file'', True, ch (CHR ''H'')),
       (''version'', False, ch (CHR ''V'')), (''help'', False, ch (CHR ''h''))])"

section \<open>Reading the command line\<close>

text \<open>An option is its value and its argument (\<open>optarg\<close>); \<open>?\<close> is an error.\<close>

type_synonym opt = "nat \<times> string option"

definition bad_option :: opt where
  "bad_option = (63, None)"

text \<open>Whether a character is a short option, and if so whether it takes an argument.\<close>

definition short_option :: "char \<Rightarrow> bool option" where
  "short_option c =
     (if c = CHR '':'' then None
      else (case find_from short_options c 0 of
              None \<Rightarrow> None
            | Some i \<Rightarrow> Some (char_at short_options (i + 1) = CHR '':'')))"

fun short_cluster :: "string \<Rightarrow> string list \<Rightarrow> opt list \<times> string list" where
  "short_cluster [] args = ([], args)"
| "short_cluster (c # cs) args =
     (case short_option c of
        None \<Rightarrow> (case short_cluster cs args of (os, r) \<Rightarrow> (bad_option # os, r))
      | Some False \<Rightarrow> (case short_cluster cs args of (os, r) \<Rightarrow> ((of_char c, None) # os, r))
      | Some True \<Rightarrow>
          if cs \<noteq> [] then ([(of_char c, Some cs)], args)
          else (case args of [] \<Rightarrow> ([bad_option], []) | a # args' \<Rightarrow> ([(of_char c, Some a)], args')))"

text \<open>An exact name, or the only name it is the beginning of.\<close>

definition find_long :: "string \<Rightarrow> (bool \<times> nat) option" where
  "find_long name =
     (case map_of longopts name of
        Some x \<Rightarrow> Some x
      | None \<Rightarrow>
          (case filter (\<lambda>(n, _). take (length name) n = name) longopts of
             [(n, x)] \<Rightarrow> Some x
           | _ \<Rightarrow> None))"

definition long_option :: "string \<Rightarrow> string list \<Rightarrow> opt \<times> string list" where
  "long_option a args =
     (case (case find_from a (CHR ''='') 0 of None \<Rightarrow> (a, None) | Some i \<Rightarrow> (take i a, Some (drop (i + 1) a))) of
        (name, value) \<Rightarrow>
          (case find_long name of
             None \<Rightarrow> (bad_option, args)
           | Some (False, v) \<Rightarrow> (if value = None then (v, None) else bad_option, args)
           | Some (True, v) \<Rightarrow>
               (case value of
                  Some x \<Rightarrow> ((v, Some x), args)
                | None \<Rightarrow> (case args of [] \<Rightarrow> (bad_option, []) | x # args' \<Rightarrow> ((v, Some x), args')))))"

lemma short_cluster_shorter: "length (snd (short_cluster cs args)) \<le> length args"
  by (induction cs args rule: short_cluster.induct)
    (auto split: option.splits bool.splits prod.splits list.splits)

lemma long_option_shorter: "length (snd (long_option a args)) \<le> length args"
  by (auto simp: long_option_def split: option.splits bool.splits prod.splits list.splits)

text \<open>Options and other arguments in any order; everything after \<open>--\<close> is an argument.\<close>

function getopt :: "string list \<Rightarrow> opt list \<times> string list" where
  "getopt [] = ([], [])"
| "getopt (a # args) =
     (if a = ''--'' then ([], args)
      else if take 2 a = ''--'' then
        (case getopt (snd (long_option (drop 2 a) args)) of
           (os, r) \<Rightarrow> (fst (long_option (drop 2 a) args) # os, r))
      else if take 1 a = ''-'' \<and> a \<noteq> ''-'' then
        (case getopt (snd (short_cluster (drop 1 a) args)) of
           (os, r) \<Rightarrow> (fst (short_cluster (drop 1 a) args) @ os, r))
      else (case getopt args of (os, r) \<Rightarrow> (os, a # r)))"
  by pat_completeness auto
termination
  by (relation "measure length") (auto simp: le_imp_less_Suc short_cluster_shorter long_option_shorter)

declare getopt.simps [simp del]

section \<open>Settings from options\<close>

text \<open>The local variables of \<open>main\<close>.\<close>

record choice =
  ch_backup :: nat
  ch_restore :: nat
  ch_verify :: nat
  ch_clean :: nat
  ch_speedtest :: nat

definition help_lines :: "string list" where
  "help_lines =
     [''nhbackup --backup|--restore|--verify OPTIONS'',
      ''nhbackup --cleanup OPTIONS INDEXES...'',
      '''',
      ''  -b, --backup           Save from ROOT to REPO/INDEX'',
      ''  -r, --restore          Restore from REPO/INDEX to ROOT'',
      ''  -c, --verify           Verify REPO/INDEX'',
      ''  -C, --cleanup          Cleanup REPO against INDEXES'',
      ''  -R, --repo REPO        Specify repository'',
      ''  -I, --index INDEX      Specify index'',
      ''  -F, --root ROOT        Specify root'',
      ''  -x, --one-file-system  Don'' @ [CHR 0x27] @ ''t cross fs boundaries (--backup)'',
      ''  -a, --preserve-atime   Don'' @ [CHR 0x27] @ ''t change last read times (--backup)'',
      ''  -X, --exclude PATTERN  Exclude files (--backup)'',
      ''  -O, --overwrite        Overwrite index (--backup)'',
      ''  -s, --sftp USER@HOST   Repository is over sftp'',
      ''  -S, --sftp-server PATH  Path to remove SFTP server'',
      ''  -d, --delete           Delete obsolete files (--cleanup)'',
      ''  -B, --detect-bogus     Detect bogus files'',
      ''  -P, --no-permissions   Don'' @ [CHR 0x27] @ ''t restore permissions (--restore)'',
      ''  -f, --from-encoding ENCODING'',
      ''  -t, --to-encoding ENCODING'',
      ''                         Convert filenames (--restore)'',
      ''  -H, -hint-file PATH    Load/save hints (--backup)'',
      ''  -v, --verbose          Verbose mode'',
      ''  -h, --help             Display usage message'',
      ''  -V, --version          Display version string'']"

text \<open>
  One round of the loop. The result is the exit status of an \<open>exit\<close>, or the new variables.
  (\<open>optarg\<close> is never a null pointer where it is assigned to a string.)
\<close>

type_synonym ('re, 'extra) command = "choice \<times> options \<times> ('re, 'extra) exclusion list"

definition set_option ::
  "('re, 'extra) pcre \<Rightarrow> string \<Rightarrow> opt \<Rightarrow> ('re, 'extra) command \<Rightarrow>
     (('w, 'z) globals_scheme, int + ('re, 'extra) command) prog" where
  "set_option lib version opt x =
     (case x of (ch, co, ex) \<Rightarrow>
        let n = fst opt; optarg = snd opt; arg = the optarg; is = (\<lambda>c. n = of_char c) in
        if is (CHR ''b'') then ret (Inr (ch\<lparr>ch_backup := 1\<rparr>, co, ex))
        else if is (CHR ''r'') then ret (Inr (ch\<lparr>ch_restore := 1\<rparr>, co, ex))
        else if is (CHR ''c'') then ret (Inr (ch\<lparr>ch_verify := 1\<rparr>, co, ex))
        else if is (CHR ''C'') then ret (Inr (ch\<lparr>ch_clean := 1\<rparr>, co, ex))
        else if is (CHR ''R'') then ret (Inr (ch, co\<lparr>repo := arg\<rparr>, ex))
        else if is (CHR ''I'') then ret (Inr (ch, co\<lparr>indexfile := arg\<rparr>, ex))
        else if is (CHR ''F'') then ret (Inr (ch, co\<lparr>root := arg\<rparr>, ex))
        else if is (CHR ''x'') then ret (Inr (ch, co\<lparr>crossfs := False\<rparr>, ex))
        else if is (CHR ''a'') then ret (Inr (ch, co\<lparr>preserve_atime := True\<rparr>, ex))
        else if is (CHR ''X'') then andThen (Exclusions_add lib arg ex) (\<lambda>ex'. ret (Inr (ch, co, ex')))
        else if is (CHR ''O'') then ret (Inr (ch, co\<lparr>overwrite_index := True\<rparr>, ex))
        else if is (CHR ''s'') then ret (Inr (ch, co\<lparr>sftphost := arg\<rparr>, ex))
        else if is (CHR ''d'') then ret (Inr (ch, co\<lparr>deleteclean := True\<rparr>, ex))
        else if is (CHR ''v'') then ret (Inr (ch, co\<lparr>verbose := True\<rparr>, ex))
        else if is (CHR ''B'') then ret (Inr (ch, co\<lparr>detectbogus := True\<rparr>, ex))
        else if is (CHR ''S'') then ret (Inr (ch, co\<lparr>sftpserver := optarg\<rparr>, ex))
        else if is (CHR ''z'') then ret (Inr (ch\<lparr>ch_speedtest := 1\<rparr>, co, ex))
        else if is (CHR ''P'') then ret (Inr (ch, co\<lparr>permissions := False\<rparr>, ex))
        else if is (CHR ''f'') then ret (Inr (ch, co\<lparr>from_encoding := optarg\<rparr>, ex))
        else if is (CHR ''t'') then ret (Inr (ch, co\<lparr>to_encoding := optarg\<rparr>, ex))
        else if is (CHR ''H'') then ret (Inr (ch, co\<lparr>hintfile := arg\<rparr>, ex))
        else if is (CHR ''h'') then (\<lambda>s. (Inr (Inl 0), fold to_stdout help_lines s))
        else if is (CHR ''V'') then (\<lambda>s. (Inr (Inl 0), to_stdout (''nhbackup '' @ version) s))
        else if n = 257 then ret (Inr (ch, co\<lparr>recheckhash := False\<rparr>, ex))
        else ret (Inl (-1)))"

fun set_options ::
  "('re, 'extra) pcre \<Rightarrow> string \<Rightarrow> opt list \<Rightarrow> ('re, 'extra) command \<Rightarrow>
     (('w, 'z) globals_scheme, int + ('re, 'extra) command) prog" where
  "set_options lib version [] x s = (Inr (Inr x), s)"
| "set_options lib version (opt # opts) x s =
     andThen (set_option lib version opt x)
       (\<lambda>r. case r of Inl status \<Rightarrow> ret (Inl status) | Inr x' \<Rightarrow> set_options lib version opts x') s"

section \<open>Running the operation\<close>

text \<open>The operations, as functions of the settings (which also say where the repository is).\<close>

record ('re, 'extra, 's) operations =
  op_backup :: "options \<Rightarrow> ('re, 'extra) exclusion list \<Rightarrow> ('s, unit) prog"
  op_restore :: "options \<Rightarrow> ('s, unit) prog"
  op_verify :: "options \<Rightarrow> ('s, unit) prog"
  op_clean :: "options \<Rightarrow> string list \<Rightarrow> ('s, unit) prog"
  op_speedtest :: "options \<Rightarrow> ('s, unit) prog"

text \<open>\<open>%8llu\<close>\<close>

definition padded :: "nat \<Rightarrow> string" where
  "padded n = replicate (8 - length (decimal n)) (CHR '' '') @ decimal n"

definition backup_report :: "('w, 'z) globals_scheme \<Rightarrow> string list" where
  "backup_report s =
     [''Regular files:        '' @ padded (total_regular_files s),
      ''Directories:          '' @ padded (total_dirs s),
      ''Links:                '' @ padded (total_links s),
      ''Devices:              '' @ padded (total_devs s),
      ''Sockets:              '' @ padded (total_socks s),
      ''Unknown:              '' @ padded (unknown_files s),
      ''New hashes:           '' @ padded (new_hashes s),
      ''Files mapped to hash: '' @ padded (hash_mmap s),
      ''Files read to hash:   '' @ padded (hash_read s),
      ''Tiny files:           '' @ padded (small_files s),
      ''Hints used:           '' @ padded (hints_used s)]"

definition restore_report :: "('w, 'z) globals_scheme \<Rightarrow> string list" where
  "restore_report s =
     [''Regular files:        '' @ padded (total_regular_files s),
      ''Directories:          '' @ padded (total_dirs s),
      ''Links:                '' @ padded (total_links s),
      ''Devices:              '' @ padded (total_devs s),
      ''Sockets:              '' @ padded (total_socks s),
      ''Tiny files:           '' @ padded (small_files s),
      ''Hard links:           '' @ padded (total_hardlinks s)]"

definition report :: "bool \<Rightarrow> ('s diag_scheme \<Rightarrow> string list) \<Rightarrow> 's diag_scheme \<Rightarrow> (exn + unit) \<times> 's diag_scheme" where
  "report v lines s = (Inr (), if v then fold to_stderr (lines s) s else s)"

definition run_operation ::
  "('re, 'extra, ('w, 'z) globals_scheme) operations \<Rightarrow> choice \<Rightarrow> options \<Rightarrow> ('re, 'extra) exclusion list \<Rightarrow>
     string list \<Rightarrow> (('w, 'z) globals_scheme, unit) prog" where
  "run_operation ops ch co ex argv =
     (if ch_backup ch \<noteq> 0 then
        if from_encoding co \<noteq> None \<or> to_encoding co \<noteq> None
        then fatal ''encoding translation not supported for backup''
        else andThen (op_backup ops co ex) (\<lambda>_. report (verbose co) backup_report)
      else if ch_restore ch \<noteq> 0 then andThen (op_restore ops co) (\<lambda>_. report (verbose co) restore_report)
      else if ch_verify ch \<noteq> 0 then op_verify ops co
      else if ch_clean ch \<noteq> 0 then
        if indexfile co \<noteq> '''' then fatal ''--index is not compatible with --clean'' else op_clean ops co argv
      else if ch_speedtest ch \<noteq> 0 then op_speedtest ops co
      else ret ())"

text \<open>How the process ends: with a status, by \<open>abort\<close>, or not.\<close>

datatype ending = Exit int | Abort | Runs

fun ending_of :: "exn \<Rightarrow> ending" where
  "ending_of Diverges = Runs"
| "ending_of (AssertFailed msg) = Abort"
| "ending_of e = Exit 1"

text \<open>
  \<open>catch(exception &e) { fatal("%s", e.what()); }\<close>; \<open>what\<close> of a hash error with an
  unknown code aborts.
\<close>

definition report_exception :: "libc \<Rightarrow> exn \<Rightarrow> 'z diag_scheme \<Rightarrow> ending \<times> 'z diag_scheme" where
  "report_exception lc e s =
     (if catchable e then
        (case what lc e of
           None \<Rightarrow> (Abort, s)
         | Some msg \<Rightarrow> (Exit 1, snd (fatal msg s :: (exn + unit) \<times> 'z diag_scheme)))
      else (ending_of e, s))"

definition finish_run :: "('w, 'z) globals_scheme \<Rightarrow> ending \<times> ('w, 'z) globals_scheme" where
  "finish_run s =
     (let s1 = (if 0 < warnings s then to_stderr (''*** '' @ decimal (warnings s) @ '' warnings'') s else s);
          s2 = (if 0 < errors s1 then to_stderr (''*** '' @ decimal (errors s1) @ '' errors'') s1 else s1)
      in (Exit (if 0 < errors s2 then 1 else 0), s2))"

definition initial_choice :: choice where
  "initial_choice = \<lparr>ch_backup = 0, ch_restore = 0, ch_verify = 0, ch_clean = 0, ch_speedtest = 0\<rparr>"

definition main ::
  "('re, 'extra) pcre \<Rightarrow> libc \<Rightarrow> string \<Rightarrow> ('re, 'extra, ('w, 'z) globals_scheme) operations \<Rightarrow> string list \<Rightarrow>
     ('w, 'z) globals_scheme \<Rightarrow> ending \<times> ('w, 'z) globals_scheme" where
  "main lib lc version ops args s =
     (case getopt args of (os, argv) \<Rightarrow>
        (case set_options lib version os (initial_choice, initial_options, []) s of
           (Inl e, s1) \<Rightarrow> (ending_of e, s1)
         | (Inr (Inl status), s1) \<Rightarrow> (Exit status, s1)
         | (Inr (Inr (ch, co, ex)), s1) \<Rightarrow>
             if ch_backup ch + ch_restore ch + ch_verify ch + ch_clean ch + ch_speedtest ch \<noteq> 1 then
               (Exit 1, snd (fatal ''inconsistent options'' s1 :: (exn + unit) \<times> ('w, 'z) globals_scheme))
             else
               (case run_operation ops ch co ex argv s1 of
                  (Inl e, s2) \<Rightarrow> report_exception lc e s2
                | (Inr _, s2) \<Rightarrow> finish_run s2)))"

section \<open>What the command line means\<close>

text \<open>Options as they are written: \<open>--name\<close>, \<open>--name=value\<close>, \<open>-c\<close> and \<open>-c value\<close>.\<close>

datatype option_text = Long string "string option" | Short char "string option"

fun option_words :: "option_text \<Rightarrow> string list" where
  "option_words (Long n None) = [''--'' @ n]"
| "option_words (Long n (Some a)) = [''--'' @ n @ ''='' @ a]"
| "option_words (Short c None) = [[CHR ''-'', c]]"
| "option_words (Short c (Some a)) = [[CHR ''-'', c], a]"

fun known_option :: "option_text \<Rightarrow> bool" where
  "known_option (Long n a) \<longleftrightarrow> map_option fst (map_of longopts n) = Some (a \<noteq> None)"
| "known_option (Short c a) \<longleftrightarrow> short_option c = Some (a \<noteq> None)"

fun option_value :: "option_text \<Rightarrow> opt" where
  "option_value (Long n a) = (snd (the (map_of longopts n)), a)"
| "option_value (Short c a) = (of_char c, a)"

lemma long_names: "\<forall>x \<in> set longopts. fst x \<noteq> [] \<and> CHR ''='' \<notin> set (fst x)"
  by code_simp

lemma known_long: "map_of longopts n = Some x \<Longrightarrow> n \<noteq> [] \<and> CHR ''='' \<notin> set n"
  using long_names by (auto dest!: map_of_SomeD)

lemma long_option_known:
  assumes "map_of longopts n = Some (a \<noteq> None, v)"
  shows "long_option (case a of None \<Rightarrow> n | Some x \<Rightarrow> n @ ''='' @ x) args = ((v, a), args)"
proof -
  have n: "CHR ''='' \<notin> set n" using known_long [OF assms] by simp
  have "find_from n (CHR ''='') 0 = None" using n by (simp add: find_from_None)
  moreover have "find_from (n @ ''='' @ x) (CHR ''='') 0 = Some (length n)" for x
    using find_from_append_Some [OF n, of "[]" x] by simp
  ultimately show ?thesis
    using assms by (cases a) (simp_all add: long_option_def find_long_def)
qed

lemma short_not_dash: "short_option c = Some b \<Longrightarrow> c \<noteq> CHR ''-''"
proof
  assume c: "short_option c = Some b" "c = CHR ''-''"
  have "short_option (CHR ''-'') = None" by code_simp
  then show False using c by simp
qed

lemma getopt_words:
  assumes "known_option x"
  shows "getopt (option_words x @ args) = (case getopt args of (os, r) \<Rightarrow> (option_value x # os, r))"
proof (cases x)
  case (Long n a)
  then obtain v where v: "map_of longopts n = Some (a \<noteq> None, v)" using assms by auto
  then have n: "n \<noteq> []" using known_long by blast
  show ?thesis
    using long_option_known [OF v, of args] v n Long
    by (cases a) (simp_all add: getopt.simps(2) split: prod.split)
next
  case (Short c a)
  then have c: "short_option c = Some (a \<noteq> None)" "c \<noteq> CHR ''-''" using assms short_not_dash by auto
  then show ?thesis
    using Short by (cases a) (simp_all add: getopt.simps(2) split: prod.split)
qed

lemma getopt_words_all:
  "\<forall>x \<in> set xs. known_option x \<Longrightarrow>
     getopt (concat (map option_words xs) @ ''--'' # files) = (map option_value xs, files)"
proof (induction xs)
  case Nil
  then show ?case by (simp add: getopt.simps(2))
next
  case (Cons x xs)
  then show ?case using getopt_words [of x "concat (map option_words xs) @ ''--'' # files"] by simp
qed

section \<open>The exit status\<close>

lemma ending_not_0 [simp]: "ending_of e \<noteq> Exit 0"
  by (cases e) simp_all

lemma report_not_0 [simp]: "fst (report_exception lc e s) \<noteq> Exit 0"
  by (simp add: report_exception_def split: option.split)

lemma finish_0 [simp]: "fst (finish_run s) = Exit 0 \<longleftrightarrow> errors s = 0"
  by (simp add: finish_run_def Let_def)

lemma main_0:
  "fst (main lib lc version ops args s) = Exit 0 \<longleftrightarrow>
     (\<exists>s1. set_options lib version (fst (getopt args)) (initial_choice, initial_options, []) s = (Inr (Inl 0), s1)) \<or>
     (\<exists>ch co ex s1 s2.
        set_options lib version (fst (getopt args)) (initial_choice, initial_options, []) s = (Inr (Inr (ch, co, ex)), s1) \<and>
        ch_backup ch + ch_restore ch + ch_verify ch + ch_clean ch + ch_speedtest ch = 1 \<and>
        run_operation ops ch co ex (snd (getopt args)) s1 = (Inr (), s2) \<and> errors s2 = 0)"
proof -
  obtain os argv where g: "getopt args = (os, argv)" by fastforce
  obtain r s1 where r: "set_options lib version os (initial_choice, initial_options, []) s = (r, s1)" by fastforce
  show ?thesis
  proof (cases r)
    case (Inl e)
    then show ?thesis using g r by (simp add: main_def)
  next
    case (Inr x)
    show ?thesis
    proof (cases x)
      case (Inl st)
      then show ?thesis using g r \<open>r = Inr x\<close> by (auto simp: main_def)
    next
      case (Inr y)
      obtain ch co ex where y: "y = (ch, co, ex)" by (cases y) auto
      obtain q s2 where q: "run_operation ops ch co ex argv s1 = (q, s2)" by fastforce
      show ?thesis
        using g r \<open>r = Inr x\<close> Inr y q by (cases q) (auto simp: main_def)
    qed
  qed
qed

end
