(* ===== verification/Sample_Libs.thy ===== *)
theory Sample_Libs
  imports Sample Roundtrip Nhbackup
begin

text \<open>
  Concrete libraries for the parameters of the model: an account database, patterns that match at
  the start of a name, a conversion that knows ASCII and at most 1024 characters at a time, and
  operations that only count errors. The contracts of theories Users and Recode hold for them.
\<close>

definition sample_accounts :: accounts where
  "sample_accounts =
     \<lparr>getpwuid = [0 \<mapsto> ''root''], getgrgid = [0 \<mapsto> ''wheel''],
      getpwnam = [''root'' \<mapsto> 0], getgrnam = [''wheel'' \<mapsto> 0]\<rparr>"

lemma sample_consistent: "consistent sample_accounts"
proof -
  have "\<not> alldigits ''root''" "\<not> alldigits ''wheel''" by code_simp+
  then show ?thesis by (auto simp: consistent_def sample_accounts_def)
qed

definition sample_pcre :: "(string, unit) pcre" where
  "sample_pcre =
     \<lparr>pcre_compile = Inr, pcre_study = (\<lambda>re. (None, ())),
      pcre_exec = (\<lambda>re _ s. if take (length re) s = re then 1 else -1)\<rparr>"

lemma sample_pcre_never_fails: "\<not> fails sample_pcre p x"
  by (simp add: fails_def sample_pcre_def PCRE_ERROR_NOMATCH_def)

definition ascii :: "char \<Rightarrow> bool" where
  "ascii c \<longleftrightarrow> (of_char c :: nat) < 128"

definition ascii_char :: "string \<Rightarrow> (nat \<times> string) option" where
  "ascii_char s = (case s of [] \<Rightarrow> None | c # _ \<Rightarrow> if ascii c then Some (1, [c]) else None)"

definition sample_iconv :: "unit iconv" where
  "sample_iconv =
     \<lparr>iconv_open = (\<lambda>_ _. Some ()), iconv_reset = id,
      iconv_step = (\<lambda>_ s room.
        let p = takeWhile ascii (take room s)
        in (if length p = length s then None else if length p = room then Some E2BIG else Some EILSEQ,
            length p, p, ()))\<rparr>"

lemma ascii_converts: "\<forall>c \<in> set p. ascii c \<Longrightarrow> converts ascii_char (p @ t) (length p) p"
proof (induction p)
  case (Cons c p)
  have "ascii_char (c # p @ t) = Some (1, [c])" using Cons.prems by (simp add: ascii_char_def)
  then have "converts ascii_char (c # p @ t) (1 + length p) ([c] @ p)"
    using Cons by (intro converts_char) simp_all
  then show ?case by simp
qed (simp add: converts_none)

lemma sample_iconv_ok: "iconv_ok sample_iconv ascii_char"
proof -
  have step: "case iconv_step sample_iconv cd s CONVERT_BUFFER of
      (e, n, out, cd') \<Rightarrow> n \<le> length s \<and> converts ascii_char s n out \<and>
        (e = None \<and> n = length s \<or>
         (e = Some EILSEQ \<or> e = Some EINVAL) \<and> n < length s \<and> ascii_char (drop n s) = None \<or>
         e = Some E2BIG \<and> 0 < n)" for cd s
  proof -
    define p where "p = takeWhile ascii (take CONVERT_BUFFER s)"
    obtain t where t: "s = p @ t"
      unfolding p_def by (metis append_assoc append_take_drop_id takeWhile_dropWhile_id)
    then have c: "converts ascii_char s (length p) p"
      using ascii_converts [of p t] by (auto simp: p_def dest: set_takeWhileD)
    have "ascii_char t = None" if "t \<noteq> []" "length p \<noteq> CONVERT_BUFFER"
    proof -
      have "length p < length (take CONVERT_BUFFER s)"
      proof -
        have "length p \<le> length (take CONVERT_BUFFER s)" unfolding p_def by (rule length_takeWhile_le)
        moreover have "length s = length p + length t" using arg_cong [OF t, of length] by simp
        ultimately show ?thesis using that by (auto simp: min_def split: if_splits)
      qed
      then have "\<not> ascii (take CONVERT_BUFFER s ! length p)" unfolding p_def by (rule nth_length_takeWhile)
      moreover have "take CONVERT_BUFFER s ! length p = hd t"
        using \<open>length p < length (take CONVERT_BUFFER s)\<close> that(1) by (simp add: t nth_append hd_conv_nth)
      ultimately show ?thesis using that(1) by (cases t) (simp_all add: ascii_char_def)
    qed
    moreover have "iconv_step sample_iconv cd s CONVERT_BUFFER =
        (if t = [] then None else if length p = CONVERT_BUFFER then Some E2BIG else Some EILSEQ, length p, p, ())"
      by (simp add: sample_iconv_def Let_def p_def [symmetric]) (simp add: t)
    moreover have "0 < CONVERT_BUFFER" by (simp add: CONVERT_BUFFER_def)
    ultimately show ?thesis using c by (cases "t = []"; cases p) (simp_all add: t)
  qed
  have char: "\<forall>s n out. ascii_char s = Some (n, out) \<longrightarrow> 0 < n \<and> n \<le> length s"
    by (auto simp: ascii_char_def split: list.splits if_splits)
  show ?thesis unfolding iconv_ok_def by (rule conjI [OF char], intro allI impI) (rule step)
qed

text \<open>Operations that do nothing; a verification that finds one error.\<close>

definition sample_ops :: "(string, unit, disk globals) operations" where
  "sample_ops =
     \<lparr>op_backup = (\<lambda>co ex. ret ()), op_restore = (\<lambda>co. ret ()),
      op_verify = (\<lambda>co s. (Inr (), error ''x: no known hash'' s)),
      op_clean = (\<lambda>co args. ret ()), op_speedtest = (\<lambda>co. ret ())\<rparr>"

end
