(* ===== verification/Packets.thy ===== *)
theory Packets
  imports Globals
begin

unbundle bit_operations_syntax

text \<open>
  The packets of the SFTP protocol as sftp.cc writes and reads them: numbers in network byte order,
  counted strings, status and attribute structures. Writing appends to a string, reading moves an
  index and raises \<open>out_of_range\<close> past the end. The round trips are instances of the interface
  \<open>packed\<close>.
\<close>

section \<open>Constants of the protocol\<close>

type_synonym u8 = "8 word"
type_synonym u32 = "32 word"
type_synonym u64 = "64 word"

definition SSH_FXP_INIT :: u8 where "SSH_FXP_INIT = 1"
definition SSH_FXP_VERSION :: u8 where "SSH_FXP_VERSION = 2"
definition SSH_FXP_OPEN :: u8 where "SSH_FXP_OPEN = 3"
definition SSH_FXP_CLOSE :: u8 where "SSH_FXP_CLOSE = 4"
definition SSH_FXP_READ :: u8 where "SSH_FXP_READ = 5"
definition SSH_FXP_WRITE :: u8 where "SSH_FXP_WRITE = 6"
definition SSH_FXP_OPENDIR :: u8 where "SSH_FXP_OPENDIR = 11"
definition SSH_FXP_READDIR :: u8 where "SSH_FXP_READDIR = 12"
definition SSH_FXP_REMOVE :: u8 where "SSH_FXP_REMOVE = 13"
definition SSH_FXP_MKDIR :: u8 where "SSH_FXP_MKDIR = 14"
definition SSH_FXP_RMDIR :: u8 where "SSH_FXP_RMDIR = 15"
definition SSH_FXP_STAT :: u8 where "SSH_FXP_STAT = 17"
definition SSH_FXP_RENAME :: u8 where "SSH_FXP_RENAME = 18"
definition SSH_FXP_READLINK :: u8 where "SSH_FXP_READLINK = 19"
definition SSH_FXP_STATUS :: u8 where "SSH_FXP_STATUS = 101"
definition SSH_FXP_HANDLE :: u8 where "SSH_FXP_HANDLE = 102"
definition SSH_FXP_DATA :: u8 where "SSH_FXP_DATA = 103"
definition SSH_FXP_NAME :: u8 where "SSH_FXP_NAME = 104"
definition SSH_FXP_ATTRS :: u8 where "SSH_FXP_ATTRS = 105"
definition SSH_FXP_EXTENDED :: u8 where "SSH_FXP_EXTENDED = 200"

definition SSH_FILEXFER_ATTR_SIZE :: u32 where "SSH_FILEXFER_ATTR_SIZE = 0x00000001"
definition SSH_FILEXFER_ATTR_UIDGID :: u32 where "SSH_FILEXFER_ATTR_UIDGID = 0x00000002"
definition SSH_FILEXFER_ATTR_PERMISSIONS :: u32 where "SSH_FILEXFER_ATTR_PERMISSIONS = 0x00000004"
definition SSH_FILEXFER_ATTR_ACMODTIME :: u32 where "SSH_FILEXFER_ATTR_ACMODTIME = 0x00000008"
definition SSH_FILEXFER_ATTR_EXTENDED :: u32 where "SSH_FILEXFER_ATTR_EXTENDED = 0x80000000"

definition SSH_FXF_READ :: u32 where "SSH_FXF_READ = 0x00000001"
definition SSH_FXF_WRITE :: u32 where "SSH_FXF_WRITE = 0x00000002"
definition SSH_FXF_CREAT :: u32 where "SSH_FXF_CREAT = 0x00000008"
definition SSH_FXF_TRUNC :: u32 where "SSH_FXF_TRUNC = 0x00000010"
definition SSH_FXF_EXCL :: u32 where "SSH_FXF_EXCL = 0x00000020"

definition SSH_FX_OK :: u32 where "SSH_FX_OK = 0"
definition SSH_FX_EOF :: u32 where "SSH_FX_EOF = 1"
definition SSH_FX_NO_SUCH_FILE :: u32 where "SSH_FX_NO_SUCH_FILE = 2"
definition SSH_FX_FAILURE :: u32 where "SSH_FX_FAILURE = 4"
definition SSH_FX_OP_UNSUPPORTED :: u32 where "SSH_FX_OP_UNSUPPORTED = 8"

lemmas packet_types =
  SSH_FXP_INIT_def SSH_FXP_VERSION_def SSH_FXP_OPEN_def SSH_FXP_CLOSE_def SSH_FXP_READ_def
  SSH_FXP_WRITE_def SSH_FXP_OPENDIR_def SSH_FXP_READDIR_def SSH_FXP_REMOVE_def SSH_FXP_MKDIR_def
  SSH_FXP_RMDIR_def SSH_FXP_STAT_def SSH_FXP_RENAME_def SSH_FXP_READLINK_def SSH_FXP_STATUS_def
  SSH_FXP_HANDLE_def SSH_FXP_DATA_def SSH_FXP_NAME_def SSH_FXP_ATTRS_def SSH_FXP_EXTENDED_def

lemmas status_codes =
  SSH_FX_OK_def SSH_FX_EOF_def SSH_FX_NO_SUCH_FILE_def SSH_FX_FAILURE_def SSH_FX_OP_UNSUPPORTED_def

record Status =
  status :: u32
  message :: string
  lang :: string

record Attributes =
  flags :: u32
  attr_size :: u64
  attr_uid :: u32
  attr_gid :: u32
  attr_permissions :: u32
  attr_atime :: u32
  attr_mtime :: u32
  extended :: "string \<rightharpoonup> string"

section \<open>Writing\<close>

definition pack_uint8 :: "string \<Rightarrow> u8 \<Rightarrow> string" where
  "pack_uint8 s b = s @ [char_of_byte b]"

definition pack_uint32 :: "string \<Rightarrow> u32 \<Rightarrow> string" where
  "pack_uint32 s u =
     (let s = pack_uint8 s (ucast (drop_bit 24 u));
          s = pack_uint8 s (ucast (drop_bit 16 u));
          s = pack_uint8 s (ucast (drop_bit 8 u))
      in pack_uint8 s (ucast u))"

definition pack_uint64 :: "string \<Rightarrow> u64 \<Rightarrow> string" where
  "pack_uint64 s u =
     (let s = pack_uint8 s (ucast (drop_bit 56 u));
          s = pack_uint8 s (ucast (drop_bit 48 u));
          s = pack_uint8 s (ucast (drop_bit 40 u));
          s = pack_uint8 s (ucast (drop_bit 32 u));
          s = pack_uint8 s (ucast (drop_bit 24 u));
          s = pack_uint8 s (ucast (drop_bit 16 u));
          s = pack_uint8 s (ucast (drop_bit 8 u))
      in pack_uint8 s (ucast u))"

definition pack_string :: "string \<Rightarrow> string \<Rightarrow> string" where
  "pack_string s t = pack_uint32 s (word_of_nat (length t)) @ t"

definition pack_bytes :: "string \<Rightarrow> bytes \<Rightarrow> string" where
  "pack_bytes s bs = pack_uint32 s (word_of_nat (length bs)) @ string_of_bytes bs"

section \<open>Reading\<close>

text \<open>The state of a reading function is the index; \<open>s.at(index++)\<close> moves it even if it throws.\<close>

type_synonym 'a unpacker = "string \<Rightarrow> (nat, 'a) prog"

definition unpack_uint8 :: "u8 unpacker" where
  "unpack_uint8 s i = (if i < length s then (Inr (byte_of_char (s ! i)), i + 1) else (Inl OutOfRange, i + 1))"

definition unpack_uint32 :: "u32 unpacker" where
  "unpack_uint32 s =
     andThen (unpack_uint8 s) (\<lambda>b3. let n = push_bit 24 (ucast b3) in
     andThen (unpack_uint8 s) (\<lambda>b2. let n = n + push_bit 16 (ucast b2) in
     andThen (unpack_uint8 s) (\<lambda>b1. let n = n + push_bit 8 (ucast b1) in
     andThen (unpack_uint8 s) (\<lambda>b0. let n = n + ucast b0 in ret n))))"

definition unpack_uint64 :: "u64 unpacker" where
  "unpack_uint64 s =
     andThen (unpack_uint8 s) (\<lambda>b7. let n = push_bit 56 (ucast b7) in
     andThen (unpack_uint8 s) (\<lambda>b6. let n = n + push_bit 48 (ucast b6) in
     andThen (unpack_uint8 s) (\<lambda>b5. let n = n + push_bit 40 (ucast b5) in
     andThen (unpack_uint8 s) (\<lambda>b4. let n = n + push_bit 32 (ucast b4) in
     andThen (unpack_uint8 s) (\<lambda>b3. let n = n + push_bit 24 (ucast b3) in
     andThen (unpack_uint8 s) (\<lambda>b2. let n = n + push_bit 16 (ucast b2) in
     andThen (unpack_uint8 s) (\<lambda>b1. let n = n + push_bit 8 (ucast b1) in
     andThen (unpack_uint8 s) (\<lambda>b0. let n = n + ucast b0 in ret n))))))))"

text \<open>\<open>string(s, index - len, len)\<close> takes what there is, and throws only for a position past the end.\<close>

definition unpack_string :: "string unpacker" where
  "unpack_string s =
     andThen (unpack_uint32 s)
       (\<lambda>len i. if i \<le> length s then (Inr (substr s i (unat len)), i + unat len)
                 else (Inl OutOfRange, i + unat len))"

definition unpack_status :: "Status unpacker" where
  "unpack_status s =
     andThen (unpack_uint32 s)
       (\<lambda>st. andThen (unpack_string s)
          (\<lambda>m. andThen (unpack_string s) (\<lambda>l. ret \<lparr>status = st, message = m, lang = l\<rparr>)))"

text \<open>Reading moves the index forward, and only from inside the packet.\<close>

lemma unpack_uint8_moves: "unpack_uint8 s i = (Inr x, j) \<Longrightarrow> i < length s \<and> j = i + 1"
  by (auto simp: unpack_uint8_def split: if_splits)

lemma unpack_uint32_moves: "unpack_uint32 s i = (Inr x, j) \<Longrightarrow> i + 4 \<le> length s \<and> j = i + 4"
  by (auto simp: unpack_uint32_def Let_def elim!: andThen_InrE dest!: unpack_uint8_moves)

lemma unpack_string_moves: "unpack_string s i = (Inr x, j) \<Longrightarrow> i + 4 \<le> length s \<and> i + 4 \<le> j"
  by (auto simp: unpack_string_def elim!: andThen_InrE dest!: unpack_uint32_moves split: if_splits)

text \<open>The loop over extended attributes, in which nothing changes \<open>count\<close>.\<close>

function unpack_extended :: "string \<Rightarrow> u32 \<Rightarrow> (string \<rightharpoonup> string) \<Rightarrow> (nat, string \<rightharpoonup> string) prog" where
  "unpack_extended s count m i =
     (if 0 < count then
        (case unpack_string s i of
           (Inl e, i1) \<Rightarrow> (Inl e, i1)
         | (Inr k, i1) \<Rightarrow>
             (case unpack_string s i1 of
                (Inl e, i2) \<Rightarrow> (Inl e, i2)
              | (Inr v, i2) \<Rightarrow> unpack_extended s count (m(k \<mapsto> v)) i2))
      else (Inr m, i))"
  by pat_completeness auto
termination
  by (relation "measure (\<lambda>(s, _, _, i). length s - i)")
    (auto dest!: unpack_string_moves [OF sym] unpack_string_moves)

declare unpack_extended.simps [simp del]

text \<open>\<open>attrs\<close> is what the structure holds before: fields that are not sent keep their values.\<close>

definition unpack_if :: "bool \<Rightarrow> 'a unpacker \<Rightarrow> ('a \<Rightarrow> 'b \<Rightarrow> 'b) \<Rightarrow> 'b \<Rightarrow> 'b unpacker" where
  "unpack_if b u f x s = (if b then andThen (u s) (\<lambda>y. ret (f y x)) else ret x)"

definition unpack_attrs :: "Attributes \<Rightarrow> Attributes unpacker" where
  "unpack_attrs attrs s =
     andThen (unpack_uint32 s)
       (\<lambda>fl. andThen (unpack_if (fl AND SSH_FILEXFER_ATTR_SIZE \<noteq> 0) unpack_uint64 (\<lambda>y a. a\<lparr>attr_size := y\<rparr>) (attrs\<lparr>flags := fl\<rparr>) s)
       (\<lambda>a. andThen (unpack_if (fl AND SSH_FILEXFER_ATTR_UIDGID \<noteq> 0) unpack_uint32 (\<lambda>y a. a\<lparr>attr_uid := y\<rparr>) a s)
       (\<lambda>a. andThen (unpack_if (fl AND SSH_FILEXFER_ATTR_UIDGID \<noteq> 0) unpack_uint32 (\<lambda>y a. a\<lparr>attr_gid := y\<rparr>) a s)
       (\<lambda>a. andThen (unpack_if (fl AND SSH_FILEXFER_ATTR_PERMISSIONS \<noteq> 0) unpack_uint32 (\<lambda>y a. a\<lparr>attr_permissions := y\<rparr>) a s)
       (\<lambda>a. andThen (unpack_if (fl AND SSH_FILEXFER_ATTR_ACMODTIME \<noteq> 0) unpack_uint32 (\<lambda>y a. a\<lparr>attr_atime := y\<rparr>) a s)
       (\<lambda>a. andThen (unpack_if (fl AND SSH_FILEXFER_ATTR_ACMODTIME \<noteq> 0) unpack_uint32 (\<lambda>y a. a\<lparr>attr_mtime := y\<rparr>) a s)
       (\<lambda>a. if fl AND SSH_FILEXFER_ATTR_EXTENDED \<noteq> 0 then
               andThen (unpack_uint32 s)
                 (\<lambda>count. andThen (unpack_extended s count (extended a)) (\<lambda>m. ret (a\<lparr>extended := m\<rparr>)))
             else ret a)))))))"

section \<open>Bytes of a word\<close>

definition above :: "nat \<Rightarrow> 'a::len word \<Rightarrow> 'a word" where
  "above k u = u AND NOT (mask k)"

lemma above_step:
  fixes u :: "'a::len word"
  assumes "j = k + 8" "j \<le> LENGTH('a)"
  shows "above j u + push_bit k (ucast (ucast (drop_bit k u) :: u8)) = above k u"
proof (rule bit_word_eqI)
  fix n assume n: "n < LENGTH('a)"
  have "above j u AND push_bit k (ucast (ucast (drop_bit k u) :: u8)) = 0"
    by (rule bit_word_eqI) (use assms in \<open>auto simp: above_def bit_simps\<close>)
  then show "bit (above j u + push_bit k (ucast (ucast (drop_bit k u) :: u8))) n = bit (above k u) n"
    using n assms by (auto simp: disjunctive_add_eq_or above_def bit_simps not_le)
qed

lemma above_top: "j = LENGTH('a) \<Longrightarrow> above j (u :: 'a::len word) = 0"
  unfolding above_def by (rule bit_eqI) (auto simp: bit_simps)

lemma above_0: "above 0 u = u"
  by (simp add: above_def)

lemma uint32_bytes:
  "push_bit 24 (ucast (ucast (drop_bit 24 u) :: u8)) + push_bit 16 (ucast (ucast (drop_bit 16 u) :: u8)) +
   push_bit 8 (ucast (ucast (drop_bit 8 u) :: u8)) + ucast (ucast u :: u8) = (u :: u32)"
  using above_step [of 32 24 u] above_step [of 24 16 u] above_step [of 16 8 u] above_step [of 8 0 u]
  by (simp add: above_top above_0)

lemma uint64_bytes:
  "push_bit 56 (ucast (ucast (drop_bit 56 u) :: u8)) + push_bit 48 (ucast (ucast (drop_bit 48 u) :: u8)) +
   push_bit 40 (ucast (ucast (drop_bit 40 u) :: u8)) + push_bit 32 (ucast (ucast (drop_bit 32 u) :: u8)) +
   push_bit 24 (ucast (ucast (drop_bit 24 u) :: u8)) + push_bit 16 (ucast (ucast (drop_bit 16 u) :: u8)) +
   push_bit 8 (ucast (ucast (drop_bit 8 u) :: u8)) + ucast (ucast u :: u8) = (u :: u64)"
  using above_step [of 64 56 u] above_step [of 56 48 u] above_step [of 48 40 u] above_step [of 40 32 u]
    above_step [of 32 24 u] above_step [of 24 16 u] above_step [of 16 8 u] above_step [of 8 0 u]
  by (simp add: above_top above_0)

section \<open>Interface: what is packed can be unpacked\<close>

text \<open>
  The writer only appends, and the reader, put at the place where the writer was, delivers the value
  and stops right behind it, whatever follows.
\<close>

fun unpack_list :: "'a unpacker \<Rightarrow> nat \<Rightarrow> 'a list unpacker" where
  "unpack_list unpack 0 s = ret []"
| "unpack_list unpack (Suc n) s =
     andThen (unpack s) (\<lambda>x. andThen (unpack_list unpack n s) (\<lambda>xs. ret (x # xs)))"

locale packed =
  fixes pack :: "string \<Rightarrow> 'a \<Rightarrow> string"
    and unpack :: "'a unpacker"
    and valid :: "'a \<Rightarrow> bool"
  assumes pack_append: "pack s x = s @ pack [] x"
    and unpack_pack: "valid x \<Longrightarrow> unpack (s @ pack [] x @ t) (length s) = (Inr x, length s + length (pack [] x))"
begin

lemma unpack_at:
  assumes "valid x" "s = u @ pack [] x @ t" "i = length u"
  shows "unpack s i = (Inr x, i + length (pack [] x))"
  using unpack_pack [OF assms(1)] assms(2,3) by simp

lemma pack_list_append: "foldl pack s xs = s @ concat (map (pack []) xs)"
proof (induction xs arbitrary: s)
  case (Cons x xs)
  then show ?case using pack_append [of s x] by simp
qed simp

lemma unpack_pack_list:
  assumes "\<forall>x \<in> set xs. valid x"
  shows "unpack_list unpack (length xs) (foldl pack s xs @ t) (length s) = (Inr xs, length (foldl pack s xs))"
  using assms
proof (induction xs arbitrary: s)
  case (Cons x xs)
  have "unpack (foldl pack s (x # xs) @ t) (length s) = (Inr x, length (pack s x))"
    using unpack_at [of x "foldl pack s (x # xs) @ t" s "concat (map (pack []) xs) @ t" "length s"] Cons.prems
      pack_list_append [of "pack s x" xs] pack_append [of s x] by simp
  then show ?case using Cons.IH [of "pack s x"] Cons.prems by simp
qed simp

lemma pack_inj: "valid x \<Longrightarrow> valid y \<Longrightarrow> pack s x = pack s y \<Longrightarrow> x = y"
  using unpack_pack [of x "[]" "[]"] unpack_pack [of y "[]" "[]"] pack_append [of s x] pack_append [of s y]
  by simp

end

lemma pack_uint8_append: "pack_uint8 s b = s @ pack_uint8 [] b"
  by (simp add: pack_uint8_def)

lemma pack_uint32_append: "pack_uint32 s u = s @ pack_uint32 [] u"
  by (simp add: pack_uint32_def pack_uint8_def Let_def)

lemma pack_uint64_append: "pack_uint64 s u = s @ pack_uint64 [] u"
  by (simp add: pack_uint64_def pack_uint8_def Let_def)

lemma pack_string_append: "pack_string s t = s @ pack_string [] t"
  unfolding pack_string_def by (subst pack_uint32_append) simp

lemma pack_bytes_append: "pack_bytes s t = s @ pack_bytes [] t"
  unfolding pack_bytes_def by (subst pack_uint32_append) simp

lemma pack_bytes_string: "pack_bytes s bs = pack_string s (string_of_bytes bs)"
  by (simp add: pack_bytes_def pack_string_def)

lemma length_pack [simp]:
  "length (pack_uint8 s b) = length s + 1" "length (pack_uint32 s u) = length s + 4"
  "length (pack_uint64 s v) = length s + 8" "length (pack_string s t) = length s + 4 + length t"
  by (simp_all add: pack_uint8_def pack_uint32_def pack_uint64_def pack_string_def Let_def)

lemma unpack_uint8_nth: "i < length s \<Longrightarrow> unpack_uint8 s i = (Inr (byte_of_char (s ! i)), Suc i)"
  by (simp add: unpack_uint8_def)

interpretation uint8: packed pack_uint8 unpack_uint8 "\<lambda>_. True"
  by unfold_locales (simp_all add: pack_uint8_def unpack_uint8_nth)

interpretation uint32: packed pack_uint32 unpack_uint32 "\<lambda>_. True"
  by unfold_locales
    (simp_all add: pack_uint32_def pack_uint8_def unpack_uint32_def Let_def unpack_uint8_nth nth_append andThen_def
      uint32_bytes)

interpretation uint64: packed pack_uint64 unpack_uint64 "\<lambda>_. True"
  by unfold_locales
    (simp_all add: pack_uint64_def pack_uint8_def unpack_uint64_def Let_def unpack_uint8_nth nth_append andThen_def
      uint64_bytes)

text \<open>A string can be packed if its length fits in 32 bits.\<close>

definition countable_string :: "string \<Rightarrow> bool" where
  "countable_string t \<longleftrightarrow> length t < 2 ^ 32"

interpretation counted: packed pack_string unpack_string countable_string
proof
  fix s t u :: string
  show "pack_string s t = s @ pack_string [] t" by (rule pack_string_append)
  assume t: "countable_string t"
  then have n: "unat (word_of_nat (length t) :: u32) = length t"
    by (simp add: countable_string_def unat_of_nat)
  have "unpack_uint32 (s @ pack_string [] t @ u) (length s) = (Inr (word_of_nat (length t)), length s + 4)"
    using uint32.unpack_pack [where x = "word_of_nat (length t)" and s = s and t = "t @ u"] by (simp add: pack_string_def)
  then have "unpack_string (s @ pack_string [] t @ u) (length s) =
      (Inr (substr (s @ pack_string [] t @ u) (length s + 4) (length t)), length s + 4 + length t)"
    by (simp add: unpack_string_def n)
  moreover have "substr (s @ pack_string [] t @ u) (length s + 4) (length t) = t"
    by (simp add: substr_def pack_string_def)
  ultimately show "unpack_string (s @ pack_string [] t @ u) (length s) = (Inr t, length s + length (pack_string [] t))"
    by simp
qed

section \<open>Structures\<close>

text \<open>A status as a server sends it.\<close>

definition pack_status :: "string \<Rightarrow> Status \<Rightarrow> string" where
  "pack_status s st = pack_string (pack_string (pack_uint32 s (status st)) (message st)) (lang st)"

definition countable_status :: "Status \<Rightarrow> bool" where
  "countable_status st \<longleftrightarrow> countable_string (message st) \<and> countable_string (lang st)"

interpretation statuses: packed pack_status unpack_status countable_status
proof
  fix s t :: string and st :: Status
  have app: "pack_status s st = s @ pack_uint32 [] (status st) @ pack_string [] (message st) @ pack_string [] (lang st)" for s
    unfolding pack_status_def
    by (subst pack_string_append, subst pack_string_append, subst pack_uint32_append) simp
  then show "pack_status s st = s @ pack_status [] st" by simp
  assume "countable_status st"
  then have v: "countable_string (message st)" "countable_string (lang st)" by (simp_all add: countable_status_def)
  let ?p = "s @ pack_status [] st @ t"
  have "unpack_uint32 ?p (length s) = (Inr (status st), length s + 4)"
    using uint32.unpack_at [where x = "status st" and s = ?p and u = s and i = "length s"] by (simp add: app)
  moreover have "unpack_string ?p (length s + 4) = (Inr (message st), length s + 4 + length (pack_string [] (message st)))"
    using counted.unpack_at [OF v(1), of ?p "s @ pack_uint32 [] (status st)" _ "length s + 4"] by (simp add: app)
  moreover have "unpack_string ?p (length s + 4 + length (pack_string [] (message st))) =
      (Inr (lang st), length s + 4 + length (pack_string [] (message st)) + length (pack_string [] (lang st)))"
    using counted.unpack_at [OF v(2), of ?p "s @ pack_uint32 [] (status st) @ pack_string [] (message st)" _
        "length s + 4 + length (pack_string [] (message st))"] by (simp add: app)
  ultimately show "unpack_status ?p (length s) = (Inr st, length s + length (pack_status [] st))"
    by (simp add: unpack_status_def app)
qed

text \<open>With a count that is not 0 the loop over extended attributes only ends by running out of the packet.\<close>

lemma unpack_extended_never: "0 < count \<Longrightarrow> \<exists>j. unpack_extended s count m i = (Inl OutOfRange, j)"
proof (induction s count m i rule: unpack_extended.induct)
  case (1 s count m i)
  have only: "unpack_string s j = (Inl e, k) \<Longrightarrow> e = OutOfRange" for j e k
    by (auto simp: unpack_string_def unpack_uint32_def unpack_uint8_def andThen_def Let_def
        split: sum.splits prod.splits if_splits)
  obtain r1 i1 where 1: "unpack_string s i = (r1, i1)" by fastforce
  show ?case
  proof (cases r1)
    case (Inl e)
    then show ?thesis using "1.prems" 1 only [of i e i1] by (simp add: unpack_extended.simps [of s count])
  next
    case (Inr k)
    obtain r2 i2 where 2: "unpack_string s i1 = (r2, i2)" by fastforce
    show ?thesis
    proof (cases r2)
      case (Inl e)
      then show ?thesis using "1.prems" 1 2 Inr only [of i1 e i2] by (simp add: unpack_extended.simps [of s count])
    next
      case (Inr v)
      then have "\<exists>j. unpack_extended s count (m(k \<mapsto> v)) i2 = (Inl OutOfRange, j)"
        using "1.IH" "1.prems" 1 2 \<open>r1 = Inr k\<close> by metis
      then show ?thesis using "1.prems" 1 2 Inr \<open>r1 = Inr k\<close> by (simp add: unpack_extended.simps [of s count m])
    qed
  qed
qed

end
