(* ===== verification/Sftp.thy ===== *)
theory Sftp
  imports Packets LocalFs Hex
begin

unbundle bit_operations_syntax

text \<open>
  The connection of class \<open>SftpFilesystem\<close> (sftp.cc): the pipes to the ssh process, framing,
  request identifiers, replies that wait to be fetched or are to be ignored, and the operations of
  the file system. Its state extends the counters and streams of the program; the outside
  (\<open>world\<close>) holds the two pipes and the server behind them.
\<close>

section \<open>The pipes and the process\<close>

text \<open>
  The system calls, as functions of the outside: \<open>pipe\<close>, \<open>close\<close> of both ends of the
  last pipe made, \<open>fork\<close> with the command that the child executes, reading and writing, \<open>select\<close>
  on the read end, \<open>close\<close> of each, \<open>waitpid\<close> (with the wait status).
\<close>

record 'w transport =
  tr_pipe :: "'w \<Rightarrow> (errno + unit) \<times> 'w"
  tr_close_pipe :: "'w \<Rightarrow> 'w"
  tr_fork :: "string list \<Rightarrow> 'w \<Rightarrow> (errno + int) \<times> 'w"
  tr_read :: "nat \<Rightarrow> 'w \<Rightarrow> (errno + bytes) \<times> 'w"
  tr_write :: "bytes \<Rightarrow> 'w \<Rightarrow> (errno + nat) \<times> 'w"
  tr_select :: "'w \<Rightarrow> (errno + bool) \<times> 'w"
  tr_close_in :: "'w \<Rightarrow> (errno + unit) \<times> 'w"
  tr_close_out :: "'w \<Rightarrow> (errno + unit) \<times> 'w"
  tr_waitpid :: "int \<Rightarrow> 'w \<Rightarrow> (errno + int) \<times> 'w"

text \<open>
  What a client is given: the pipes, the settings, texts of the C library, and the memory that is
  read uninitialised: a new buffer, an \<open>Attributes\<close> structure, what lies behind a buffer.
\<close>

record 'w client =
  cl_conf :: options
  cl_pipes :: "'w transport"
  cl_libc :: libc
  cl_buffer :: bytes
  cl_beyond :: bytes
  cl_attrs :: Attributes

text \<open>
  The members of the class, and its static member \<open>posix_rename\<close>. The file objects are kept
  without their device, which is the outside.
\<close>

record 'w sftp = "'w globals" +
  in_file :: "unit fileobj option"
  out_file :: "unit fileobj option"
  pid :: "int option"
  next_id :: u32
  replies :: "u32 \<rightharpoonup> string"
  ignored :: "u32 set"
  existence_inflight :: "(u32 \<times> path) list"
  existence :: "path \<rightharpoonup> bool"
  posix_rename :: bool

definition SftpFilesystem_new :: "'w globals \<Rightarrow> 'w sftp" where
  "SftpFilesystem_new g =
     globals.extend (globals.truncate g)
       \<lparr>in_file = None, out_file = None, pid = None, next_id = 0, replies = Map.empty, ignored = {},
        existence_inflight = [], existence = Map.empty, posix_rename = True\<rparr>"

section \<open>The two files\<close>

definition plug :: "unit fileobj \<Rightarrow> 'w \<Rightarrow> 'w fileobj" where
  "plug f w = \<lparr>buffer = buffer f, next_pos = next_pos f, top_pos = top_pos f, mode = mode f,
     eof = eof f, dev = w\<rparr>"

definition unplug :: "'w fileobj \<Rightarrow> unit fileobj" where
  "unplug f = \<lparr>buffer = buffer f, next_pos = next_pos f, top_pos = top_pos f, mode = mode f,
     eof = eof f, dev = ()\<rparr>"

definition on_in :: "('w fileobj, 'a) prog \<Rightarrow> (('w, 'z) sftp_scheme, 'a) prog" where
  "on_in m s =
     (case in_file s of
        None \<Rightarrow> (Inl (AssertFailed ''null pointer''), s)
      | Some f \<Rightarrow> (case m (plug f (world s)) of (r, g) \<Rightarrow> (r, s\<lparr>in_file := Some (unplug g), world := dev g\<rparr>)))"

definition on_out :: "('w fileobj, 'a) prog \<Rightarrow> (('w, 'z) sftp_scheme, 'a) prog" where
  "on_out m s =
     (case out_file s of
        None \<Rightarrow> (Inl (AssertFailed ''null pointer''), s)
      | Some f \<Rightarrow> (case m (plug f (world s)) of (r, g) \<Rightarrow> (r, s\<lparr>out_file := Some (unplug g), world := dev g\<rparr>)))"

text \<open>\<open>LocalFile\<close> on the pipes: its path is the host.\<close>

definition pipe_readbytes :: "'w client \<Rightarrow> 'w reader" where
  "pipe_readbytes c n w = checked ''reading'' (sftphost (cl_conf c)) (tr_read (cl_pipes c) n w)"

definition pipe_writebytes :: "'w client \<Rightarrow> 'w writer" where
  "pipe_writebytes c bs w =
     terminating w (write_loop (tr_write (cl_pipes c)) (sftphost (cl_conf c)) bs (cl_beyond c) 0 w)"

definition EINTR :: errno where "EINTR = 4"

text \<open>\<open>LocalFile::readable\<close>.\<close>

partial_function (option) select_loop :: "'w transport \<Rightarrow> 'w \<Rightarrow> ((errno + bool) \<times> 'w) option" where
  "select_loop tr w =
     (case tr_select tr w of
        (Inl e, w') \<Rightarrow> if e = EINTR then select_loop tr w' else Some (Inl e, w')
      | (Inr b, w') \<Rightarrow> Some (Inr b, w'))"

declare select_loop.simps [code]

definition LocalFile_readable :: "'w client \<Rightarrow> (('w, 'z) sftp_scheme, bool) prog" where
  "LocalFile_readable c s =
     (case in_file s of
        None \<Rightarrow> (Inl (AssertFailed ''null pointer''), s)
      | Some f \<Rightarrow>
          if mode f = Writing then (Inl (AssertFailed ''mode != writing''), s)
          else if next_pos f \<noteq> top_pos f then (Inr True, s)
          else (case select_loop (cl_pipes c) (world s) of
                  None \<Rightarrow> (Inl Diverges, s)
                | Some (Inl e, w) \<Rightarrow> fatal (''select: '' @ strerror (cl_libc c) e) (s\<lparr>world := w\<rparr>)
                | Some (Inr b, w) \<Rightarrow> (Inr b, s\<lparr>world := w\<rparr>)))"

section \<open>Identifiers and replies\<close>

definition newid :: "(('w, 'z) sftp_scheme, u32) prog" where
  "newid s =
     (let s = (if next_id s = 0 then s\<lparr>next_id := next_id s + 1\<rparr> else s)
      in (Inr (next_id s), s\<lparr>next_id := next_id s + 1\<rparr>))"

text \<open>Reading a packet at an index that is forgotten afterwards, or kept.\<close>

definition unpacking :: "(nat, 'a) prog \<Rightarrow> nat \<Rightarrow> ('s, 'a) prog" where
  "unpacking u i s = (fst (u i), s)"

definition unpacking_on :: "(nat, 'a) prog \<Rightarrow> nat \<Rightarrow> ('s, 'a \<times> nat) prog" where
  "unpacking_on u i s = (case u i of (Inl e, _) \<Rightarrow> (Inl e, s) | (Inr x, j) \<Rightarrow> (Inr (x, j), s))"

text \<open>
  \<open>getbytes(reply, len)\<close> takes the length as an \<open>int\<close>: from 2^31 on it is negative, and
  \<open>resize\<close> refuses the size it becomes.
\<close>

definition getbytes_string :: "'w client \<Rightarrow> u32 \<Rightarrow> (('w, 'z) sftp_scheme, string) prog" where
  "getbytes_string c n =
     (if 2 ^ 31 \<le> unat n then throw LengthError
      else andThen (on_in (getbytes (pipe_readbytes c) (unat n) True)) (\<lambda>bs. ret (string_of_bytes bs)))"

definition recv :: "'w client \<Rightarrow> (('w, 'z) sftp_scheme, u8 \<times> string) prog" where
  "recv c =
     andThen (getbytes_string c 4)
       (\<lambda>slen. if length slen \<noteq> 4 then
             fatal (''SFTP reply too short for length word (only got '' @ decimal (length slen) @ '' bytes)'')
           else
             andThen (unpacking (unpack_uint32 slen) 0)
               (\<lambda>len. andThen (getbytes_string c len)
                  (\<lambda>reply. if length reply \<noteq> unat len then
                       fatal (''SFTP reply truncated (got '' @ decimal (length reply) @ '', expected '' @
                         decimal (unat len) @ '')'')
                     else ret (byte_of_char (char_at reply 0), reply))))"

definition sftp_poll :: "'w client \<Rightarrow> (('w, 'z) sftp_scheme, unit) prog" where
  "sftp_poll c =
     andThen (recv c)
       (\<lambda>(_, reply). andThen (unpacking (unpack_uint32 reply) 1)
          (\<lambda>i s. (Inr (),
             if i \<notin> ignored s then s\<lparr>replies := (replies s)(i \<mapsto> reply)\<rparr>
             else s\<lparr>ignored := ignored s - {i}\<rparr>)))"

text \<open>The loop of \<open>await\<close>, which does not end if the reply never comes.\<close>

partial_function (option) await_loop ::
  "'w client \<Rightarrow> u32 \<Rightarrow> ('w, 'z) sftp_scheme \<Rightarrow> ((exn + string) \<times> ('w, 'z) sftp_scheme) option" where
  "await_loop c i s =
     (case replies s i of
        Some reply \<Rightarrow> Some (Inr reply, s)
      | None \<Rightarrow>
          (case sftp_poll c s of
             (Inl e, s') \<Rightarrow> Some (Inl e, s')
           | (Inr _, s') \<Rightarrow> await_loop c i s'))"

declare await_loop.simps [code]

definition await :: "'w client \<Rightarrow> u32 \<Rightarrow> (('w, 'z) sftp_scheme, u8 \<times> string) prog" where
  "await c i =
     andThen (\<lambda>s. terminating s (await_loop c i s))
       (\<lambda>reply s.
          let s = s\<lparr>replies := (replies s)(i := None)\<rparr>
          in if reply = [] then (Inl OutOfRange, s) else (Inr (byte_of_char (reply ! 0), reply), s))"

definition sftp_ready :: "u32 \<Rightarrow> ('w, 'z) sftp_scheme \<Rightarrow> bool" where
  "sftp_ready i s \<longleftrightarrow> replies s i \<noteq> None"

definition sftp_ignore :: "u32 \<Rightarrow> (('w, 'z) sftp_scheme, unit) prog" where
  "sftp_ignore i s = (Inr (), s\<lparr>replies := (replies s)(i := None), ignored := insert i (ignored s)\<rparr>)"

section \<open>Sending\<close>

partial_function (option) send_loop ::
  "'w client \<Rightarrow> ('w, 'z) sftp_scheme \<Rightarrow> ((exn + unit) \<times> ('w, 'z) sftp_scheme) option" where
  "send_loop c s =
     (case LocalFile_readable c s of
        (Inl e, s') \<Rightarrow> Some (Inl e, s')
      | (Inr b, s') \<Rightarrow>
          if b then
            (case sftp_poll c s' of
               (Inl e, s'') \<Rightarrow> Some (Inl e, s'')
             | (Inr _, s'') \<Rightarrow> send_loop c s'')
          else Some (Inr (), s'))"

declare send_loop.simps [code]

definition put_out :: "'w client \<Rightarrow> string \<Rightarrow> (('w, 'z) sftp_scheme, unit) prog" where
  "put_out c t = on_out (put (pipe_writebytes c) File_synchronize (bytes_of_string t))"

definition flush_out :: "'w client \<Rightarrow> (('w, 'z) sftp_scheme, unit) prog" where
  "flush_out c = on_out (flush (pipe_writebytes c) File_synchronize)"

definition send :: "'w client \<Rightarrow> string \<Rightarrow> (('w, 'z) sftp_scheme, unit) prog" where
  "send c cmd =
     andThen (\<lambda>s. terminating s (send_loop c s))
       (\<lambda>_. andThen (put_out c (pack_uint32 [] (word_of_nat (length cmd)))) (\<lambda>_. put_out c cmd))"

section \<open>Starting and ending\<close>

text \<open>The command of the child process.\<close>

definition ssh_command :: "options \<Rightarrow> string list" where
  "ssh_command conf =
     (case sftpserver conf of
        Some server \<Rightarrow>
          if sftphost conf \<noteq> ''<magic>'' then [''ssh'', ''-x'', ''-T'', c_str (sftphost conf), server]
          else [server]
      | None \<Rightarrow> [''ssh'', ''-x'', ''-s'', c_str (sftphost conf), ''sftp''])"

text \<open>\<open>connect\<close>: if the second pipe cannot be made the first one is closed.\<close>

definition connect :: "'w client \<Rightarrow> (('w, 'z) sftp_scheme, unit) prog" where
  "connect c s =
     (let tr = cl_pipes c;
          s = note_if (verbose (cl_conf c)) (''connecting to '' @ c_str (sftphost (cl_conf c))) s
      in case tr_pipe tr (world s) of
           (Inl e, w) \<Rightarrow> (Inl (FileError ''creating'' ''pipe'' e), s\<lparr>world := w\<rparr>)
         | (Inr _, w) \<Rightarrow>
             (case tr_pipe tr w of
                (Inl e, w) \<Rightarrow> (Inl (FileError ''creating'' ''pipe'' e), s\<lparr>world := tr_close_pipe tr w\<rparr>)
              | (Inr _, w) \<Rightarrow>
                  (case tr_fork tr (ssh_command (cl_conf c)) w of
                     (Inl e, w) \<Rightarrow> fatal (''fork: '' @ strerror (cl_libc c) e) (s\<lparr>world := w\<rparr>)
                   | (Inr p, w) \<Rightarrow>
                       (Inr (), s\<lparr>world := w, pid := Some p, in_file := Some (File (cl_buffer c) ()),
                          out_file := Some (File (cl_buffer c) ())\<rparr>))))"

text \<open>\<open>%#x\<close>\<close>

fun hex_text :: "nat \<Rightarrow> string" where
  "hex_text n = (if n < 16 then [hexdigits ! n] else hex_text (n div 16) @ [hexdigits ! (n mod 16)])"

declare hex_text.simps [simp del]

definition hex_alt :: "nat \<Rightarrow> string" where
  "hex_alt n = (if n = 0 then ''0'' else ''0x'' @ hex_text n)"

definition init :: "'w client \<Rightarrow> (('w, 'z) sftp_scheme, unit) prog" where
  "init c s =
     (if in_file s \<noteq> None then (Inr (), s)
      else
        andThen (connect c)
          (\<lambda>_. andThen (send c (pack_uint32 (pack_uint8 [] SSH_FXP_INIT) 3))
          (\<lambda>_. andThen (flush_out c)
          (\<lambda>_. andThen (recv c)
          (\<lambda>(r, reply).
             if r \<noteq> SSH_FXP_VERSION then fatal (''expected SSH_FXP_VERSION, got '' @ hex_alt (unat r))
             else
               andThen (unpacking (unpack_uint32 reply) 1)
                 (\<lambda>version. if version < 3
                    then fatal (''expected SFTP version at least 3, got '' @ decimal (unat version))
                    else ret ()))))) s)"

text \<open>\<open>delete\<close> of the two files: closing, and the assertion of \<open>~File\<close>.\<close>

definition delete_pipe ::
  "'w client \<Rightarrow> unit fileobj option \<Rightarrow> ('w \<Rightarrow> (errno + unit) \<times> 'w) \<Rightarrow> (('w, 'z) sftp_scheme, unit) prog" where
  "delete_pipe c f close =
     (case f of
        None \<Rightarrow> ret ()
      | Some f \<Rightarrow>
          (\<lambda>s. case in_world (\<lambda>w. checked ''closing'' (sftphost (cl_conf c)) (close w)) s of
             (r, s') \<Rightarrow> if File_destructor_ok f then (r, s') else (Inl (AssertFailed ''next == buffer''), s')))"

definition SftpFilesystem_destroy :: "'w client \<Rightarrow> (('w, 'z) sftp_scheme, unit) prog" where
  "SftpFilesystem_destroy c s =
     andThen (delete_pipe c (in_file s) (tr_close_in (cl_pipes c)))
       (\<lambda>_. andThen (delete_pipe c (out_file s) (tr_close_out (cl_pipes c)))
          (\<lambda>_ s. case pid s of
             None \<Rightarrow> (Inr (), s)
           | Some p \<Rightarrow>
               (case tr_waitpid (cl_pipes c) p (world s) of
                  (Inl e, w) \<Rightarrow> fatal (''error calling waitpid: '' @ strerror (cl_libc c) e) (s\<lparr>world := w\<rparr>)
                | (Inr st, w) \<Rightarrow>
                    (Inr (),
                     if st \<noteq> 0 then error (''sftp subprocess exited with wstat '' @ hex_alt (unat (word_of_int st :: u32))) (s\<lparr>world := w\<rparr>)
                     else s\<lparr>world := w\<rparr>)))) s"

end
