(* ===== verification/Sftp_Ops.thy ===== *)
theory Sftp_Ops
  imports Sftp
begin

unbundle bit_operations_syntax

text \<open>
  The operations of \<open>SftpFilesystem\<close> and the class \<open>SftpFile\<close> (sftp.cc). Each
  operation starts the connection if need be, sends one or more commands and waits for the replies.
\<close>

section \<open>Checking status replies\<close>

definition check_reply :: "string \<Rightarrow> path \<Rightarrow> string \<Rightarrow> bool \<Rightarrow> (('w, 'z) sftp_scheme, unit) prog" where
  "check_reply doing path reply allow_eof =
     andThen (unpacking_on (unpack_uint8 reply) 0)
       (\<lambda>(r, i). if r \<noteq> SSH_FXP_STATUS then fatal (''expected SSH_FXP_STATUS, got '' @ hex_alt (unat r))
          else
            andThen (unpacking_on (unpack_uint32 reply) i)
              (\<lambda>(_, i). andThen (unpacking (unpack_status reply) i)
                 (\<lambda>st. if status st \<noteq> 0 \<and> (status st \<noteq> SSH_FX_EOF \<or> \<not> allow_eof)
                    then throw (SftpFileError doing path (message st) (status st))
                    else ret ())))"

definition check_id :: "'w client \<Rightarrow> string \<Rightarrow> path \<Rightarrow> u32 \<Rightarrow> bool \<Rightarrow> (('w, 'z) sftp_scheme, unit) prog" where
  "check_id c doing path i allow_eof =
     andThen (await c i) (\<lambda>(_, reply). check_reply doing path reply allow_eof)"

section \<open>Operations with one status reply\<close>

text \<open>\<open>send(cmd); out->flush();\<close>\<close>

definition send_now :: "'w client \<Rightarrow> string \<Rightarrow> (('w, 'z) sftp_scheme, unit) prog" where
  "send_now c cmd = andThen (send c cmd) (\<lambda>_. flush_out c)"

text \<open>The type and the identifier, with which every command starts.\<close>

definition command :: "u8 \<Rightarrow> u32 \<Rightarrow> string" where
  "command t i = pack_uint32 (pack_uint8 [] t) i"

definition rename_try :: "'w client \<Rightarrow> path \<Rightarrow> path \<Rightarrow> (('w, 'z) sftp_scheme, unit) prog" where
  "rename_try c oldpath newpath =
     andThen (init c)
       (\<lambda>_. andThen newid
          (\<lambda>i s.
             let cmd =
               (if posix_rename s then
                  pack_string (pack_string (pack_string (command SSH_FXP_EXTENDED i) ''posix-rename@openssh.org'')
                    oldpath) newpath
                else pack_string (pack_string (command SSH_FXP_RENAME i) oldpath) newpath)
             in andThen (send_now c cmd) (\<lambda>_. check_id c ''renaming'' oldpath i False) s))"

text \<open>
  The catch clause tries once more, now without the extension; the clause of the second attempt can
  only throw again, since \<open>posix_rename\<close> is off.
\<close>

definition SftpFilesystem_rename :: "'w client \<Rightarrow> path \<Rightarrow> path \<Rightarrow> (('w, 'z) sftp_scheme, unit) prog" where
  "SftpFilesystem_rename c oldpath newpath =
     catching (rename_try c oldpath newpath)
       (\<lambda>e. case e of
              SftpFileError doing path m st \<Rightarrow>
                Some (\<lambda>s. if posix_rename s \<and> st = SSH_FX_OP_UNSUPPORTED
                  then rename_try c oldpath newpath (s\<lparr>posix_rename := False\<rparr>)
                  else (Inl e, s))
            | _ \<Rightarrow> None)"

definition SftpFilesystem_unlink :: "'w client \<Rightarrow> path \<Rightarrow> (('w, 'z) sftp_scheme, unit) prog" where
  "SftpFilesystem_unlink c path =
     andThen (init c)
       (\<lambda>_. andThen newid
          (\<lambda>i. andThen (send_now c (pack_string (command SSH_FXP_REMOVE i) path))
             (\<lambda>_. check_id c ''removing'' path i False)))"

definition SftpFilesystem_rmdir :: "'w client \<Rightarrow> path \<Rightarrow> (('w, 'z) sftp_scheme, unit) prog" where
  "SftpFilesystem_rmdir c path =
     andThen (init c)
       (\<lambda>_. andThen newid
          (\<lambda>i. andThen (send_now c (pack_string (command SSH_FXP_RMDIR i) path))
             (\<lambda>_. check_id c ''removing directory'' path i False)))"

definition SftpFilesystem_remove :: "'w client \<Rightarrow> path \<Rightarrow> (('w, 'z) sftp_scheme, unit) prog" where
  "SftpFilesystem_remove c path =
     catching (SftpFilesystem_unlink c path)
       (\<lambda>e. case e of
              SftpFileError doing p m st \<Rightarrow>
                Some (if st = SSH_FX_FAILURE then SftpFilesystem_rmdir c path else throw e)
            | _ \<Rightarrow> None)"

text \<open>The mode goes out as it is given.\<close>

definition SftpFilesystem_mkdir :: "'w client \<Rightarrow> path \<Rightarrow> nat \<Rightarrow> (('w, 'z) sftp_scheme, unit) prog" where
  "SftpFilesystem_mkdir c path m =
     andThen (init c)
       (\<lambda>_. andThen newid
          (\<lambda>i. andThen
             (send_now c (pack_uint32 (pack_uint32 (pack_string (command SSH_FXP_MKDIR i) path)
                SSH_FILEXFER_ATTR_PERMISSIONS) (word_of_nat m)))
             (\<lambda>_. check_id c ''creating directory'' path i False)))"

section \<open>Existence\<close>

definition SftpFilesystem_prefigure_exists :: "'w client \<Rightarrow> path \<Rightarrow> (('w, 'z) sftp_scheme, unit) prog" where
  "SftpFilesystem_prefigure_exists c path =
     andThen (init c)
       (\<lambda>_. andThen newid
          (\<lambda>i. if i = 0 then throw (AssertFailed ''id != 0'')
             else
               andThen (send_now c (pack_string (command SSH_FXP_STAT i) path))
                 (\<lambda>_ s. (Inr (), s\<lparr>existence_inflight := existence_inflight s @ [(i, path)]\<rparr>))))"

text \<open>The loop empties the queue of tests in flight.\<close>

fun read_inflight :: "'w client \<Rightarrow> (u32 \<times> path) list \<Rightarrow> (('w, 'z) sftp_scheme, unit) prog" where
  "read_inflight c [] s = (Inr (), s)"
| "read_inflight c ((i, path) # es) s =
     andThen (await c i)
       (\<lambda>(r, _) s. read_inflight c es
          (s\<lparr>existence := (existence s)(path \<mapsto> (r = SSH_FXP_ATTRS)), existence_inflight := es\<rparr>)) s"

partial_function (option) exists_loop ::
  "'w client \<Rightarrow> path \<Rightarrow> ('w, 'z) sftp_scheme \<Rightarrow> ((exn + bool) \<times> ('w, 'z) sftp_scheme) option" where
  "exists_loop c path s =
     (case andThen (init c) (\<lambda>_ s. read_inflight c (existence_inflight s) s) s of
        (Inl e, s') \<Rightarrow> Some (Inl e, s')
      | (Inr _, s') \<Rightarrow>
          (case existence s' path of
             Some found \<Rightarrow> Some (Inr found, s'\<lparr>existence := (existence s')(path := None)\<rparr>)
           | None \<Rightarrow>
               (case SftpFilesystem_prefigure_exists c path s' of
                  (Inl e, s'') \<Rightarrow> Some (Inl e, s'')
                | (Inr _, s'') \<Rightarrow> exists_loop c path s'')))"

declare exists_loop.simps [code]

definition SftpFilesystem_exists :: "'w client \<Rightarrow> path \<Rightarrow> (('w, 'z) sftp_scheme, bool) prog" where
  "SftpFilesystem_exists c path s = terminating s (exists_loop c path s)"

section \<open>Directories and types\<close>

definition closehandle :: "'w client \<Rightarrow> string \<Rightarrow> (('w, 'z) sftp_scheme, u32) prog" where
  "closehandle c h =
     andThen newid
       (\<lambda>i. andThen (send c (pack_string (command SSH_FXP_CLOSE i) h)) (\<lambda>_. ret i))"

definition ignore_close :: "'w client \<Rightarrow> string \<Rightarrow> (('w, 'z) sftp_scheme, unit) prog" where
  "ignore_close c h = andThen (closehandle c h) sftp_ignore"

text \<open>The names of one reply.\<close>

fun read_names :: "'w client \<Rightarrow> string \<Rightarrow> nat \<Rightarrow> string list \<Rightarrow> (nat, string list) prog" where
  "read_names c reply 0 names i = (Inr names, i)"
| "read_names c reply (Suc n) names i =
     andThen (unpack_string reply)
       (\<lambda>filename. andThen (unpack_string reply)
          (\<lambda>longname. andThen (unpack_attrs (cl_attrs c) reply)
             (\<lambda>_. read_names c reply n
                (if filename \<noteq> ''.'' \<and> filename \<noteq> ''..'' then names @ [filename] else names)))) i"

text \<open>The loop over the replies, all with the same identifier; it ends if the server ends.\<close>

partial_function (option) readdir_loop ::
  "'w client \<Rightarrow> path \<Rightarrow> u32 \<Rightarrow> string \<Rightarrow> string list \<Rightarrow> ('w, 'z) sftp_scheme \<Rightarrow>
     ((exn + string list) \<times> ('w, 'z) sftp_scheme) option" where
  "readdir_loop c path i cmd names s =
     (case andThen (send_now c cmd) (\<lambda>_. await c i) s of
        (Inl e, s') \<Rightarrow> Some (Inl e, s')
      | (Inr (r, reply), s') \<Rightarrow>
          if r = SSH_FXP_NAME then
            (case unpacking (andThen (unpack_uint32 reply) (\<lambda>count. read_names c reply (unat count) names)) 5 s' of
               (Inl e, s'') \<Rightarrow> Some (Inl e, s'')
             | (Inr names', s'') \<Rightarrow> readdir_loop c path i cmd names' s'')
          else
            Some (andThen (check_reply ''reading directory'' path reply True) (\<lambda>_. ret names) s'))"

declare readdir_loop.simps [code]

definition SftpFilesystem_contents :: "'w client \<Rightarrow> path \<Rightarrow> (('w, 'z) sftp_scheme, string list) prog" where
  "SftpFilesystem_contents c path =
     andThen (init c)
       (\<lambda>_. andThen newid
       (\<lambda>i. andThen (send_now c (pack_string (command SSH_FXP_OPENDIR i) path))
       (\<lambda>_. andThen (await c i)
       (\<lambda>(r, reply). andThen
          (if r \<noteq> SSH_FXP_HANDLE then check_reply ''opening directory'' path reply False else ret ())
       (\<lambda>_. andThen (unpacking (unpack_string reply) 5)
       (\<lambda>h. andThen
          (catching
             (\<lambda>s. terminating s (readdir_loop c path i (pack_string (command SSH_FXP_READDIR i) h) [] s))
             (\<lambda>e. if catchable e then Some (andThen (ignore_close c h) (\<lambda>_. throw e)) else None))
       (\<lambda>names. andThen (ignore_close c h) (\<lambda>_. ret names))))))))"

text \<open>The type is what one of three requests, sent together, succeeds with.\<close>

definition close_if_handle :: "'w client \<Rightarrow> u8 \<Rightarrow> string \<Rightarrow> (('w, 'z) sftp_scheme, unit) prog" where
  "close_if_handle c r reply =
     (if r = SSH_FXP_HANDLE then andThen (unpacking (unpack_string reply) 5) (ignore_close c) else ret ())"

definition type_of_replies :: "u8 \<Rightarrow> u8 \<Rightarrow> u8 \<Rightarrow> filetype" where
  "type_of_replies openfiler opendirr readlinkr =
     (let t = UnknownFileType;
          t = (if openfiler = SSH_FXP_HANDLE then RegularFile else t);
          t = (if opendirr = SSH_FXP_HANDLE then Directory else t)
      in if readlinkr = SSH_FXP_NAME then SymbolicLink else t)"

definition check_missing :: "path \<Rightarrow> u8 \<Rightarrow> string \<Rightarrow> (('w, 'z) sftp_scheme, unit) prog" where
  "check_missing path openfiler reply =
     (if openfiler = SSH_FXP_STATUS then
        andThen (unpacking (unpack_uint32 reply) 5)
          (\<lambda>st. if st = SSH_FX_NO_SUCH_FILE then check_reply ''checking file type'' path reply False else ret ())
      else ret ())"

definition SftpFilesystem_type :: "'w client \<Rightarrow> path \<Rightarrow> (('w, 'z) sftp_scheme, filetype) prog" where
  "SftpFilesystem_type c path =
     andThen (init c)
       (\<lambda>_. andThen newid
       (\<lambda>openfileid. andThen (send c (pack_uint32 (pack_uint32 (pack_string (command SSH_FXP_OPEN openfileid) path) SSH_FXF_READ) 0))
       (\<lambda>_. andThen newid
       (\<lambda>opendirid. andThen (send c (pack_string (command SSH_FXP_OPENDIR opendirid) path))
       (\<lambda>_. andThen newid
       (\<lambda>readlinkid. andThen (send c (pack_string (command SSH_FXP_READLINK readlinkid) path))
       (\<lambda>_. andThen (flush_out c)
       (\<lambda>_. andThen (await c openfileid)
       (\<lambda>(openfiler, readfilereply). andThen (await c opendirid)
       (\<lambda>(opendirr, readdirreply). andThen (await c readlinkid)
       (\<lambda>(readlinkr, readlinkreply). andThen (check_missing path openfiler readfilereply)
       (\<lambda>_. andThen (close_if_handle c openfiler readfilereply)
       (\<lambda>_. andThen (close_if_handle c opendirr readdirreply)
       (\<lambda>_. ret (type_of_replies openfiler opendirr readlinkr)))))))))))))))"

section \<open>Files\<close>

record sftpfile =
  sf_path :: path
  handle :: string
  readqueue :: "u32 list"
  readbuffer :: string
  readoffset :: u64
  sf_eof :: bool
  writequeue :: "u32 list"
  writeoffset :: u64

definition SftpFile :: "path \<Rightarrow> string \<Rightarrow> sftpfile" where
  "SftpFile path h =
     \<lparr>sf_path = path, handle = h, readqueue = [], readbuffer = [], readoffset = 0, sf_eof = False,
      writequeue = [], writeoffset = 0\<rparr>"

definition readqueuesize :: nat where "readqueuesize = 8"

fun open_pflags :: "open_mode \<Rightarrow> u32" where
  "open_pflags ReadOnly = SSH_FXF_READ"
| "open_pflags Overwrite = SSH_FXF_WRITE OR SSH_FXF_CREAT OR SSH_FXF_TRUNC"
| "open_pflags NoOverwrite = SSH_FXF_WRITE OR SSH_FXF_CREAT OR SSH_FXF_EXCL"

definition SftpFilesystem_open :: "'w client \<Rightarrow> path \<Rightarrow> open_mode \<Rightarrow> (('w, 'z) sftp_scheme, sftpfile) prog" where
  "SftpFilesystem_open c path m =
     andThen (init c)
       (\<lambda>_. andThen newid
       (\<lambda>i. andThen (send_now c (pack_uint32 (pack_uint32 (pack_string (command SSH_FXP_OPEN i) path) (open_pflags m)) 0))
       (\<lambda>_. andThen (await c i)
       (\<lambda>(r, reply). andThen
          (if r \<noteq> SSH_FXP_HANDLE then check_reply ''opening'' path reply False else ret ())
       (\<lambda>_. andThen (unpacking (unpack_string reply) 5)
       (\<lambda>h. ret (SftpFile path h)))))))"

text \<open>A function of the file system, called by a file.\<close>

definition on_fs :: "('s, 'a) prog \<Rightarrow> ('f \<times> 's, 'a) prog" where
  "on_fs m x = (case x of (f, s) \<Rightarrow> (case m s of (r, s') \<Rightarrow> (r, (f, s'))))"

definition on_file :: "('f \<Rightarrow> 'f) \<Rightarrow> ('f \<times> 's, unit) prog" where
  "on_file u x = (case x of (f, s) \<Rightarrow> (Inr (), (u f, s)))"

text \<open>Keeping the queue of read requests full.\<close>

definition send_read :: "'w client \<Rightarrow> nat \<Rightarrow> (sftpfile \<times> ('w, 'z) sftp_scheme, unit) prog" where
  "send_read c space =
     andThen (on_fs newid)
       (\<lambda>i x.
          let f = fst x;
              cmd = pack_uint32 (pack_uint64 (pack_string (command SSH_FXP_READ i) (handle f)) (readoffset f))
                      (word_of_nat space)
          in andThen (on_file (\<lambda>f. f\<lparr>readoffset := readoffset f + word_of_nat space\<rparr>))
               (\<lambda>_. andThen (on_fs (send_now c cmd))
                  (\<lambda>_. on_file (\<lambda>f. f\<lparr>readqueue := readqueue f @ [i]\<rparr>))) x)"

fun fill_queue :: "'w client \<Rightarrow> nat \<Rightarrow> nat \<Rightarrow> (sftpfile \<times> ('w, 'z) sftp_scheme, unit) prog" where
  "fill_queue c space 0 x = (Inr (), x)"
| "fill_queue c space (Suc n) x = andThen (send_read c space) (\<lambda>_. fill_queue c space n) x"

text \<open>The reads that are left at the end of the file are ignored.\<close>

fun ignore_all :: "u32 list \<Rightarrow> (sftpfile \<times> ('w, 'z) sftp_scheme, unit) prog" where
  "ignore_all [] x = (Inr (), x)"
| "ignore_all (i # is) x =
     andThen (on_fs (sftp_ignore i))
       (\<lambda>_. andThen (on_file (\<lambda>f. f\<lparr>readqueue := is\<rparr>)) (\<lambda>_. ignore_all is)) x"

definition take_reply :: "'w client \<Rightarrow> u32 \<Rightarrow> (sftpfile \<times> ('w, 'z) sftp_scheme, unit) prog" where
  "take_reply c i =
     andThen (on_fs (await c i))
       (\<lambda>(r, reply) x.
          if r = SSH_FXP_DATA then
            andThen (on_fs (unpacking (unpack_string reply) 5))
              (\<lambda>data. on_file (\<lambda>f. f\<lparr>readbuffer := data\<rparr>)) x
          else
            andThen (on_fs (check_reply ''reading'' (sf_path (fst x)) reply True))
              (\<lambda>_. andThen (ignore_all (readqueue (fst x)))
                 (\<lambda>_. on_file (\<lambda>f. f\<lparr>sf_eof := True\<rparr>))) x)"

definition SftpFile_readbytes :: "'w client \<Rightarrow> (sftpfile \<times> ('w, 'z) sftp_scheme) reader" where
  "SftpFile_readbytes c space =
     andThen
       (\<lambda>x. if \<not> sf_eof (fst x) \<and> length (readqueue (fst x)) < readqueuesize
            then fill_queue c space (readqueuesize - length (readqueue (fst x))) x else (Inr (), x))
       (\<lambda>_. andThen
          (\<lambda>x. case readqueue (fst x) of
               i # is \<Rightarrow>
                 if readbuffer (fst x) = [] then
                   andThen (on_file (\<lambda>f. f\<lparr>readqueue := is\<rparr>)) (\<lambda>_. take_reply c i) x
                 else (Inr (), x)
             | [] \<Rightarrow> (Inr (), x))
          (\<lambda>_ x.
             let n = (if length (readbuffer (fst x)) < space then length (readbuffer (fst x)) else space)
             in if readbuffer (fst x) \<noteq> [] then
                  (Inr (bytes_of_string (take n (readbuffer (fst x)))),
                   ((fst x)\<lparr>readbuffer := drop n (readbuffer (fst x))\<rparr>, snd x))
                else (Inr [], x)))"

text \<open>Writing: replies that have arrived are looked at, the others wait for \<open>synchronize\<close>.\<close>

definition find_ready_write :: "sftpfile \<times> ('w, 'z) sftp_scheme \<Rightarrow> u32" where
  "find_ready_write x =
     (case List.find (\<lambda>i. sftp_ready i (snd x)) (writequeue (fst x)) of Some i \<Rightarrow> i | None \<Rightarrow> 0)"

definition synchronize_one :: "'w client \<Rightarrow> u32 \<Rightarrow> (sftpfile \<times> ('w, 'z) sftp_scheme, unit) prog" where
  "synchronize_one c id0 x =
     (let i = (if id0 = 0 then hd (writequeue (fst x)) else id0)
      in andThen (on_fs (await c (hd (writequeue (fst x)))))
           (\<lambda>(_, reply) x.
              if i \<notin> set (writequeue (fst x)) then (Inl (AssertFailed ''it != writequeue.end()''), x)
              else
                andThen (on_file (\<lambda>f. f\<lparr>writequeue := remove1 i (writequeue f)\<rparr>))
                  (\<lambda>_ x. on_fs (check_reply ''writing to'' (sf_path (fst x)) reply False) x) x) x)"

partial_function (option) reap_loop ::
  "'w client \<Rightarrow> sftpfile \<times> ('w, 'z) sftp_scheme \<Rightarrow> ((exn + unit) \<times> (sftpfile \<times> ('w, 'z) sftp_scheme)) option" where
  "reap_loop c x =
     (let ready_id = find_ready_write x
      in if ready_id = 0 then Some (Inr (), x)
         else (case synchronize_one c ready_id x of
                 (Inl e, x') \<Rightarrow> Some (Inl e, x')
               | (Inr _, x') \<Rightarrow> reap_loop c x'))"

declare reap_loop.simps [code]

definition SftpFile_writebytes :: "'w client \<Rightarrow> (sftpfile \<times> ('w, 'z) sftp_scheme) writer" where
  "SftpFile_writebytes c buf =
     (if buf = [] then ret ()
      else
        andThen (on_fs newid)
          (\<lambda>i x.
             let f = fst x;
                 cmd = pack_bytes (pack_uint64 (pack_string (command SSH_FXP_WRITE i) (handle f)) (writeoffset f)) buf
             in andThen (on_fs (send c cmd))
                  (\<lambda>_. andThen (on_file (\<lambda>f. f\<lparr>writeoffset := writeoffset f + word_of_nat (length buf)\<rparr>))
                     (\<lambda>_. andThen (on_fs (flush_out c))
                        (\<lambda>_. andThen (on_file (\<lambda>f. f\<lparr>writequeue := writequeue f @ [i]\<rparr>))
                           (\<lambda>_ x. terminating x (reap_loop c x))))) x))"

text \<open>Every round takes one element off the queue.\<close>

fun synchronize_loop :: "'w client \<Rightarrow> nat \<Rightarrow> (sftpfile \<times> ('w, 'z) sftp_scheme, unit) prog" where
  "synchronize_loop c 0 x = (Inr (), x)"
| "synchronize_loop c (Suc n) x = andThen (synchronize_one c 0) (\<lambda>_. synchronize_loop c n) x"

definition SftpFile_synchronize :: "'w client \<Rightarrow> (sftpfile \<times> ('w, 'z) sftp_scheme, unit) prog" where
  "SftpFile_synchronize c x = synchronize_loop c (length (writequeue (fst x))) x"

definition SftpFile_destroy :: "'w client \<Rightarrow> (sftpfile \<times> ('w, 'z) sftp_scheme, unit) prog" where
  "SftpFile_destroy c =
     andThen (SftpFile_synchronize c) (\<lambda>_ x. on_fs (ignore_close c (handle (fst x))) x)"

end
