(* ===== verification/Sftp_Spec.thy ===== *)
theory Sftp_Spec
  imports Sftp_Ops
begin

text \<open>
  What the SFTP client promises: replies are matched to requests in whatever order they arrive,
  identifiers are never 0 and do not repeat within a window of 2^32 - 1, and the table of replies and
  the set of ignored identifiers keep their invariant through every operation.
\<close>

section \<open>Reading in full does not end a file\<close>

context byte_source
begin

lemma chunk_eof: "getbytes_chunk readbytes mx f = (Inr c, f') \<Longrightarrow> eof f' = eof f"
  by (auto simp: getbytes_chunk_def on_dev_def Let_def split: if_splits prod.splits)

lemma refill_eof:
  assumes "reader_ok f" "mode f = Reading" "\<not> eof f" "n \<noteq> 0"
    and "(if next_pos f = top_pos f \<and> mx < BUFFER_SIZE \<and> \<not> eof f then fill readbytes f
          else (Inr 1, f)) = (Inr n, f')"
  shows "\<not> eof f'"
  using assms by (auto simp: fill_read split: if_splits prod.splits sum.splits)

lemma getbytes_loop_open:
  assumes "reader_ok f" "mode f = Reading" "0 < mx" "\<not> eof f"
    and "getbytes_loop readbytes all mx got f = (Inr bs, f')" "length bs = length got + mx"
  shows "\<not> eof f'"
  using assms
proof (induction mx arbitrary: got f rule: less_induct)
  case (less mx)
  note prems = less.prems
  obtain n f1 where f1: "(if next_pos f = top_pos f \<and> mx < BUFFER_SIZE \<and> \<not> eof f
      then fill readbytes f else (Inr 1, f)) = (Inr n, f1)"
    using prems(5) by (subst (asm) getbytes_loop.simps) (auto split: prod.splits sum.splits)
  note ok1 = refill_ok [OF prems(1,2) f1]
  have n: "n \<noteq> 0"
  proof
    assume "n = 0"
    then have "bs = got" using prems(5) by (subst (asm) getbytes_loop.simps) (simp add: f1)
    then show False using prems(3,6) by simp
  qed
  have e1: "\<not> eof f1" by (rule refill_eof [OF prems(1,2,4) n f1])
  obtain c f2 where f2: "getbytes_chunk readbytes mx f1 = (Inr c, f2)"
    using prems(5) n by (subst (asm) getbytes_loop.simps) (auto simp: f1 split: prod.splits sum.splits)
  have ok2: "length c \<le> mx" "reader_ok f2" "mode f2 = Reading" "\<not> eof f2"
    using getbytes_chunk_ok [OF _ _ f2 prems(3)] ok1 chunk_eof [OF f2] e1 by auto
  have step: "getbytes_loop readbytes all mx got f =
      (if c = [] then (Inr (got @ c), f2\<lparr>eof := True\<rparr>)
       else if all \<and> length c < mx then getbytes_loop readbytes all (mx - length c) (got @ c) f2
       else (Inr (got @ c), f2))"
    by (subst getbytes_loop.simps) (simp add: f1 f2 n Let_def ok2(4))
  show ?case
  proof (cases "c \<noteq> [] \<and> all \<and> length c < mx")
    case True
    then have lt: "mx - length c < mx" "0 < mx - length c" by (cases c; simp)+
    show ?thesis
      by (rule less.IH [OF lt(1) ok2(2,3) lt(2) ok2(4), of "got @ c"]) (use step True prems(5,6) ok2(1) in auto)
  next
    case False
    then show ?thesis using step prems(3,5,6) ok2(4) by (auto split: if_splits)
  qed
qed

lemma getbytes_open:
  assumes "reader_ok f" "0 < mx" "\<not> eof f" "getbytes readbytes mx all f = (Inr bs, f')" "length bs = mx"
  shows "\<not> eof f'"
proof (cases "mode f = Reading")
  case True
  then show ?thesis using getbytes_loop_open [OF assms(1) True assms(2,3), of all "[]"] assms(4,5)
    by (simp add: getbytes_def)
next
  case False
  then have m: "next_pos f = top_pos f" "mode f \<noteq> Writing" using assms(1) by (cases "mode f"; simp add: reader_ok_def)+
  obtain n f1 where f1: "fill readbytes f = (Inr n, f1)"
    and r: "(if n = 0 then ret [] else getbytes_loop readbytes all mx []) f1 = (Inr bs, f')"
    using assms(4) False by (auto simp: getbytes_def elim: andThen_InrE)
  have n: "n \<noteq> 0"
  proof
    assume "n = 0"
    then have "bs = []" using r by simp
    then show False using assms(2,5) by simp
  qed
  have "\<not> eof f1" using f1 n by (auto simp: fill_read [OF m(2) assms(3)] split: prod.splits sum.splits)
  then show ?thesis
    using getbytes_loop_open [of f1 mx all "[]" bs f'] fill_ok [OF assms(1) m(1) f1] r n assms(2,5) by auto
qed

end

section \<open>Packets on the way\<close>

definition frame :: "string \<Rightarrow> bytes" where
  "frame p = bytes_of_string (pack_string [] p)"

definition valid_packet :: "string \<Rightarrow> bool" where
  "valid_packet p \<longleftrightarrow> 5 \<le> length p \<and> length p < 2 ^ 31"

definition packet_id :: "string \<Rightarrow> u32" where
  "packet_id p = (case unpack_uint32 p 1 of (Inl _, _) \<Rightarrow> 0 | (Inr i, _) \<Rightarrow> i)"

lemma packet_id_ok: "5 \<le> length p \<Longrightarrow> unpack_uint32 p 1 = (Inr (packet_id p), 5)"
  by (simp add: packet_id_def unpack_uint32_def unpack_uint8_nth Let_def andThen_def)

section \<open>The abstract mailbox\<close>

text \<open>The replies that wait and the identifiers to ignore; a packet that arrives, and a reply that is fetched.\<close>

type_synonym mailbox = "(u32 \<rightharpoonup> string) \<times> u32 set"

definition mailbox_of :: "('w, 'z) sftp_scheme \<Rightarrow> mailbox" where
  "mailbox_of s = (replies s, ignored s)"

fun deliver :: "string \<Rightarrow> mailbox \<Rightarrow> mailbox" where
  "deliver p (m, g) =
     (if packet_id p \<notin> g then (m(packet_id p \<mapsto> p), g) else (m, g - {packet_id p}))"

fun fetch :: "u32 \<Rightarrow> string list \<Rightarrow> mailbox \<Rightarrow> (string \<times> mailbox \<times> string list) option" where
  "fetch i ps mb =
     (case fst mb i of
        Some r \<Rightarrow> Some (r, ((fst mb)(i := None), snd mb), ps)
      | None \<Rightarrow> (case ps of [] \<Rightarrow> None | p # ps' \<Rightarrow> fetch i ps' (deliver p mb)))"

declare fetch.simps [simp del]

lemma deliver_other: "packet_id p \<noteq> i \<Longrightarrow> fst (deliver p mb) i = fst mb i \<and> (i \<in> snd (deliver p mb) \<longleftrightarrow> i \<in> snd mb)"
  by (cases mb) auto

text \<open>The first packet with the identifier is what is fetched.\<close>

lemma fetch_first:
  assumes "\<forall>a \<in> set xs. packet_id a \<noteq> i" "packet_id p = i" "fst mb i = None" "i \<notin> snd mb"
  shows "\<exists>m g. fold deliver (xs @ [p]) mb = (m, g) \<and> m i = Some p \<and> fetch i (xs @ p # ys) mb = Some (p, (m(i := None), g), ys)"
  using assms
proof (induction xs arbitrary: mb)
  case Nil
  then show ?case
    by (cases mb) (auto simp: fetch.simps [of i "p # ys"] fetch.simps [of i ys] intro!: exI [of _ "(fst mb)(i \<mapsto> p)"])
next
  case (Cons a xs)
  then have "fst (deliver a mb) i = None" "i \<notin> snd (deliver a mb)"
    using deliver_other [of a i mb] by auto
  moreover have "fetch i ((a # xs) @ p # ys) mb = fetch i (xs @ p # ys) (deliver a mb)"
    using Cons.prems(3) by (simp add: fetch.simps [of i "a # xs @ p # ys"])
  ultimately show ?case using Cons by simp
qed

lemma fetch_suffix: "fetch i ps mb = Some (r, mb', ps') \<Longrightarrow> set ps' \<subseteq> set ps"
proof (induction ps arbitrary: mb)
  case (Cons p ps)
  then show ?case by (fastforce simp: fetch.simps [of i "p # ps"] split: option.splits)
qed (auto simp: fetch.simps [of i "[]"] split: option.splits)

text \<open>Fetching one reply after the other, and what each request will get.\<close>

fun fetches :: "u32 list \<Rightarrow> string list \<Rightarrow> mailbox \<Rightarrow> (string list \<times> mailbox \<times> string list) option" where
  "fetches [] ps mb = Some ([], mb, ps)"
| "fetches (i # ids) ps mb =
     (case fetch i ps mb of
        None \<Rightarrow> None
      | Some (r, mb', ps') \<Rightarrow>
          (case fetches ids ps' mb' of None \<Rightarrow> None | Some (rs, mb'', ps'') \<Rightarrow> Some (r # rs, mb'', ps'')))"

definition reply_for :: "string list \<Rightarrow> mailbox \<Rightarrow> u32 \<Rightarrow> string option" where
  "reply_for ps mb i =
     (case fst mb i of Some r \<Rightarrow> Some r | None \<Rightarrow> map_of (map (\<lambda>p. (packet_id p, p)) ps) i)"

lemma reply_for_Nil: "reply_for [] mb = fst mb"
  by (auto simp: reply_for_def fun_eq_iff split: option.split)

text \<open>Each packet on its way answers a request of its own, which has no reply yet and is not ignored.\<close>

definition fresh_packets :: "string list \<Rightarrow> mailbox \<Rightarrow> bool" where
  "fresh_packets ps mb \<longleftrightarrow>
     distinct (map packet_id ps) \<and> (\<forall>p \<in> set ps. fst mb (packet_id p) = None \<and> packet_id p \<notin> snd mb)"

lemma deliver_fresh:
  assumes "fresh_packets (p # ps) mb"
  shows "fresh_packets ps (deliver p mb)" "reply_for ps (deliver p mb) = reply_for (p # ps) mb"
    "snd (deliver p mb) = snd mb"
proof -
  obtain m g where mb: "mb = (m, g)" by (cases mb)
  have d: "deliver p mb = (m(packet_id p \<mapsto> p), g)" "m (packet_id p) = None"
    and new: "packet_id p \<notin> packet_id ` set ps"
    using assms by (auto simp: mb fresh_packets_def)
  show "snd (deliver p mb) = snd mb" unfolding d(1) by (simp add: mb)
  show "fresh_packets ps (deliver p mb)" using assms new unfolding d(1) by (auto simp: fresh_packets_def mb image_iff)
  show "reply_for ps (deliver p mb) = reply_for (p # ps) mb"
    using d(2) unfolding d(1) by (auto simp: reply_for_def mb fun_eq_iff split: option.split)
qed

lemma fetch_reply:
  assumes "fresh_packets ps mb" "reply_for ps mb i = Some r"
  shows "\<exists>mb' ps'. fetch i ps mb = Some (r, mb', ps') \<and> fresh_packets ps' mb' \<and> set ps' \<subseteq> set ps \<and> snd mb' = snd mb \<and>
    reply_for ps' mb' = (reply_for ps mb)(i := None)"
  using assms
proof (induction ps arbitrary: mb)
  case Nil
  then have "fst mb i = Some r" "reply_for [] (( fst mb)(i := None), snd mb) = (reply_for [] mb)(i := None)"
    by (auto simp: reply_for_def fun_eq_iff split: option.splits)
  then show ?case
    by (intro exI [of _ "((fst mb)(i := None), snd mb)"] exI [of _ "[]"])
      (simp add: fetch.simps [of i "[]"] fresh_packets_def)
next
  case (Cons p ps)
  show ?case
  proof (cases "fst mb i")
    case None
    note d = deliver_fresh [OF Cons.prems(1)]
    have "reply_for ps (deliver p mb) i = Some r" using Cons.prems(2) d(2) by simp
    then show ?thesis using Cons.IH [OF d(1)] None d(2,3) by (auto simp: fetch.simps [of i "p # ps"])
  next
    case (Some q)
    have "\<forall>a \<in> set (p # ps). packet_id a \<noteq> i" using Cons.prems(1) Some by (auto simp: fresh_packets_def)
    then have "map_of (map (\<lambda>p. (packet_id p, p)) (p # ps)) i = None" by (auto simp: map_of_eq_None_iff)
    moreover have "q = r" using Cons.prems(2) Some by (simp add: reply_for_def)
    ultimately show ?thesis using Some Cons.prems(1)
      by (auto simp: fetch.simps [of i "p # ps"] fresh_packets_def reply_for_def fun_eq_iff split: option.splits)
  qed
qed

lemma fetches_replies:
  assumes "fresh_packets ps mb" "distinct ids" "\<forall>i \<in> set ids. reply_for ps mb i \<noteq> None"
  shows "\<exists>mb' ps'. fetches ids ps mb = Some (map (\<lambda>i. the (reply_for ps mb i)) ids, mb', ps') \<and>
    fresh_packets ps' mb' \<and> set ps' \<subseteq> set ps \<and> snd mb' = snd mb \<and>
    reply_for ps' mb' = (\<lambda>i. if i \<in> set ids then None else reply_for ps mb i)"
  using assms
proof (induction ids arbitrary: ps mb)
  case (Cons i ids)
  obtain r where r: "reply_for ps mb i = Some r" using Cons.prems(3) by auto
  obtain mb' ps' where f: "fetch i ps mb = Some (r, mb', ps')" "fresh_packets ps' mb'" "set ps' \<subseteq> set ps"
      "snd mb' = snd mb" "reply_for ps' mb' = (reply_for ps mb)(i := None)"
    using fetch_reply [OF Cons.prems(1) r] by blast
  have "\<forall>j \<in> set ids. reply_for ps' mb' j \<noteq> None" using Cons.prems(2,3) f(5) by auto
  then obtain mb'' ps'' where g: "fetches ids ps' mb' = Some (map (\<lambda>i. the (reply_for ps' mb' i)) ids, mb'', ps'')"
      "fresh_packets ps'' mb''" "set ps'' \<subseteq> set ps'" "snd mb'' = snd mb'"
      "reply_for ps'' mb'' = (\<lambda>j. if j \<in> set ids then None else reply_for ps' mb' j)"
    using Cons.IH [OF f(2)] Cons.prems(2) by auto
  have "map (\<lambda>j. the (reply_for ps' mb' j)) ids = map (\<lambda>j. the (reply_for ps mb j)) ids"
    using Cons.prems(2) f(5) by auto
  then show ?case using f g r by (intro exI [of _ mb''] exI [of _ ps'']) (auto simp: fun_eq_iff)
qed simp

text \<open>When every packet has been asked for, the mailbox is as it was.\<close>

lemma fetches_all:
  assumes "fresh_packets ps mb" "distinct ids" "set ids = set (map packet_id ps)"
  shows "fetches ids ps mb = Some (map (\<lambda>i. the (map_of (map (\<lambda>p. (packet_id p, p)) ps) i)) ids, mb, [])"
proof -
  let ?m = "map_of (map (\<lambda>p. (packet_id p, p)) ps)"
  have dom: "?m i \<noteq> None \<longleftrightarrow> i \<in> set ids" for i
    unfolding assms(3) by (force simp: map_of_eq_None_iff)
  have none: "fst mb i = None" if "i \<in> set ids" for i
    using that assms(1) unfolding assms(3) by (auto simp: fresh_packets_def)
  have r: "reply_for ps mb i = (if i \<in> set ids then ?m i else fst mb i)" for i
    using dom [of i] none by (auto simp: reply_for_def split: option.split)
  obtain mb' ps' where f: "fetches ids ps mb = Some (map (\<lambda>i. the (reply_for ps mb i)) ids, mb', ps')"
      "fresh_packets ps' mb'" "set ps' \<subseteq> set ps" "snd mb' = snd mb"
      "reply_for ps' mb' = (\<lambda>i. if i \<in> set ids then None else reply_for ps mb i)"
    using fetches_replies [OF assms(1,2)] dom r by auto
  have out: "reply_for ps' mb' = fst mb" unfolding f(5) using r none by (auto simp: fun_eq_iff)
  have "ps' = []"
  proof (rule ccontr)
    assume "ps' \<noteq> []"
    then have p: "hd ps' \<in> set ps'" by simp
    have "map_of (map (\<lambda>p. (packet_id p, p)) ps') (packet_id (hd ps')) \<noteq> None"
      unfolding map_of_eq_None_iff using p by (simp add: image_image)
    then have "reply_for ps' mb' (packet_id (hd ps')) \<noteq> None"
      by (auto simp: reply_for_def split: option.split)
    moreover have "packet_id (hd ps') \<in> set ids" using p f(3) assms(3) by auto
    ultimately show False using none out by simp
  qed
  moreover have "fst mb' = fst mb" using out \<open>ps' = []\<close> reply_for_Nil by metis
  moreover have "map (\<lambda>i. the (reply_for ps mb i)) ids = map (\<lambda>i. the (?m i)) ids" using r by simp
  ultimately show ?thesis using f(1,4) by (simp add: prod_eq_iff)
qed

lemma answers:
  assumes "distinct (map packet_id ps)" "set ids = set (map packet_id ps)"
    and "rs = map (\<lambda>i. the (map_of (map (\<lambda>p. (packet_id p, p)) ps) i)) ids"
  shows "map packet_id rs = ids \<and> set rs = set ps"
proof -
  let ?m = "map_of (map (\<lambda>p. (packet_id p, p)) ps)"
  have keys: "map fst (map (\<lambda>p. (packet_id p, p)) ps) = map packet_id ps" by simp
  have m: "?m (packet_id p) = Some p" if "p \<in> set ps" for p
    by (rule map_of_is_SomeI) (use assms(1) that in \<open>simp_all add: comp_def\<close>)
  have "packet_id (the (?m i)) = i" if "i \<in> set ids" for i using that m assms(2) by auto
  then have "map packet_id rs = ids" unfolding assms(3) by (simp add: map_idI)
  moreover have "set rs = (\<lambda>p. the (?m (packet_id p))) ` set ps" unfolding assms(3) by (simp add: assms(2) image_image)
  then have "set rs = set ps" using m by force
  ultimately show ?thesis by simp
qed

section \<open>Interface: a link to a server\<close>

text \<open>Awaiting the replies of several requests, one after the other.\<close>

fun awaits :: "'w client \<Rightarrow> u32 list \<Rightarrow> (('w, 'z) sftp_scheme, string list) prog" where
  "awaits c [] s = (Inr [], s)"
| "awaits c (i # ids) s = andThen (await c i) (\<lambda>(_, r). andThen (awaits c ids) (\<lambda>rs. ret (r # rs))) s"

lemma plug_unplug [simp]: "plug (unplug g) (dev g) = g"
  by (simp add: plug_def unplug_def)

lemma plug_fields [simp]:
  "eof (plug f w) = eof f" "dev (plug f w) = w" "eof (unplug g) = eof g"
  by (simp_all add: plug_def unplug_def)

text \<open>The part of the state that neither reading from the link nor sorting the replies touches.\<close>

definition the_rest :: "('w, 'z) sftp_scheme \<Rightarrow>
    unit fileobj option \<times> int option \<times> u32 \<times> (u32 \<times> path) list \<times> (path \<rightharpoonup> bool) \<times> bool \<times> nat \<times> nat \<times> string list" where
  "the_rest s = (out_file s, pid s, next_id s, existence_inflight s, existence s, posix_rename s, errors s, warnings s,
     stderr_lines s)"

lemma the_rest_frame [simp]:
  "the_rest (s\<lparr>in_file := f\<rparr>) = the_rest s" "the_rest (s\<lparr>world := w\<rparr>) = the_rest s"
  "the_rest (s\<lparr>replies := m\<rparr>) = the_rest s" "the_rest (s\<lparr>ignored := g\<rparr>) = the_rest s"
  by (simp_all add: the_rest_def)

lemma mailbox_frame [simp]:
  "mailbox_of (s\<lparr>in_file := f\<rparr>) = mailbox_of s" "mailbox_of (s\<lparr>world := w\<rparr>) = mailbox_of s"
  by (simp_all add: mailbox_of_def)

text \<open>The bytes on their way to the client, and a connection that is open for reading.\<close>

definition incoming :: "('w \<Rightarrow> bytes) \<Rightarrow> ('w, 'z) sftp_scheme \<Rightarrow> bytes" where
  "incoming remaining s =
     (case in_file s of
        None \<Rightarrow> []
      | Some f \<Rightarrow> take (top_pos f - next_pos f) (drop (next_pos f) (buffer f)) @ remaining (world s))"

definition link_ok :: "('w, 'z) sftp_scheme \<Rightarrow> bool" where
  "link_ok s \<longleftrightarrow>
     (case in_file s of
        None \<Rightarrow> False
      | Some f \<Rightarrow> length (buffer f) = BUFFER_SIZE \<and> next_pos f \<le> top_pos f \<and> top_pos f \<le> BUFFER_SIZE \<and>
          mode f \<noteq> Writing \<and> (mode f = ModeNone \<longrightarrow> top_pos f = next_pos f) \<and> \<not> eof f)"

locale sftp_link = reliable_source "pipe_readbytes c" remaining
  for c :: "'w client" and remaining :: "'w \<Rightarrow> bytes"
begin

lemma link_iff: "link_ok s \<longleftrightarrow> (\<exists>f. in_file s = Some f \<and> reader_ok (plug f (world s)) \<and> \<not> eof f)"
  by (cases "in_file s") (auto simp: link_ok_def reader_ok_def plug_def)

lemma incoming_unread: "in_file s = Some f \<Longrightarrow> incoming remaining s = unread (plug f (world s))"
  by (simp add: incoming_def unread_def plug_def)

lemma link_frame [simp]:
  "link_ok (s\<lparr>replies := m\<rparr>) = link_ok s" "link_ok (s\<lparr>ignored := g\<rparr>) = link_ok s"
  "incoming remaining (s\<lparr>replies := m\<rparr>) = incoming remaining s"
  "incoming remaining (s\<lparr>ignored := g\<rparr>) = incoming remaining s"
  by (simp_all add: link_ok_def incoming_def split: option.split)

lemma getbytes_string_ok:
  assumes "link_ok s" "0 < unat n" "unat n < 2 ^ 31" "unat n \<le> length (incoming remaining s)"
  shows "\<exists>s'. getbytes_string c n s = (Inr (string_of_bytes (take (unat n) (incoming remaining s))), s') \<and>
    link_ok s' \<and> incoming remaining s' = drop (unat n) (incoming remaining s) \<and> the_rest s' = the_rest s \<and> mailbox_of s' = mailbox_of s"
proof -
  obtain f where f: "in_file s = Some f" "reader_ok (plug f (world s))" "\<not> eof f"
    using assms(1) by (auto simp: link_iff)
  obtain bs g where g: "getbytes (pipe_readbytes c) (unat n) True (plug f (world s)) = (Inr bs, g)"
    using getbytes_total [OF f(2) assms(2)] by blast
  note gb = getbytes_ok [OF f(2) assms(2) g]
  have inc: "incoming remaining s = unread (plug f (world s))" using f(1) by (simp add: incoming_unread)
  have l: "length bs = min (unat n) (length (incoming remaining s))" unfolding inc using gb by blast
  have "incoming remaining s = bs @ unread g" unfolding inc using gb by blast
  moreover have "length bs = unat n" using assms(4) unfolding l by simp
  ultimately have ok: "reader_ok g" "incoming remaining s = bs @ unread g" "length bs = unat n" using gb by blast+
  have "\<not> eof g" using getbytes_open [OF f(2) assms(2) _ g ok(3)] f(3) by simp
  then have "link_ok (s\<lparr>in_file := Some (unplug g), world := dev g\<rparr>)"
      "incoming remaining (s\<lparr>in_file := Some (unplug g), world := dev g\<rparr>) = unread g"
    using ok(1) by (simp_all add: link_iff incoming_unread)
  moreover have "getbytes_string c n s = (Inr (string_of_bytes bs), s\<lparr>in_file := Some (unplug g), world := dev g\<rparr>)"
    using assms(3) f(1) g by (simp add: getbytes_string_def on_in_def)
  ultimately show ?thesis using ok(2,3) by (metis append_eq_conv_conj mailbox_frame the_rest_frame(1,2))
qed

lemma recv_ok:
  assumes "link_ok s" "incoming remaining s = frame p @ rest" "valid_packet p"
  shows "\<exists>s'. recv c s = (Inr (byte_of_char (hd p), p), s') \<and> link_ok s' \<and> incoming remaining s' = rest \<and>
    the_rest s' = the_rest s \<and> mailbox_of s' = mailbox_of s"
proof -
  have p: "p \<noteq> []" "5 \<le> length p" "length p < 2 ^ 31" using assms(3) by (auto simp: valid_packet_def)
  have n: "unat (word_of_nat (length p) :: u32) = length p"
    using p(3) by (simp add: unat_of_nat)
  have fr: "incoming remaining s = bytes_of_string (pack_uint32 [] (word_of_nat (length p))) @ bytes_of_string p @ rest"
    using assms(2) by (simp add: frame_def pack_string_def)
  have four: "unat (4 :: u32) = 4" by simp
  obtain s1 where s1: "getbytes_string c 4 s = (Inr (pack_uint32 [] (word_of_nat (length p))), s1)"
      "link_ok s1" "incoming remaining s1 = bytes_of_string p @ rest" "the_rest s1 = the_rest s" "mailbox_of s1 = mailbox_of s"
    using getbytes_string_ok [OF assms(1), of 4] by (auto simp: fr four)
  obtain s2 where s2: "getbytes_string c (word_of_nat (length p)) s1 = (Inr p, s2)"
      "link_ok s2" "incoming remaining s2 = rest" "the_rest s2 = the_rest s1" "mailbox_of s2 = mailbox_of s1"
    using getbytes_string_ok [OF s1(2), of "word_of_nat (length p)"] s1(3) p n by auto
  have len: "fst (unpack_uint32 (pack_uint32 [] (word_of_nat (length p))) 0) = Inr (word_of_nat (length p))"
    using uint32.unpack_pack [where x = "word_of_nat (length p)" and s = "[]" and t = "[]"] by simp
  have "recv c s = (Inr (byte_of_char (hd p), p), s2)"
    using s1(1) s2(1) len n p by (simp add: recv_def unpacking_def char_at_def hd_conv_nth)
  then show ?thesis using s1(4,5) s2(2-5) by simp
qed

lemma poll_ok:
  assumes "link_ok s" "incoming remaining s = frame p @ rest" "valid_packet p"
  shows "\<exists>s'. sftp_poll c s = (Inr (), s') \<and> link_ok s' \<and> incoming remaining s' = rest \<and> the_rest s' = the_rest s \<and>
    mailbox_of s' = deliver p (mailbox_of s)"
proof -
  obtain s1 where s1: "recv c s = (Inr (byte_of_char (hd p), p), s1)" "link_ok s1" "incoming remaining s1 = rest"
      "the_rest s1 = the_rest s" "mailbox_of s1 = mailbox_of s"
    using recv_ok [OF assms] by blast
  have mb: "replies s1 = replies s" "ignored s1 = ignored s" using s1(5) by (simp_all add: mailbox_of_def)
  have "unpack_uint32 p 1 = (Inr (packet_id p), 5)" using assms(3) packet_id_ok [of p] by (simp add: valid_packet_def)
  then show ?thesis
    using s1(1-4) mb
    by (cases "packet_id p \<in> ignored s") (simp_all add: sftp_poll_def unpacking_def mailbox_of_def)
qed

lemma await_loop_ok:
  assumes "link_ok s" "incoming remaining s = concat (map frame ps) @ rest" "\<forall>p \<in> set ps. valid_packet p"
    and "fetch i ps (mailbox_of s) = Some (r, mb, ps')"
  shows "\<exists>s'. await_loop c i s = Some (Inr r, s') \<and> link_ok s' \<and> incoming remaining s' = concat (map frame ps') @ rest \<and>
    the_rest s' = the_rest s \<and> replies s' i = Some r \<and> mailbox_of (s'\<lparr>replies := (replies s')(i := None)\<rparr>) = mb"
  using assms
proof (induction ps arbitrary: s)
  case Nil
  then show ?case
    by (auto simp: fetch.simps [of i "[]"] await_loop.simps [of c i s] mailbox_of_def split: option.splits)
next
  case (Cons p ps)
  show ?case
  proof (cases "replies s i")
    case None
    obtain s1 where s1: "sftp_poll c s = (Inr (), s1)" "link_ok s1"
        "incoming remaining s1 = concat (map frame ps) @ rest" "the_rest s1 = the_rest s" "mailbox_of s1 = deliver p (mailbox_of s)"
      using poll_ok [OF Cons.prems(1), of p "concat (map frame ps) @ rest"] Cons.prems(2,3) by auto
    have "fetch i ps (mailbox_of s1) = Some (r, mb, ps')"
      using Cons.prems(4) None s1(5) by (simp add: fetch.simps [of i "p # ps"] mailbox_of_def)
    then obtain s' where s': "await_loop c i s1 = Some (Inr r, s')" "link_ok s'"
        "incoming remaining s' = concat (map frame ps') @ rest" "the_rest s' = the_rest s1" "replies s' i = Some r"
        "mailbox_of (s'\<lparr>replies := (replies s')(i := None)\<rparr>) = mb"
      using Cons.IH [OF s1(2,3)] Cons.prems(3) by (auto simp del: fun_upd_apply)
    then show ?thesis
      using s1(1,4) None by (auto simp: await_loop.simps [of c i s] simp del: fun_upd_apply)
  next
    case (Some q)
    then show ?thesis
      using Cons.prems by (auto simp: fetch.simps [of i "p # ps"] await_loop.simps [of c i s] mailbox_of_def)
  qed
qed

lemma await_ok:
  assumes "link_ok s" "incoming remaining s = concat (map frame ps) @ rest" "\<forall>p \<in> set ps. valid_packet p"
    and "fetch i ps (mailbox_of s) = Some (r, mb, ps')" "r \<noteq> []"
  shows "\<exists>s'. await c i s = (Inr (byte_of_char (hd r), r), s') \<and> link_ok s' \<and>
    incoming remaining s' = concat (map frame ps') @ rest \<and> the_rest s' = the_rest s \<and> mailbox_of s' = mb"
proof -
  obtain s' where s': "await_loop c i s = Some (Inr r, s')" "link_ok s'"
      "incoming remaining s' = concat (map frame ps') @ rest" "the_rest s' = the_rest s"
      "mailbox_of (s'\<lparr>replies := (replies s')(i := None)\<rparr>) = mb"
    using await_loop_ok [OF assms(1-4)] by blast
  then show ?thesis using assms(5) by (auto simp: await_def Let_def hd_conv_nth)
qed

lemma awaits_ok:
  assumes "link_ok s" "incoming remaining s = concat (map frame ps) @ rest" "\<forall>p \<in> set ps. valid_packet p"
    and "fetches ids ps (mailbox_of s) = Some (rs, mb, ps')" "\<forall>r \<in> set rs. r \<noteq> []"
  shows "\<exists>s'. awaits c ids s = (Inr rs, s') \<and> link_ok s' \<and>
    incoming remaining s' = concat (map frame ps') @ rest \<and> the_rest s' = the_rest s \<and> mailbox_of s' = mb"
  using assms
proof (induction ids arbitrary: s ps rs)
  case (Cons i ids)
  obtain r mb1 ps1 rs1 where f: "fetch i ps (mailbox_of s) = Some (r, mb1, ps1)" "fetches ids ps1 mb1 = Some (rs1, mb, ps')"
      "rs = r # rs1"
    using Cons.prems(4) by (auto split: option.splits)
  obtain s1 where s1: "await c i s = (Inr (byte_of_char (hd r), r), s1)" "link_ok s1"
      "incoming remaining s1 = concat (map frame ps1) @ rest" "the_rest s1 = the_rest s" "mailbox_of s1 = mb1"
    using await_ok [OF Cons.prems(1-3) f(1)] Cons.prems(5) f(3) by auto
  have "\<forall>p \<in> set ps1. valid_packet p" using fetch_suffix [OF f(1)] Cons.prems(3) by auto
  then obtain s' where "awaits c ids s1 = (Inr rs1, s')" "link_ok s'"
      "incoming remaining s' = concat (map frame ps') @ rest" "the_rest s' = the_rest s1" "mailbox_of s' = mb"
    using Cons.IH [OF s1(2,3)] f(2,3) s1(5) Cons.prems(5) by auto
  then show ?case using s1 f(3) by simp
qed auto

end

section \<open>Identifiers\<close>

fun newids :: "nat \<Rightarrow> (('w, 'z) sftp_scheme, u32 list) prog" where
  "newids 0 s = (Inr [], s)"
| "newids (Suc n) s = andThen newid (\<lambda>i. andThen (newids n) (\<lambda>xs. ret (i # xs))) s"

text \<open>The identifiers from 1 to 2^32 - 1, round and round.\<close>

definition id_from :: "u32 \<Rightarrow> nat \<Rightarrow> nat" where
  "id_from a k = (unat a - 1 + k) mod (2 ^ 32 - 1) + 1"

definition first_id :: "u32 \<Rightarrow> u32" where
  "first_id a = (if a = 0 then 1 else a)"

lemma newid_eq: "newid s = (Inr (first_id (next_id s)), s\<lparr>next_id := first_id (next_id s) + 1\<rparr>)"
  by (simp add: newid_def first_id_def Let_def)

lemma first_id_nonzero: "first_id a \<noteq> 0" "1 \<le> unat (first_id a)"
proof -
  show "first_id a \<noteq> 0" by (simp add: first_id_def)
  then show "1 \<le> unat (first_id a)" by (simp add: unat_gt_0 Suc_le_eq)
qed

lemma id_from_step: "id_from (first_id (first_id a + 1)) k = id_from (first_id a) (Suc k)"
proof -
  let ?b = "first_id a"
  have b: "1 \<le> unat ?b" "unat ?b < 2 ^ 32" using first_id_nonzero(2) [of a] unsigned_less [of ?b] by simp_all
  show ?thesis
  proof (cases "?b + 1 = 0")
    case True
    then have "?b = - 1" by (simp add: eq_neg_iff_add_eq_0)
    then have "unat ?b = 2 ^ 32 - 1" by (simp add: unsigned_minus_1_eq_mask mask_eq_exp_minus_1)
    then show ?thesis using True by (simp add: id_from_def first_id_def [of 0])
  next
    case False
    then have "unat (?b + 1) = unat ?b + 1"
      using unatSuc [of ?b] by (simp add: add.commute)
    then show ?thesis using False b(1) by (simp add: id_from_def first_id_def [of "?b + 1"])
  qed
qed

lemma newids_eq:
  "\<exists>xs s'. newids n s = (Inr xs, s') \<and> map unat xs = map (id_from (first_id (next_id s))) [0..<n]"
proof (induction n arbitrary: s)
  case (Suc n)
  let ?s1 = "s\<lparr>next_id := first_id (next_id s) + 1\<rparr>"
  obtain xs s' where rest: "newids n ?s1 = (Inr xs, s')"
      "map unat xs = map (id_from (first_id (next_id ?s1))) [0..<n]"
    using Suc.IH [of ?s1] by blast
  have "unat (first_id (next_id s)) < 2 ^ 32" using unsigned_less [of "first_id (next_id s)"] by simp
  then have "id_from (first_id (next_id s)) 0 = unat (first_id (next_id s))"
    using first_id_nonzero(2) [of "next_id s"] by (simp add: id_from_def)
  moreover have "map (id_from (first_id (next_id ?s1))) [0..<n] = map (id_from (first_id (next_id s))) [Suc 0..<Suc n]"
    by (simp add: id_from_step map_Suc_upt [symmetric] comp_def del: upt_Suc)
  ultimately show ?case
    using rest by (simp add: newid_eq upt_conv_Cons del: upt_Suc)
qed simp

lemma newids_length: "newids n s = (Inr xs, s') \<Longrightarrow> length xs = n"
  using newids_eq [of n s] by (auto dest: arg_cong [where f = length])

lemma newids_distinct:
  assumes "newids n s = (Inr xs, s')"
  shows "0 \<notin> set xs \<and> (n < 2 ^ 32 \<longrightarrow> distinct xs)"
proof -
  have m: "map unat xs = map (id_from (first_id (next_id s))) [0..<n]" using newids_eq [of n s] assms by auto
  have "0 \<notin> set (map unat xs)" unfolding m by (auto simp: id_from_def)
  then have "0 \<notin> set xs" by force
  moreover have "distinct (map unat xs)" if "n < 2 ^ 32"
  proof -
    have "inj_on (id_from a) {0..<n}" for a
    proof (rule linorder_inj_onI)
      fix x y assume xy: "x < y" "x \<in> {0..<n}" "y \<in> {0..<n}"
      show "id_from a x \<noteq> id_from a y"
      proof
        assume "id_from a x = id_from a y"
        then have "(2 ^ 32 - 1) dvd y - x"
          using xy(1) mod_eq_dvd_iff_nat [of "unat a - 1 + x" "unat a - 1 + y" "2 ^ 32 - 1"] by (simp add: id_from_def)
        then have "2 ^ 32 - 1 \<le> y - x" using xy(1) by (intro dvd_imp_le) auto
        then show False using xy that by simp
      qed
    qed (use linear in blast)
    then show ?thesis unfolding m by (simp add: distinct_map)
  qed
  ultimately show ?thesis by (simp add: distinct_map)
qed

end
