(* ===== verification/Sftp_Invariant.thy ===== *)
theory Sftp_Invariant
  imports Sftp_Spec Hoare
begin

text \<open>
  The invariant of the SFTP client's mailbox, and a proof that no operation breaks it, however it
  ends: a stored reply is long enough to have an identifier, is stored under its own, and is not to be
  ignored. The rules of the collection \<open>keeping\<close> follow the structure of the programs.
\<close>

section \<open>The invariant\<close>

definition mailbox_ok :: "('w, 'z) sftp_scheme \<Rightarrow> bool" where
  "mailbox_ok s \<longleftrightarrow> (\<forall>i r. replies s i = Some r \<longrightarrow> 5 \<le> length r \<and> packet_id r = i \<and> i \<notin> ignored s)"

text \<open>It only depends on the mailbox.\<close>

lemma mailbox_ok_cong: "mailbox_of s' = mailbox_of s \<Longrightarrow> mailbox_ok s' = mailbox_ok s"
  by (simp add: mailbox_ok_def mailbox_of_def)

lemma keeps_same: "(\<And>s. mailbox_of (snd (m s)) = mailbox_of s) \<Longrightarrow> keeps mailbox_ok m"
  unfolding keeps_def using mailbox_ok_cong by metis

lemma mailbox_frames [simp]:
  "mailbox_of (s\<lparr>stderr_lines := x\<rparr>) = mailbox_of s" "mailbox_of (s\<lparr>next_id := n\<rparr>) = mailbox_of s"
  "mailbox_of (s\<lparr>out_file := f\<rparr>) = mailbox_of s" "mailbox_of (s\<lparr>pid := p\<rparr>) = mailbox_of s"
  "mailbox_of (s\<lparr>existence := m\<rparr>) = mailbox_of s" "mailbox_of (s\<lparr>existence_inflight := l\<rparr>) = mailbox_of s"
  "mailbox_of (s\<lparr>posix_rename := b\<rparr>) = mailbox_of s" "mailbox_of (s\<lparr>errors := k\<rparr>) = mailbox_of s"
  "mailbox_of (error msg s) = mailbox_of s" "mailbox_of (note_if v t s) = mailbox_of s"
  by (simp_all add: mailbox_of_def error_def note_if_def to_stderr_def)

lemma mailbox_ok_frames [simp]:
  "mailbox_ok (s\<lparr>in_file := f\<rparr>) = mailbox_ok s" "mailbox_ok (s\<lparr>world := w\<rparr>) = mailbox_ok s"
  "mailbox_ok (s\<lparr>existence := m\<rparr>) = mailbox_ok s" "mailbox_ok (s\<lparr>existence_inflight := l\<rparr>) = mailbox_ok s"
  "mailbox_ok (s\<lparr>posix_rename := b\<rparr>) = mailbox_ok s"
  by (simp_all add: mailbox_ok_def)

lemma keeps_fatal [keeping]: "keeps mailbox_ok (fatal msg)"
  by (rule keeps_same) (simp add: fatal_def)

lemma keeps_on_in [keeping]: "keeps mailbox_ok (on_in m)"
  by (rule keeps_same) (simp add: on_in_def split: option.split prod.split)

lemma keeps_on_out [keeping]: "keeps mailbox_ok (on_out m)"
  by (rule keeps_same) (simp add: on_out_def split: option.split prod.split)

lemma keeps_in_world [keeping]: "keeps mailbox_ok (in_world m)"
  by (rule keeps_same) (simp add: in_world_def split: prod.split)

lemma keeps_unpacking [keeping]: "keeps mailbox_ok (unpacking u i)" "keeps mailbox_ok (unpacking_on u i)"
  by (rule keeps_same, simp add: unpacking_def unpacking_on_def split: prod.split sum.split)+

lemma keeps_readable [keeping]: "keeps mailbox_ok (LocalFile_readable c)"
  by (rule keeps_same)
    (simp add: LocalFile_readable_def fatal_def split: option.split prod.split sum.split)

lemma keeps_newid [keeping]: "keeps mailbox_ok newid"
  by (rule keeps_same) (simp add: newid_eq)

section \<open>Replies\<close>

lemma keeps_recv [keeping]: "keeps mailbox_ok (recv c)"
  unfolding recv_def getbytes_string_def by (intro keeping)

definition store_reply :: "string \<Rightarrow> (('w, 'z) sftp_scheme, unit) prog" where
  "store_reply reply =
     andThen (unpacking (unpack_uint32 reply) 1)
       (\<lambda>i s. (Inr (), if i \<notin> ignored s then s\<lparr>replies := (replies s)(i \<mapsto> reply)\<rparr>
          else s\<lparr>ignored := ignored s - {i}\<rparr>))"

lemma keeps_store_reply [keeping]: "keeps mailbox_ok (store_reply reply)"
  unfolding keeps_def
proof (intro allI impI)
  fix s :: "('w, 'z) sftp_scheme"
  assume ok: "mailbox_ok s"
  obtain r j where r: "unpack_uint32 reply 1 = (r, j)" by fastforce
  show "mailbox_ok (snd (store_reply reply s))"
  proof (cases r)
    case (Inr i)
    then have "5 \<le> length reply" "packet_id reply = i"
      using r unpack_uint32_moves [of reply 1 i j] by (auto simp: packet_id_def)
    then show ?thesis using r Inr ok by (simp add: store_reply_def unpacking_def andThen_def mailbox_ok_def)
  qed (use r ok in \<open>simp add: store_reply_def unpacking_def andThen_def\<close>)
qed

lemma sftp_poll_store: "sftp_poll c = andThen (recv c) (\<lambda>(_, reply). store_reply reply)"
  by (simp add: sftp_poll_def store_reply_def)

lemma keeps_poll [keeping]: "keeps mailbox_ok (sftp_poll c)"
  unfolding sftp_poll_store by (intro keeping)

lemma keeps_ignore [keeping]: "keeps mailbox_ok (sftp_ignore i)"
  by (simp add: keeps_def sftp_ignore_def mailbox_ok_def)

text \<open>The loops, by the induction rules of their definitions.\<close>

lemma keeps_await_loop [keeping]: "keeps_loop mailbox_ok (await_loop c i)"
proof -
  have "mailbox_ok s \<longrightarrow> mailbox_ok (snd y)" if run: "await_loop c i s = Some y" for s y
  proof (rule await_loop.raw_induct [OF _ run, where P = "\<lambda>_ _ s y. mailbox_ok s \<longrightarrow> mailbox_ok (snd y)"], rule impI)
    fix f c i s y
    assume ih: "\<And>c i s y. f c i s = Some y \<Longrightarrow> mailbox_ok s \<longrightarrow> mailbox_ok (snd y)"
      and body: "(case replies s i of
          None \<Rightarrow> (case sftp_poll c s of (Inl e, s') \<Rightarrow> Some (Inl e, s') | (Inr _, s') \<Rightarrow> f c i s')
        | Some reply \<Rightarrow> Some (Inr reply, s)) = Some y"
      and ok: "mailbox_ok s"
    obtain q s1 where q: "sftp_poll c s = (q, s1)" by fastforce
    then have "mailbox_ok s1" by (rule keepsD [OF keeps_poll ok])
    then show "mailbox_ok (snd y)" using body ok ih q by (cases "replies s i"; cases q) auto
  qed
  then show ?thesis unfolding keeps_loop_def by fastforce
qed

lemma keeps_taken [keeping]: "keeps mailbox_ok (\<lambda>s. let s = s\<lparr>replies := (replies s)(i := None)\<rparr> in (r, s))"
  by (simp add: keeps_def mailbox_ok_def)

lemma keeps_await [keeping]: "keeps mailbox_ok (await c i)"
proof -
  have "keeps mailbox_ok (\<lambda>s :: ('w, 'z) sftp_scheme.
      let s = s\<lparr>replies := (replies s)(i := None)\<rparr>
      in if reply = [] then (Inl OutOfRange, s) else (Inr (byte_of_char (reply ! 0), reply), s))" for reply
    using keeps_taken by (cases "reply = []") simp_all
  then show ?thesis unfolding await_def by (intro keeping)
qed

lemma keeps_send_loop [keeping]: "keeps_loop mailbox_ok (send_loop c)"
proof -
  have "mailbox_ok s \<longrightarrow> mailbox_ok (snd y)" if run: "send_loop c s = Some y" for s y
  proof (rule send_loop.raw_induct [OF _ run, where P = "\<lambda>_ s y. mailbox_ok s \<longrightarrow> mailbox_ok (snd y)"], rule impI)
    fix f c s y
    assume ih: "\<And>c s y. f c s = Some y \<Longrightarrow> mailbox_ok s \<longrightarrow> mailbox_ok (snd y)"
      and body: "(case LocalFile_readable c s of
          (Inl e, s') \<Rightarrow> Some (Inl e, s')
        | (Inr b, s') \<Rightarrow>
            if b then (case sftp_poll c s' of (Inl e, s'') \<Rightarrow> Some (Inl e, s'') | (Inr _, s'') \<Rightarrow> f c s'')
            else Some (Inr (), s')) = Some y"
      and ok: "mailbox_ok s"
    obtain q s1 where q: "LocalFile_readable c s = (q, s1)" by fastforce
    then have ok1: "mailbox_ok s1" by (rule keepsD [OF keeps_readable ok])
    obtain q2 s2 where q2: "sftp_poll c s1 = (q2, s2)" by fastforce
    then have "mailbox_ok s2" by (rule keepsD [OF keeps_poll ok1])
    then show "mailbox_ok (snd y)" using body ok1 ih by (cases q; cases q2) (auto simp: q q2 split: if_splits)
  qed
  then show ?thesis unfolding keeps_loop_def by fastforce
qed

lemma keeps_send [keeping]: "keeps mailbox_ok (send c cmd)"
  unfolding send_def put_out_def by (intro keeping)

lemma keeps_flush_out [keeping]: "keeps mailbox_ok (flush_out c)"
  unfolding flush_out_def by (intro keeping)

lemma keeps_send_now [keeping]: "keeps mailbox_ok (send_now c cmd)"
  unfolding send_now_def by (intro keeping)

lemma keeps_connect [keeping]: "keeps mailbox_ok (connect c)"
  by (rule keeps_same) (simp add: connect_def fatal_def Let_def split: prod.split sum.split)

lemma keeps_init [keeping]: "keeps mailbox_ok (init c)"
proof -
  have *: "init c = (\<lambda>s. (if in_file s \<noteq> None then ret () else
        andThen (connect c)
          (\<lambda>_. andThen (send c (pack_uint32 (pack_uint8 [] SSH_FXP_INIT) 3))
          (\<lambda>_. andThen (flush_out c)
          (\<lambda>_. andThen (recv c)
          (\<lambda>(r, reply).
             if r \<noteq> SSH_FXP_VERSION then fatal (''expected SSH_FXP_VERSION, got '' @ hex_alt (unat r))
             else
               andThen (unpacking (unpack_uint32 reply) 1)
                 (\<lambda>version. if version < 3
                    then fatal (''expected SFTP version at least 3, got '' @ decimal (unat version))
                    else ret ())))))) s)"
    by (simp add: init_def fun_eq_iff)
  show ?thesis unfolding * by (rule keeps_at) (intro keeping)
qed

lemma keeps_check [keeping]: "keeps mailbox_ok (check_reply doing path reply b)" "keeps mailbox_ok (check_id c doing path i b)"
  unfolding check_id_def check_reply_def by (intro keeping)+

section \<open>The operations of the file system\<close>

lemma keeps_rename_try [keeping]: "keeps mailbox_ok (rename_try c old new)"
proof -
  have "keeps mailbox_ok (\<lambda>s. let cmd =
      (if posix_rename s then
         pack_string (pack_string (pack_string (command SSH_FXP_EXTENDED i) ''posix-rename@openssh.org'') old) new
       else pack_string (pack_string (command SSH_FXP_RENAME i) old) new)
      in andThen (send_now c cmd) (\<lambda>_. check_id c ''renaming'' old i False) s)" for i
    unfolding Let_def by (rule keeps_at) (intro keeping)
  then show ?thesis unfolding rename_try_def by (intro keeping)
qed

lemma keeps_rename [keeping]:
  "keeps mailbox_ok (SftpFilesystem_rename c old new :: (('w, 'z) sftp_scheme, unit) prog)"
proof -
  have again: "keeps mailbox_ok (\<lambda>s :: ('w, 'z) sftp_scheme. rename_try c old new (s\<lparr>posix_rename := False\<rparr>))"
    by (rule keeps_update [OF _ keeps_rename_try]) simp
  have "keeps mailbox_ok (\<lambda>s :: ('w, 'z) sftp_scheme. if posix_rename s \<and> st = SSH_FX_OP_UNSUPPORTED
      then rename_try c old new (s\<lparr>posix_rename := False\<rparr>) else (Inl e, s))" for st e
    using again by (simp add: keeps_def)
  then show ?thesis
    unfolding SftpFilesystem_rename_def by (intro keeps_catching keeps_rename_try) (auto split: exn.splits)
qed

lemma keeps_unlink [keeping]: "keeps mailbox_ok (SftpFilesystem_unlink c path)"
  unfolding SftpFilesystem_unlink_def by (intro keeping)

lemma keeps_rmdir [keeping]: "keeps mailbox_ok (SftpFilesystem_rmdir c path)"
  unfolding SftpFilesystem_rmdir_def by (intro keeping)

lemma keeps_remove [keeping]: "keeps mailbox_ok (SftpFilesystem_remove c path)"
  unfolding SftpFilesystem_remove_def
  by (intro keeps_catching keeping) (auto split: exn.splits intro: keeping)

lemma keeps_mkdir [keeping]: "keeps mailbox_ok (SftpFilesystem_mkdir c path m)"
  unfolding SftpFilesystem_mkdir_def by (intro keeping)

lemma keeps_prefigure [keeping]: "keeps mailbox_ok (SftpFilesystem_prefigure_exists c path)"
proof -
  have "keeps mailbox_ok (\<lambda>s. (Inr (), s\<lparr>existence_inflight := existence_inflight s @ [(i, path)]\<rparr>))" for i
    by (simp add: keeps_def)
  then show ?thesis unfolding SftpFilesystem_prefigure_exists_def by (intro keeping)
qed

lemma keeps_read_inflight [keeping]: "keeps (mailbox_ok :: ('w, 'z) sftp_scheme \<Rightarrow> bool) (read_inflight c es)"
proof (induction es)
  case Nil
  then show ?case by (simp add: keeps_def)
next
  case (Cons e es)
  have *: "read_inflight c (e # es) = andThen (await c (fst e))
       (\<lambda>(r, _) s. read_inflight c es
          (s\<lparr>existence := (existence s)(snd e \<mapsto> (r = SSH_FXP_ATTRS)), existence_inflight := es\<rparr>))"
    by (cases e) (simp add: fun_eq_iff)
  have "keeps mailbox_ok (\<lambda>s :: ('w, 'z) sftp_scheme. read_inflight c es
          (s\<lparr>existence := (existence s)(snd e \<mapsto> b), existence_inflight := es\<rparr>))" for b
    by (rule keeps_update [OF _ Cons.IH]) simp
  then show ?case unfolding * by (intro keeping)
qed

lemma keeps_exists_loop [keeping]: "keeps_loop mailbox_ok (exists_loop c path)"
proof -
  have "mailbox_ok s \<longrightarrow> mailbox_ok (snd y)" if run: "exists_loop c path s = Some y" for s y
  proof (rule exists_loop.raw_induct [OF _ run, where P = "\<lambda>_ _ s y. mailbox_ok s \<longrightarrow> mailbox_ok (snd y)"], rule impI)
    fix f c path s y
    assume ih: "\<And>c path s y. f c path s = Some y \<Longrightarrow> mailbox_ok s \<longrightarrow> mailbox_ok (snd y)"
      and body: "(case andThen (init c) (\<lambda>_ s. read_inflight c (existence_inflight s) s) s of
          (Inl e, s') \<Rightarrow> Some (Inl e, s')
        | (Inr _, s') \<Rightarrow>
            (case existence s' path of
               Some found \<Rightarrow> Some (Inr found, s'\<lparr>existence := (existence s')(path := None)\<rparr>)
             | None \<Rightarrow>
                 (case SftpFilesystem_prefigure_exists c path s' of
                    (Inl e, s'') \<Rightarrow> Some (Inl e, s'')
                  | (Inr _, s'') \<Rightarrow> f c path s''))) = Some y"
      and ok: "mailbox_ok s"
    have k: "keeps mailbox_ok (andThen (init c) (\<lambda>_ s. read_inflight c (existence_inflight s) s))"
      by (rule keeps_andThen [OF keeps_init]) (rule keeps_at, rule keeps_read_inflight)
    obtain q s1 where q: "andThen (init c) (\<lambda>_ s. read_inflight c (existence_inflight s) s) s = (q, s1)" by fastforce
    then have ok1: "mailbox_ok s1" by (rule keepsD [OF k ok])
    obtain q2 s2 where q2: "SftpFilesystem_prefigure_exists c path s1 = (q2, s2)" by fastforce
    then have "mailbox_ok s2" by (rule keepsD [OF keeps_prefigure ok1])
    then show "mailbox_ok (snd y)"
      using body ok1 ih by (cases q; cases q2) (auto simp: q q2 split: option.splits)
  qed
  then show ?thesis unfolding keeps_loop_def by fastforce
qed

lemma keeps_exists [keeping]: "keeps mailbox_ok (SftpFilesystem_exists c path)"
proof -
  have *: "SftpFilesystem_exists c path = (\<lambda>s. terminating s (exists_loop c path s))"
    by (simp add: SftpFilesystem_exists_def fun_eq_iff)
  show ?thesis unfolding * by (rule keeps_terminating [OF keeps_exists_loop])
qed

lemma keeps_closehandle [keeping]: "keeps mailbox_ok (closehandle c h)"
  unfolding closehandle_def by (intro keeping)

lemma keeps_ignore_close [keeping]: "keeps mailbox_ok (ignore_close c h)"
  unfolding ignore_close_def by (intro keeping)

lemma keeps_readdir_loop [keeping]: "keeps_loop mailbox_ok (readdir_loop c path i cmd names)"
proof -
  have "mailbox_ok s \<longrightarrow> mailbox_ok (snd y)" if run: "readdir_loop c path i cmd names s = Some y" for s y
  proof (rule readdir_loop.raw_induct [OF _ run,
        where P = "\<lambda>_ _ _ _ _ s y. mailbox_ok s \<longrightarrow> mailbox_ok (snd y)"], rule impI)
    fix f c path i cmd names s y
    assume ih: "\<And>c path i cmd names s y. f c path i cmd names s = Some y \<Longrightarrow> mailbox_ok s \<longrightarrow> mailbox_ok (snd y)"
      and body: "(case andThen (send_now c cmd) (\<lambda>_. await c i) s of
          (Inl e, s') \<Rightarrow> Some (Inl e, s')
        | (Inr (r, reply), s') \<Rightarrow>
            if r = SSH_FXP_NAME then
              (case unpacking (andThen (unpack_uint32 reply) (\<lambda>count. read_names c reply (unat count) names)) 5 s' of
                 (Inl e, s'') \<Rightarrow> Some (Inl e, s'')
               | (Inr names', s'') \<Rightarrow> f c path i cmd names' s'')
            else
              Some (andThen (check_reply ''reading directory'' path reply True) (\<lambda>_. ret names) s')) = Some y"
      and ok: "mailbox_ok s"
    have k: "keeps mailbox_ok (andThen (send_now c cmd) (\<lambda>_. await c i))" by (intro keeping)
    obtain q s1 where q: "andThen (send_now c cmd) (\<lambda>_. await c i) s = (q, s1)" by fastforce
    then have ok1: "mailbox_ok s1" by (rule keepsD [OF k ok])
    show "mailbox_ok (snd y)"
    proof (cases q)
      case (Inr x)
      obtain r reply where x: "x = (r, reply)" by (cases x)
      have k2: "keeps mailbox_ok (andThen (check_reply ''reading directory'' path reply True) (\<lambda>_. ret names))"
        by (intro keeping)
      obtain q2 s2 where q2: "andThen (check_reply ''reading directory'' path reply True) (\<lambda>_. ret names) s1 = (q2, s2)"
        by fastforce
      then have "mailbox_ok s2" by (rule keepsD [OF k2 ok1])
      then show ?thesis
        using body ok1 ih by (auto simp: q q2 Inr x unpacking_def split: if_splits sum.splits)
    qed (use body ok1 q in auto)
  qed
  then show ?thesis unfolding keeps_loop_def by fastforce
qed

lemma keeps_contents [keeping]: "keeps mailbox_ok (SftpFilesystem_contents c path)"
  unfolding SftpFilesystem_contents_def by (intro keeping) (auto split: if_splits intro!: keeping)

lemma keeps_type [keeping]: "keeps mailbox_ok (SftpFilesystem_type c path)"
  unfolding SftpFilesystem_type_def check_missing_def close_if_handle_def by (intro keeping)

lemma keeps_open [keeping]: "keeps mailbox_ok (SftpFilesystem_open c path m)"
  unfolding SftpFilesystem_open_def by (intro keeping)

section \<open>The operations of a file\<close>

lemma keeps_on_fs: "keeps P m \<Longrightarrow> keeps (P \<circ> snd) (on_fs m)"
  by (auto simp: keeps_def on_fs_def split: prod.split)

lemma keeps_on_file [keeping]: "keeps (P \<circ> snd) (on_file u)"
  by (auto simp: keeps_def on_file_def split: prod.split)

lemma keeps_send_read [keeping]: "keeps (mailbox_ok \<circ> snd) (send_read c space)"
  unfolding send_read_def Let_def
  by (rule keeps_andThen [OF keeps_on_fs [OF keeps_newid]], rule keeps_at) (intro keeping keeps_on_fs)

lemma keeps_fill_queue [keeping]: "keeps (mailbox_ok \<circ> snd) (fill_queue c space n)"
proof (induction n)
  case (Suc n)
  have "fill_queue c space (Suc n) = andThen (send_read c space) (\<lambda>_. fill_queue c space n)"
    by (simp add: fun_eq_iff)
  then show ?case using keeps_andThen [OF keeps_send_read Suc.IH] by simp
qed (simp add: keeps_def)

lemma keeps_ignore_all [keeping]: "keeps (mailbox_ok \<circ> snd) (ignore_all xs)"
proof (induction xs)
  case (Cons i xs)
  have "ignore_all (i # xs) = andThen (on_fs (sftp_ignore i))
       (\<lambda>_. andThen (on_file (\<lambda>f. f\<lparr>readqueue := xs\<rparr>)) (\<lambda>_. ignore_all xs))"
    by (simp add: fun_eq_iff)
  then show ?case
    using keeps_andThen [OF keeps_on_fs [OF keeps_ignore] keeps_andThen [OF keeps_on_file Cons.IH]] by simp
qed (simp add: keeps_def)

lemma keeps_take_reply [keeping]:
  "keeps (mailbox_ok \<circ> snd) (take_reply c i :: (sftpfile \<times> ('w, 'z) sftp_scheme, unit) prog)"
proof -
  let ?data = "\<lambda>reply :: string. andThen (on_fs (unpacking (unpack_string reply) 5))
      (\<lambda>data. on_file (\<lambda>f. f\<lparr>readbuffer := data\<rparr>)) :: (sftpfile \<times> ('w, 'z) sftp_scheme, unit) prog"
  let ?finish = "\<lambda>reply path queue. andThen (on_fs (check_reply ''reading'' path reply True))
      (\<lambda>_. andThen (ignore_all queue) (\<lambda>_. on_file (\<lambda>f. f\<lparr>sf_eof := True\<rparr>)))
      :: (sftpfile \<times> ('w, 'z) sftp_scheme, unit) prog"
  have data: "keeps (mailbox_ok \<circ> snd) (?data reply)" for reply by (intro keeping keeps_on_fs)
  have final: "keeps (mailbox_ok \<circ> snd) (?finish reply path queue)" for reply path queue
    by (intro keeping keeps_on_fs)
  have "keeps (mailbox_ok \<circ> snd) (\<lambda>x :: sftpfile \<times> ('w, 'z) sftp_scheme. if r = SSH_FXP_DATA then ?data reply x
      else ?finish reply (sf_path (fst x)) (readqueue (fst x)) x)" for r reply
    using data final by (simp add: keeps_def)
  then show ?thesis unfolding take_reply_def by (intro keeping keeps_on_fs)
qed

lemma keeps_take_step: "keeps (mailbox_ok \<circ> snd) (\<lambda>x. case readqueue (fst x) of
      i # ids \<Rightarrow> if readbuffer (fst x) = [] then andThen (on_file (\<lambda>f. f\<lparr>readqueue := ids\<rparr>)) (\<lambda>_. take_reply c i) x
        else (Inr (), x)
    | [] \<Rightarrow> (Inr (), x))"
  by (intro keeps_list_case keeps_branch keeping) (simp_all add: keeps_def)

lemma keeps_readbytes [keeping]: "keeps (mailbox_ok \<circ> snd) (SftpFile_readbytes c space)"
  unfolding SftpFile_readbytes_def
proof (rule keeps_andThen)
  show "keeps (mailbox_ok \<circ> snd) (\<lambda>x. if \<not> sf_eof (fst x) \<and> length (readqueue (fst x)) < readqueuesize
      then fill_queue c space (readqueuesize - length (readqueue (fst x))) x else (Inr (), x))"
    by (simp add: keeps_def keeps_fill_queue [unfolded keeps_def, simplified])
qed (rule keeps_andThen [OF keeps_take_step], simp add: keeps_def Let_def)

lemma keeps_synchronize_one [keeping]: "keeps (mailbox_ok \<circ> snd) (synchronize_one c i)"
  unfolding keeps_def
proof (intro allI impI)
  fix x :: "sftpfile \<times> ('a, 'b) sftp_scheme"
  assume ok: "(mailbox_ok \<circ> snd) x"
  have k: "keeps (mailbox_ok \<circ> snd) (andThen (on_fs (await c j)) (\<lambda>(_, reply) (x :: sftpfile \<times> ('a, 'b) sftp_scheme).
      if k \<notin> set (writequeue (fst x)) then (Inl (AssertFailed ''it != writequeue.end()''), x)
      else andThen (on_file (\<lambda>f. f\<lparr>writequeue := remove1 k (writequeue f)\<rparr>))
             (\<lambda>_ x. on_fs (check_reply ''writing to'' (sf_path (fst x)) reply False) x) x))" for j k
  proof (rule keeps_andThen [OF keeps_on_fs [OF keeps_await]], rule keeps_prod)
    fix r reply
    show "keeps (mailbox_ok \<circ> snd) (\<lambda>x :: sftpfile \<times> ('a, 'b) sftp_scheme.
        if k \<notin> set (writequeue (fst x)) then (Inl (AssertFailed ''it != writequeue.end()''), x)
        else andThen (on_file (\<lambda>f. f\<lparr>writequeue := remove1 k (writequeue f)\<rparr>))
             (\<lambda>_ x. on_fs (check_reply ''writing to'' (sf_path (fst x)) reply False) x) x)"
      by (intro keeps_branch keeps_andThen [OF keeps_on_file])
        (simp add: keeps_def, rule keeps_at, intro keeping keeps_on_fs)
  qed
  show "(mailbox_ok \<circ> snd) (snd (synchronize_one c i x))"
    using k ok unfolding synchronize_one_def Let_def keeps_def by blast
qed

lemma keeps_reap_loop [keeping]: "keeps_loop (mailbox_ok \<circ> snd) (reap_loop c)"
proof -
  have "mailbox_ok (snd x) \<longrightarrow> mailbox_ok (snd (snd y))" if run: "reap_loop c x = Some y" for x y
  proof (rule reap_loop.raw_induct [where xa = "(c, x)" and y = y
        and P = "\<lambda>_ x y. mailbox_ok (snd x) \<longrightarrow> mailbox_ok (snd (snd y))", simplified], rule impI)
    fix f c x y
    assume ih: "\<And>c x y. f c x = Some y \<Longrightarrow> mailbox_ok (snd x) \<longrightarrow> mailbox_ok (snd (snd y))"
      and body: "(let ready_id = find_ready_write x
      in if ready_id = 0 then Some (Inr (), x)
         else (case synchronize_one c ready_id x of
                 (Inl e, x') \<Rightarrow> Some (Inl e, x')
               | (Inr _, x') \<Rightarrow> f c x')) = Some y"
      and ok: "mailbox_ok (snd x)"
    obtain q x1 where q: "synchronize_one c (find_ready_write x) x = (q, x1)" by (rule prod.exhaust)
    then have ok1: "mailbox_ok (snd x1)" using keepsD [OF keeps_synchronize_one _ q] ok by simp
    show "mailbox_ok (snd (snd y))"
    proof (cases q)
      case (Inl e)
      then show ?thesis using body ok ok1 by (auto simp: q Let_def split: if_splits)
    next
      case (Inr u)
      then have "y = (Inr (), x) \<or> f c x1 = Some y" using body by (auto simp: q Let_def split: if_splits)
      then show ?thesis using ok ok1 ih [of c x1 y] by auto
    qed
  qed (rule run)
  then show ?thesis unfolding keeps_loop_def by fastforce
qed

lemma keeps_writebytes [keeping]: "keeps (mailbox_ok \<circ> snd) (SftpFile_writebytes c buf)"
  unfolding SftpFile_writebytes_def Let_def
  by (rule keeps_if [OF keeps_ret keeps_andThen [OF keeps_on_fs [OF keeps_newid]]], rule keeps_at)
    (intro keeping keeps_on_fs)

lemma keeps_synchronize_loop [keeping]: "keeps (mailbox_ok \<circ> snd) (synchronize_loop c n)"
proof (induction n)
  case (Suc n)
  have "synchronize_loop c (Suc n) = andThen (synchronize_one c 0) (\<lambda>_. synchronize_loop c n)"
    by (simp add: fun_eq_iff)
  then show ?case using keeps_andThen [OF keeps_synchronize_one Suc.IH] by simp
qed (simp add: keeps_def)

lemma keeps_synchronize [keeping]: "keeps (mailbox_ok \<circ> snd) (SftpFile_synchronize c)"
  by (simp add: keeps_def SftpFile_synchronize_def keeps_synchronize_loop [unfolded keeps_def, simplified])

lemma keeps_file_destroy [keeping]: "keeps (mailbox_ok \<circ> snd) (SftpFile_destroy c)"
  unfolding SftpFile_destroy_def
  by (rule keeps_andThen [OF keeps_synchronize], rule keeps_at) (intro keeping keeps_on_fs)

section \<open>The states of a session\<close>

text \<open>What a client can come to: its functions and those of its files are called, in any order and however they end.\<close>

inductive session :: "'w client \<Rightarrow> 'w sftp \<Rightarrow> 'w sftp \<Rightarrow> bool" for c s0 where
  start: "session c s0 s0"
| rename: "session c s0 s \<Longrightarrow> session c s0 (snd (SftpFilesystem_rename c old new s))"
| remove: "session c s0 s \<Longrightarrow> session c s0 (snd (SftpFilesystem_remove c path s))"
| mkdir: "session c s0 s \<Longrightarrow> session c s0 (snd (SftpFilesystem_mkdir c path m s))"
| prefigure: "session c s0 s \<Longrightarrow> session c s0 (snd (SftpFilesystem_prefigure_exists c path s))"
| exists: "session c s0 s \<Longrightarrow> session c s0 (snd (SftpFilesystem_exists c path s))"
| contents: "session c s0 s \<Longrightarrow> session c s0 (snd (SftpFilesystem_contents c path s))"
| type: "session c s0 s \<Longrightarrow> session c s0 (snd (SftpFilesystem_type c path s))"
| file_open: "session c s0 s \<Longrightarrow> session c s0 (snd (SftpFilesystem_open c path md s))"
| file_read: "session c s0 s \<Longrightarrow> session c s0 (snd (snd (SftpFile_readbytes c space (f, s))))"
| file_write: "session c s0 s \<Longrightarrow> session c s0 (snd (snd (SftpFile_writebytes c buf (f, s))))"
| file_sync: "session c s0 s \<Longrightarrow> session c s0 (snd (snd (SftpFile_synchronize c (f, s))))"
| file_delete: "session c s0 s \<Longrightarrow> session c s0 (snd (snd (SftpFile_destroy c (f, s))))"

lemma new_ok: "mailbox_ok (SftpFilesystem_new g)"
  by (simp add: mailbox_ok_def SftpFilesystem_new_def globals.defs)

lemmas keeps_operations = keeps_rename keeps_remove keeps_mkdir keeps_prefigure keeps_exists keeps_contents
  keeps_type keeps_open

lemmas keeps_file_operations = keeps_readbytes keeps_writebytes keeps_synchronize keeps_file_destroy

lemma session_ok: "session c s0 s \<Longrightarrow> mailbox_ok s0 \<Longrightarrow> mailbox_ok s"
proof (induction rule: session.induct)
  case start
  then show ?case .
qed (simp_all add: keeps_operations [unfolded keeps_def, rule_format]
    keeps_file_operations [unfolded keeps_def comp_def, rule_format])

end
