(* ===== verification/Sample_Net.thy ===== *)
theory Sample_Net
  imports Sftp_Invariant
begin

text \<open>
  Pipes with a server behind them: any function from its state and the bytes it is sent to the bytes
  it answers. On these the contract of the client's link is proved, for every server.
\<close>

record 'v net =
  inbound :: bytes
  server :: 'v

definition net_pipes :: "('v \<Rightarrow> bytes \<Rightarrow> bytes \<times> 'v) \<Rightarrow> 'v net transport" where
  "net_pipes serve =
     \<lparr>tr_pipe = (\<lambda>w. (Inr (), w)), tr_close_pipe = (\<lambda>w. w), tr_fork = (\<lambda>args w. (Inr 1, w)),
      tr_read = (\<lambda>n w. (Inr (take n (inbound w)), w\<lparr>inbound := drop n (inbound w)\<rparr>)),
      tr_write = (\<lambda>bs w. case serve (server w) bs of (out, v) \<Rightarrow>
        (Inr (length bs), w\<lparr>inbound := inbound w @ out, server := v\<rparr>)),
      tr_select = (\<lambda>w. (Inr (inbound w \<noteq> []), w)),
      tr_close_in = (\<lambda>w. (Inr (), w)), tr_close_out = (\<lambda>w. (Inr (), w)), tr_waitpid = (\<lambda>p w. (Inr 0, w))\<rparr>"

interpretation served: sftp_link "c\<lparr>cl_pipes := net_pipes serve\<rparr>" inbound
  for c :: "'v net client" and serve :: "'v \<Rightarrow> bytes \<Rightarrow> bytes \<times> 'v"
  by unfold_locales (auto simp: pipe_readbytes_def net_pipes_def)

text \<open>A client that has been sent two replies, the later request's first.\<close>

definition sample_client :: "unit net client" where
  "sample_client =
     \<lparr>cl_conf = initial_options, cl_pipes = net_pipes (\<lambda>v bs. ([], v)),
      cl_libc = \<lparr>strerror = (\<lambda>e. ''error''), format_g = (\<lambda>n m. ''number'')\<rparr>,
      cl_buffer = replicate BUFFER_SIZE 0, cl_beyond = [],
      cl_attrs = \<lparr>flags = 0, attr_size = 0, attr_uid = 0, attr_gid = 0, attr_permissions = 0, attr_atime = 0,
        attr_mtime = 0, extended = Map.empty\<rparr>\<rparr>"

definition sample_packet :: "u32 \<Rightarrow> string" where
  "sample_packet i = pack_uint32 ''h'' i @ ''ok''"

definition sample_session :: "unit net sftp" where
  "sample_session =
     (SftpFilesystem_new (initial_globals
        \<lparr>inbound = frame (sample_packet 2) @ frame (sample_packet 1), server = ()\<rparr>))
       \<lparr>in_file := Some (File (replicate BUFFER_SIZE 0) ()), next_id := 3\<rparr>"

lemma sample_packet_ok: "packet_id (sample_packet i) = i" "valid_packet (sample_packet i)"
proof -
  show "packet_id (sample_packet i) = i"
  proof -
    have "sample_packet i = ''h'' @ pack_uint32 [] i @ ''ok''"
      unfolding sample_packet_def by (subst pack_uint32_append) simp
    then have "unpack_uint32 (sample_packet i) 1 = (Inr i, 5)"
      using uint32.unpack_pack [where x = i and s = "''h''" and t = "''ok''"] by simp
    then show ?thesis by (simp add: packet_id_def)
  qed
  show "valid_packet (sample_packet i)"
    by (simp add: valid_packet_def sample_packet_def pack_uint32_def pack_uint8_def)
qed

lemma sample_link: "reliable_source (pipe_readbytes sample_client) inbound"
proof -
  have "sample_client\<lparr>cl_pipes := net_pipes (\<lambda>v bs. ([], v))\<rparr> = sample_client" by (simp add: sample_client_def)
  then show ?thesis by (metis served.reliable_source_axioms)
qed

lemma sample_session_ok:
  "link_ok sample_session"
  "incoming inbound sample_session = concat (map frame [sample_packet 2, sample_packet 1]) @ []"
  "mailbox_of sample_session = (Map.empty, {})"
  by (simp_all add: sample_session_def link_ok_def incoming_def File_def SftpFilesystem_new_def mailbox_of_def
      initial_globals_def globals.defs)

end
