(* ===== verification/Backup_Site.thy ===== *)
theory Backup_Site
  imports Store Roundtrip
begin

text \<open>
  What a backup is given, as the interface \<open>backup_site\<close>, and what it keeps true while it
  looks at directories and writes the index: the books of which hashes are stored already, and the
  lines that have been written.
\<close>

section \<open>The files it writes\<close>

text \<open>The new index and the new hints, until they get their names.\<close>

definition new_index :: "options \<Rightarrow> path" where
  "new_index opts = (if overwrite_index opts then indexfile opts else indexfile opts @ ''.tmp'')"

definition new_hints :: "options \<Rightarrow> path" where
  "new_hints opts = hintfile opts @ ''.tmp''"

text \<open>They are apart from the repository and from each other.\<close>

definition apart_files :: "options \<Rightarrow> bool" where
  "apart_files opts \<longleftrightarrow>
     outside opts (new_index opts) \<and>
     (\<not> overwrite_index opts \<longrightarrow> outside opts (indexfile opts) \<and> resolve (new_index opts) \<noteq> resolve (indexfile opts)) \<and>
     (hintfile opts \<noteq> '''' \<longrightarrow>
        outside opts (hintfile opts) \<and> outside opts (new_hints opts) \<and>
        (\<forall>p \<in> {hintfile opts, new_hints opts}. \<forall>q \<in> {indexfile opts, new_index opts}.
           \<not> at_or_below (resolve p) (resolve q)))"

text \<open>A state where no file is open and no hint is loaded.\<close>

definition before_backup :: "('re, 'extra, 'fd, 'd, 'w) source \<Rightarrow> ('w \<Rightarrow> place \<Rightarrow> entry) \<Rightarrow>
    ('fd localfile, 'd, 'w, 'z) backing_scheme \<Rightarrow> bool" where
  "before_backup env view s \<longleftrightarrow>
     index_file s = None \<and> newhints s = None \<and> hints s = None \<and> inrepo s = None \<and>
     writable_place (view (world s)) (new_index (src_conf env)) \<and>
     writable_place (view (world s)) (new_hints (src_conf env))"

section \<open>The fields of an entry as text\<close>

lemma urlencode_unchanged: "\<forall>c \<in> set s. urlencode_char c = [c] \<Longrightarrow> urlencode s = s"
  by (induction s) (simp_all add: urlencode_Cons)

lemma urlencode_hex [simp]: "urlencode (hexencode h) = hexencode h"
proof (rule urlencode_unchanged)
  have "\<forall>c \<in> set hexdigits. urlencode_char c = [c]" by code_simp
  then show "\<forall>c \<in> set (hexencode h). urlencode_char c = [c]" using hexencode_alphabet by blast
qed

lemma urlencode_format_d [simp]: "urlencode (format_d n) = format_d n"
proof -
  have "urlencode_char (CHR ''-'') = ''-''" by code_simp
  then show ?thesis by (simp add: format_d_def Let_def urlencode_Cons)
qed

lemma hash_field_text: "''&'' @ HASH_NAME @ ''='' @ hexencode h = more_fields [(HASH_NAME, hexencode h)]"
  by (simp add: more_fields_def format_field_def HASH_NAME_def urlencode_keys)

lemma type_field_texts:
  "''&type=dir'' = more_fields [(''type'', ''dir'')]" "''&type=socket'' = more_fields [(''type'', ''socket'')]"
  "''&rdev='' @ format_d n @ ''&type=chr'' = more_fields [(''rdev'', format_d n), (''type'', ''chr'')]"
  "''&rdev='' @ format_d n @ ''&type=blk'' = more_fields [(''rdev'', format_d n), (''type'', ''blk'')]"
proof -
  have "urlencode ''dir'' = ''dir''" "urlencode ''socket'' = ''socket''" "urlencode ''chr'' = ''chr''"
    "urlencode ''blk'' = ''blk''" "urlencode ''rdev'' = ''rdev''"
    by code_simp+
  then show "''&type=dir'' = more_fields [(''type'', ''dir'')]" "''&type=socket'' = more_fields [(''type'', ''socket'')]"
    "''&rdev='' @ format_d n @ ''&type=chr'' = more_fields [(''rdev'', format_d n), (''type'', ''chr'')]"
    "''&rdev='' @ format_d n @ ''&type=blk'' = more_fields [(''rdev'', format_d n), (''type'', ''blk'')]"
    by (simp_all add: more_fields_def format_field_def urlencode_keys)
qed

section \<open>What a backup is given\<close>

text \<open>
  The repository and the local file system can be written to; reading from the local file system
  changes nothing, and its files are read as their contract says.
\<close>

locale backup_site =
  repo: writable_store "src_repo env" view place +
  host: writable_store "src_local env" view hplace +
  reading: byte_source "file_readbytes (src_local env)" remaining
  for env :: "('re, 'extra, 'fd, 'd, 'w) source" and view :: "'w \<Rightarrow> place \<Rightarrow> entry"
    and place :: "'d \<Rightarrow> place" and hplace :: "'fd localfile \<Rightarrow> place"
    and remaining :: "'fd localfile \<Rightarrow> bytes" +
  assumes host_open: "view (snd (fs_open (src_local env) p ReadOnly w)) = view w"
    and host_contents: "view (snd (fs_contents (src_local env) p w)) = view w"
    and host_ismount: "view (snd (fs_ismount (src_local env) p w)) = view w"
    and host_readlink: "view (snd (fs_readlink (src_local env) p w)) = view w"
    and kernel_open: "view (snd (sys_open (src_sys env) t O_RDONLY w)) = view w"
    and kernel_close: "view (snd (sys_close (src_sys env) fd w)) = view w"
    and kernel_mmap: "view (snd (sys_mmap (src_sys env) fd off n w)) = view w"
    and kernel_munmap: "view (snd (sys_munmap (src_sys env) n w)) = view w"
    and kernel_utimes: "view (snd (sys_utimes (src_sys env) t atime mtime w)) = view w"
    and repo_plain: "plain_path (repo (src_conf env))"
    and apart: "apart_files (src_conf env)"
    and recheck: "recheckhash (src_conf env)"
    and memory: "memory_ok (src_memory env)"
begin

abbreviation conf :: options where
  "conf \<equiv> src_conf env"

section \<open>Programs that change nothing\<close>

text \<open>Two states are the same in what there is, and in the variables that matter here.\<close>

definition same_vars :: "('fd localfile, 'd, 'w, 'z) backing_scheme \<Rightarrow> ('fd localfile, 'd, 'w, 'z) backing_scheme \<Rightarrow> bool" where
  "same_vars s t \<longleftrightarrow> index_file t = index_file s \<and> newhints t = newhints s \<and> hints t = hints s \<and> inrepo t = inrepo s"

definition same :: "('fd localfile, 'd, 'w, 'z) backing_scheme \<Rightarrow> ('fd localfile, 'd, 'w, 'z) backing_scheme \<Rightarrow> bool" where
  "same s t \<longleftrightarrow> same_vars s t \<and> view (world t) = view (world s)"

lemma same_refl [simp]: "same s s" "same_vars s s"
  by (simp_all add: same_def same_vars_def)

lemma same_world [simp]: "view w = view (world t) \<Longrightarrow> same s (t\<lparr>world := w\<rparr>) = same s t"
  by (simp add: same_def same_vars_def)

lemma same_vars_world [simp]: "same_vars s (t\<lparr>world := w\<rparr>) = same_vars s t"
  by (simp add: same_vars_def)

lemma same_vars_frames [simp]:
  "same_vars s (t\<lparr>stderr_lines := l\<rparr>) = same_vars s t" "same_vars s (t\<lparr>errors := n\<rparr>) = same_vars s t"
  "same_vars s (t\<lparr>warnings := n\<rparr>) = same_vars s t" "same_vars s (t\<lparr>hash_mmap := n\<rparr>) = same_vars s t"
  "same_vars s (t\<lparr>hash_read := n\<rparr>) = same_vars s t" "same_vars s (t\<lparr>total_regular_files := n\<rparr>) = same_vars s t"
  "same_vars s (t\<lparr>total_links := n\<rparr>) = same_vars s t" "same_vars s (t\<lparr>total_devs := n\<rparr>) = same_vars s t"
  "same_vars s (t\<lparr>total_socks := n\<rparr>) = same_vars s t" "same_vars s (t\<lparr>unknown_files := n\<rparr>) = same_vars s t"
  "same_vars s (t\<lparr>new_hashes := n\<rparr>) = same_vars s t" "same_vars s (t\<lparr>small_files := n\<rparr>) = same_vars s t"
  "same_vars s (t\<lparr>hints_used := n\<rparr>) = same_vars s t" "same_vars s (t\<lparr>uid2names := a\<rparr>) = same_vars s t"
  "same_vars s (t\<lparr>gid2names := b\<rparr>) = same_vars s t"
  by (simp_all add: same_vars_def)

lemma same_frames [simp]:
  "same s (t\<lparr>stderr_lines := l\<rparr>) = same s t" "same s (t\<lparr>errors := n\<rparr>) = same s t"
  "same s (t\<lparr>warnings := n\<rparr>) = same s t" "same s (t\<lparr>hash_mmap := n\<rparr>) = same s t"
  "same s (t\<lparr>hash_read := n\<rparr>) = same s t" "same s (t\<lparr>total_regular_files := n\<rparr>) = same s t"
  "same s (t\<lparr>total_links := n\<rparr>) = same s t" "same s (t\<lparr>total_devs := n\<rparr>) = same s t"
  "same s (t\<lparr>total_socks := n\<rparr>) = same s t" "same s (t\<lparr>unknown_files := n\<rparr>) = same s t"
  "same s (t\<lparr>new_hashes := n\<rparr>) = same s t" "same s (t\<lparr>small_files := n\<rparr>) = same s t"
  "same s (t\<lparr>hints_used := n\<rparr>) = same s t" "same s (t\<lparr>uid2names := a\<rparr>) = same s t"
  "same s (t\<lparr>gid2names := b\<rparr>) = same s t"
  by (simp_all add: same_def)

lemma same_messages [simp]:
  "same s (error msg t) = same s t" "same s (warning msg t) = same s t" "same s (note_if b msg t) = same s t"
  by (simp_all add: error_def warning_def note_if_def to_stderr_def)

lemma keeps_fatal_same [keeping]: "keeps (same s0) (fatal msg)"
  by (simp add: keeps_def fatal_def)

text \<open>A program that leaves it the same keeps everything that depends on no more.\<close>

lemma keeps_quiet: "(\<And>w. view (snd (m w)) = view w) \<Longrightarrow> keeps (same s0) (in_world m)"
  by (simp add: keeps_def in_world_def split: prod.split) (metis snd_conv same_world)

lemma quiet_checked: "view (snd (m w)) = view w \<Longrightarrow> view (snd (checked doing path (m w))) = view w"
  by (cases "m w"; cases "fst (m w)") (auto simp: checked_def)

lemmas quiet = repo.exists_frame host.exists_frame repo.prefigure_frame host_open host_contents host_ismount
  host_readlink repo.destroy_frame host.destroy_frame repo.delete_frame host.delete_frame

lemma keeps_quiet_calls [keeping]:
  "keeps (same s0) (in_world (fs_exists (src_repo env) p))" "keeps (same s0) (in_world (fs_exists (src_local env) p))"
  "keeps (same s0) (in_world (fs_prefigure_exists (src_repo env) p))"
  "keeps (same s0) (in_world (fs_open (src_local env) p ReadOnly))"
  "keeps (same s0) (in_world (fs_contents (src_local env) p))"
  "keeps (same s0) (in_world (fs_ismount (src_local env) p))"
  "keeps (same s0) (in_world (fs_readlink (src_local env) p))"
  "keeps (same s0) (in_world (delete_File (src_repo env) f d))"
  "keeps (same s0) (in_world (delete_File (src_local env) g e))"
  by (rule keeps_quiet, rule quiet)+

section \<open>Looking at a directory\<close>

lemma keeps_excluded [keeping]: "keeps (same s0) (excluded lib xs p)"
proof -
  have one: "keeps (same s0) (Exclusion_matches lib x t)" for x t
  proof -
    have *: "Exclusion_matches lib x t = (if pcre_exec lib (fst x) (snd x) t < 0 then
           (if pcre_exec lib (fst x) (snd x) t = PCRE_ERROR_NOMATCH then ret False
            else fatal (''error from pcre_exec: -'' @ decimal (nat (- pcre_exec lib (fst x) (snd x) t))))
         else ret True)"
      by (simp add: fun_eq_iff Exclusion_matches_def Let_def)
    show ?thesis unfolding * by (intro keeping)
  qed
  have "keeps (same s0) (excluded_loop lib xs t)" for t
  proof (induction xs)
    case (Cons x xs)
    have "excluded_loop lib (x # xs) t =
        andThen (Exclusion_matches lib x t) (\<lambda>m. if m then ret True else excluded_loop lib xs t)"
      by (simp add: fun_eq_iff)
    then show ?case using keeps_andThen [OF one keeps_if [OF keeps_ret Cons.IH]] by simp
  qed (simp add: keeps_def)
  then show ?thesis by (simp add: excluded_def)
qed

lemma keeps_select_files [keeping]:
  "keeps (same s0 :: ('fd localfile, 'd, 'w, 'z) backing_scheme \<Rightarrow> bool) (select_files env rootdir dname c ci sm)"
proof (induction c arbitrary: ci sm)
  case (Cons name c)
  have rest: "same s0 (snd (select_files env rootdir dname c ci sm s))" if "same s0 s" for ci sm
      and s :: "('fd localfile, 'd, 'w, 'z) backing_scheme"
    using Cons.IH [of ci sm] that by (simp add: keeps_def)
  have look: "keeps (same s0) (\<lambda>s :: ('fd localfile, 'd, 'w, 'z) backing_scheme. if x then select_files env rootdir dname c ci sm s
        else
          (case sys_lstat (src_sys env) (c_str fullname) (world s) of
             Inl e \<Rightarrow>
               if e = ENOENT then
                 select_files env rootdir dname c ci sm
                   (warning (''lstat '' @ c_str fullname @ '': '' @ strerror (src_libc env) e) s)
               else (Inl (FileError ''lstat'' fullname e), s)
           | Inr sb \<Rightarrow>
               if \<not> backed_up_type (st_type sb) then
                 select_files env rootdir dname c ci sm
                   ((warning (''cannot back up '' @ c_str fullname) s)\<lparr>unknown_files := unknown_files s + 1\<rparr>)
               else select_files env rootdir dname c (ci @ [name]) (sm(name \<mapsto> sb)) s))" for x fullname
    unfolding keeps_def by (auto intro!: rest split: sum.split)
  have step: "select_files env rootdir dname (name # c) ci sm =
      (if name = ''.'' \<or> name = ''..'' then select_files env rootdir dname c ci sm
       else andThen (excluded (src_pcre env) (src_exclusions env) (local_name dname name))
         (\<lambda>x s. if x then select_files env rootdir dname c ci sm s
            else
              (case sys_lstat (src_sys env) (c_str (rootdir @ ''/'' @ local_name dname name)) (world s) of
                 Inl e \<Rightarrow>
                   if e = ENOENT then
                     select_files env rootdir dname c ci sm
                       (warning (''lstat '' @ c_str (rootdir @ ''/'' @ local_name dname name) @ '': '' @
                         strerror (src_libc env) e) s)
                   else (Inl (FileError ''lstat'' (rootdir @ ''/'' @ local_name dname name) e), s)
               | Inr sb \<Rightarrow>
                   if \<not> backed_up_type (st_type sb) then
                     select_files env rootdir dname c ci sm
                       ((warning (''cannot back up '' @ c_str (rootdir @ ''/'' @ local_name dname name)) s)
                          \<lparr>unknown_files := unknown_files s + 1\<rparr>)
                   else select_files env rootdir dname c (ci @ [name]) (sm(name \<mapsto> sb)) s)))"
    by (rule ext, cases "name = ''.'' \<or> name = ''..''")
      (simp_all only: select_files.simps Let_def if_True if_False simp_thms)
  show ?case unfolding step by (rule keeps_if [OF Cons.IH keeps_andThen [OF keeps_excluded look]])
qed (simp add: keeps_def)

lemma same_read_small: "read_small rb p sz got f s = (r, f', s') \<Longrightarrow> same s0 s \<Longrightarrow> same s0 s'"
proof (induction rb p sz got f s rule: read_small.induct)
  case (1 rb p sz got f s)
  show ?case
  proof (cases "length got < sz")
    case True
    obtain q g where g: "getbytes rb (sz - length got) False f = (q, g)" by fastforce
    show ?thesis
    proof (cases q)
      case (Inr bs)
      show ?thesis
      proof (cases "bs = []")
        case True
        then show ?thesis using 1(2,3) \<open>length got < sz\<close> Inr g
          by (auto simp: read_small.simps [of rb p sz got f s] fatal_def)
      next
        case False
        then show ?thesis using 1(1) [OF True g [symmetric] Inr False] 1(2,3) True g Inr
          by (simp add: read_small.simps [of rb p sz got f s])
      qed
    qed (use 1(2,3) True g in \<open>auto simp: read_small.simps [of rb p sz got f s]\<close>)
  qed (use 1(2,3) in \<open>auto simp: read_small.simps [of rb p sz got f s]\<close>)
qed

lemma hashfile_length: "hashfile sys fs ho garbage p b s = (Inr h, s') \<Longrightarrow> length h = HASH_SIZE"
proof -
  have "length h = HASH_SIZE" if "fst (Hash_value ho2) = Inr h" for ho2
    using that by (auto simp: Hash_value_def SHA1Result_def Let_def digest_bytes_def HASH_SIZE_def shaSuccess_def
        shaNull_def split: prod.splits if_splits)
  then show "hashfile sys fs ho garbage p b s = (Inr h, s') \<Longrightarrow> length h = HASH_SIZE"
    by (auto simp: hashfile_def elim!: andThen_InrE split: prod.splits sum.splits)
qed

lemma mmap_loop_quiet: "mmap_loop (src_sys env) p fd fsize n ho w = (r, ho', w') \<Longrightarrow> view w' = view w"
proof (induction "fsize - n" arbitrary: n ho w rule: less_induct)
  case less
  note unf = mmap_loop.simps [of "src_sys env" p fd fsize n ho w]
  show ?case
  proof (cases "n < fsize")
    case True
    define sz where "sz = (if fsize - n > MAXMAP then MAXMAP else fsize - n)"
    have dec: "fsize - (n + sz) < fsize - n" using True by (auto simp: sz_def MAXMAP_def)
    obtain q w1 where w1: "sys_mmap (src_sys env) fd n sz w = (q, w1)" by fastforce
    have v1: "view w1 = view w" using kernel_mmap [of fd n sz w] w1 by simp
    obtain q2 w2 where w2: "sys_munmap (src_sys env) sz w1 = (q2, w2)" by fastforce
    have v2: "view w2 = view w" using kernel_munmap [of sz w1] w2 v1 by simp
    have step: "mmap_loop (src_sys env) p fd fsize n ho w =
        (case q of
           Inl e \<Rightarrow> (Inl (FileError ''mapping'' p e, None), ho, w1)
         | Inr m \<Rightarrow>
             (case Hash_write m ho of
                (Inl e, ho1) \<Rightarrow> (Inl (e, Some sz), ho1, w1)
              | (Inr _, ho1) \<Rightarrow>
                  (case q2 of
                     Inl e \<Rightarrow> (Inl (FileError ''unmapping'' p e, Some sz), ho1, w2)
                   | Inr _ \<Rightarrow> mmap_loop (src_sys env) p fd fsize (n + sz) ho1 w2)))"
      unfolding unf Let_def sz_def [symmetric] w1 w2 using True
      by (cases q; cases q2) (simp_all add: w2 split: prod.split sum.split)
    show ?thesis
    proof (cases q)
      case (Inr m)
      obtain q3 ho1 where h: "Hash_write m ho = (q3, ho1)" by fastforce
      have out: "(case q3 of
             Inl e \<Rightarrow> (Inl (e, Some sz), ho1, w1)
           | Inr _ \<Rightarrow>
               (case q2 of
                  Inl e \<Rightarrow> (Inl (FileError ''unmapping'' p e, Some sz), ho1, w2)
                | Inr _ \<Rightarrow> mmap_loop (src_sys env) p fd fsize (n + sz) ho1 w2)) = (r, ho', w')"
        using less.prems unfolding step Inr sum.case h prod.case .
      have "w' = w1 \<or> w' = w2 \<or> mmap_loop (src_sys env) p fd fsize (n + sz) ho1 w2 = (r, ho', w')"
        using out by (cases q3; cases q2) simp_all
      then show ?thesis using less.hyps [OF dec, of ho1 w2] v1 v2 by metis
    qed (use less.prems v1 step in auto)
  qed (use less.prems in \<open>simp add: unf\<close>)
qed

lemma hashfile_mmap_quiet: "view (snd (hashfile_mmap (src_sys env) p ho w)) = view w"
proof -
  obtain q w1 where o: "sys_open (src_sys env) (c_str p) O_RDONLY w = (q, w1)" by fastforce
  have v1: "view w1 = view w" using kernel_open [of "c_str p" w] o by simp
  show ?thesis
  proof (cases q)
    case (Inl e)
    then show ?thesis using o v1 by (simp add: hashfile_mmap_def)
  next
    case (Inr fd)
    obtain res ho' w2 where r: "(case sys_fstat (src_sys env) fd w1 of
          Inl e \<Rightarrow> (Inl (FileError ''fstat'' p e, None), ho, w1)
        | Inr sb \<Rightarrow> mmap_loop (src_sys env) p fd (st_size sb) 0 ho w1) = (res, ho', w2)"
      by (metis prod_cases3)
    have v2: "view w2 = view w1"
      using r mmap_loop_quiet by (cases "sys_fstat (src_sys env) fd w1") auto
    obtain q3 w3 where c: "sys_close (src_sys env) fd w2 = (q3, w3)" by fastforce
    have v3: "view w3 = view w2" using kernel_close [of fd w2] c by simp
    show ?thesis
    proof (cases res)
      case (Inl em)
      obtain e m where em: "em = (e, m)" by (cases em)
      then have "hashfile_mmap (src_sys env) p ho w =
          (Inl e, case m of None \<Rightarrow> w3 | Some sz \<Rightarrow> snd (sys_munmap (src_sys env) sz w3))"
        using o Inr r Inl c by (simp add: hashfile_mmap_def)
      then show ?thesis using v1 v2 v3 kernel_munmap by (cases m) simp_all
    next
      case (Inr u)
      then show ?thesis
        using o \<open>q = Inr fd\<close> r c v1 v2 v3 by (cases q3) (simp_all add: hashfile_mmap_def)
    qed
  qed
qed

lemma hashfile_read_quiet: "view (snd (hashfile_read (src_local env) garbage p ho w)) = view w"
proof -
  have o: "view w' = view w" if "fs_open (src_local env) p ReadOnly w = (r, w')" for r w'
    using host_open [of p w] that by simp
  have d: "view (snd (closing (delete_File (src_local env) f d) r w1)) = view w1" for f :: "'e fileobj" and d r w1
    using host.delete_frame [of f d w1] by (auto simp: closing_def andThen_def split: prod.splits sum.splits)
  show ?thesis
    by (cases "fs_open (src_local env) p ReadOnly w")
      (auto simp: hashfile_read_def andThen_def d dest!: o split: sum.splits option.splits prod.splits)
qed

lemma keeps_hashfile [keeping]: "keeps (same s0) (hashfile (src_sys env) (src_local env) ho garbage p b)"
proof -
  obtain q ho1 where h: "Hash_init ho = (q, ho1)" by fastforce
  show ?thesis
  proof (cases q)
    case (Inl e)
    then show ?thesis by (simp add: keeps_def hashfile_def h)
  next
    case (Inr u)
    have *: "hashfile (src_sys env) (src_local env) ho garbage p b = andThen
            (if fs_local (src_local env) \<and> b then
               andThen (in_world (hashfile_mmap (src_sys env) p ho1))
                 (\<lambda>ho2 s. (Inr ho2, s\<lparr>hash_mmap := hash_mmap s + 1\<rparr>))
             else
               andThen (in_world (hashfile_read (src_local env) garbage p ho1))
                 (\<lambda>ho2 s. (Inr ho2, s\<lparr>hash_read := hash_read s + 1\<rparr>)))
            (\<lambda>ho2 s. (fst (Hash_value ho2), s))"
      by (rule ext) (simp only: hashfile_def h Inr prod.case sum.case)
    show ?thesis
      unfolding * by (intro keeping keeps_quiet hashfile_mmap_quiet hashfile_read_quiet) (simp_all add: keeps_def)
  qed
qed

lemma keeps_restore_atime [keeping]: "keeps (same s0) (restore_atime env p sb)"
proof -
  have "keeps (same s0) (in_world (\<lambda>w. checked ''restoring access time'' p
      (sys_utimes (src_sys env) (c_str p) (st_atime sb) (st_mtime sb) w)))"
    by (rule keeps_quiet) (rule quiet_checked, rule kernel_utimes)
  then show ?thesis unfolding restore_atime_def by (intro keeping)
qed

lemma keeps_names [keeping]:
  "keeps (same s0) (uid2string db uid)" "keeps (same s0) (gid2string db gid)"
  by (simp_all add: keeps_def uid2string_def gid2string_def Let_def split: option.split)

section \<open>The state in between\<close>

text \<open>
  The repository is in order; hints are hashes (and there are none without a hint file); the files
  being written are where they should be.
\<close>

definition hints_ok :: "(string \<rightharpoonup> hint) option \<Rightarrow> bool" where
  "hints_ok hs \<longleftrightarrow> (hs \<noteq> None \<longrightarrow> hintfile conf \<noteq> '''') \<and>
     (\<forall>m n h. hs = Some m \<longrightarrow> m n = Some h \<longrightarrow> length (hint_hash h) = HASH_SIZE)"

definition steady :: "('fd localfile, 'd, 'w, 'z) backing_scheme \<Rightarrow> bool" where
  "steady s \<longleftrightarrow> store_ok conf (view (world s)) \<and> hints_ok (hints s) \<and>
     (\<forall>f. index_file s = Some f \<longrightarrow> place (dev f) = resolve (new_index conf)) \<and>
     (\<forall>f. newhints s = Some f \<longrightarrow> hintfile conf \<noteq> '''' \<and> hplace (dev f) = resolve (new_hints conf))"

lemma steady_frames [simp]:
  "steady (s\<lparr>stderr_lines := l\<rparr>) = steady s" "steady (s\<lparr>errors := n\<rparr>) = steady s" "steady (s\<lparr>warnings := n\<rparr>) = steady s"
  by (simp_all add: steady_def)

text \<open>What depends on no more than \<open>same\<close> compares.\<close>

definition stable :: "(('fd localfile, 'd, 'w, 'z) backing_scheme \<Rightarrow> bool) \<Rightarrow> bool" where
  "stable P \<longleftrightarrow> (\<forall>s t. P s \<longrightarrow> same s t \<longrightarrow> P t) \<and> (\<forall>s. P s \<longrightarrow> steady s)"

lemma stable_steady [intro, simp]: "stable steady"
  by (simp add: stable_def steady_def same_def same_vars_def)

lemma valid_quiet:
  assumes "stable P" "\<And>s0. keeps (same s0) m"
  shows "valid P m (\<lambda>_. P) steady"
proof -
  have "same s (snd (m s))" for s using assms(2) [of s] by (simp add: keeps_def)
  then have "P (snd (m s)) \<and> steady (snd (m s))" if "P s" for s
    using assms(1) that unfolding stable_def by blast
  then show ?thesis by (force intro: validI)
qed

lemma valid_count: "stable P \<Longrightarrow> (\<And>s. same s (u s)) \<Longrightarrow> valid P (\<lambda>s. (Inr x, u s)) (\<lambda>y s. y = x \<and> P s) steady"
  unfolding stable_def valid_def by auto

lemma valid_fatal: "stable P \<Longrightarrow> valid P (fatal msg) Q steady"
  unfolding stable_def by (auto simp: valid_def fatal_def)

text \<open>Two more rules for pre- and postconditions.\<close>

lemma valid_ex:
  assumes "\<And>x. valid (P x) m Q E"
  shows "valid (\<lambda>s. \<exists>x. P x s) m Q E"
proof (unfold valid_def, intro allI impI, elim exE)
  fix s x
  assume "P x s"
  then show "case m s of (Inl e, s') \<Rightarrow> E s' | (Inr y, s') \<Rightarrow> Q y s'"
    using assms [of x] by (simp add: valid_def)
qed

lemma places_plain:
  "plain_path (new_index conf)" "outside conf (new_index conf)"
  "\<not> overwrite_index conf \<Longrightarrow> outside conf (indexfile conf) \<and> resolve (new_index conf) \<noteq> resolve (indexfile conf)"
  using apart by (simp_all add: apart_files_def outside_def)

lemma outside_places:
  assumes "outside conf p" "length h = HASH_SIZE"
  shows "resolve p \<noteq> hash_place conf h" "resolve p \<noteq> temp_place conf h"
  using assms in_area [of conf h] at_or_below_refl unfolding outside_def by metis+

lemma outside_indexfile: "outside conf (indexfile conf)"
  using apart by (cases "overwrite_index conf") (simp_all add: apart_files_def new_index_def)

section \<open>The books\<close>

text \<open>
  A hash is held if there is a file with it. The table of the hashes that need not be stored again
  (\<open>inrepo\<close>) has those that are held, and those of the files that wait to be stored,
  \<open>pend\<close>. Until it is renamed, there is no index under the final name.
\<close>

definition held :: "(place \<Rightarrow> entry) \<Rightarrow> bytes \<Rightarrow> bool" where
  "held v h \<longleftrightarrow> (\<exists>bs. v (hash_place conf h) = Regular bs \<and> (sha1_fits bs \<longrightarrow> sha1 bs = h))"

definition settled :: "bytes set \<Rightarrow> bytes set \<Rightarrow> (place \<Rightarrow> entry) \<Rightarrow> bool" where
  "settled E pend v \<longleftrightarrow>
     (\<forall>h \<in> E. length h = HASH_SIZE \<and> (h \<in> pend \<or> held v h)) \<and>
     (\<not> overwrite_index conf \<longrightarrow> (\<forall>b. v (resolve (indexfile conf)) \<noteq> Regular b))"

definition books :: "bytes set \<Rightarrow> bytes set \<Rightarrow> ('fd localfile, 'd, 'w, 'z) backing_scheme \<Rightarrow> bool" where
  "books E pend s \<longleftrightarrow>
     (\<exists>t. inrepo s = Some t \<and> table_ok t \<and> table_elems t = E) \<and> settled E pend (view (world s))"

lemma settled_mono:
  assumes "settled E pend v" "\<And>h b. length h = HASH_SIZE \<Longrightarrow> v (hash_place conf h) = Regular b \<Longrightarrow> v' (hash_place conf h) = Regular b"
    and "\<not> overwrite_index conf \<Longrightarrow>
      v' (resolve (indexfile conf)) = v (resolve (indexfile conf)) \<or> v' (resolve (indexfile conf)) = Folder"
  shows "settled E pend v'"
proof -
  have "length h = HASH_SIZE \<and> (h \<in> pend \<or> held v' h)" if "h \<in> E" for h
    using assms(1) assms(2) [of h] that unfolding settled_def held_def by blast
  then show ?thesis using assms(1,3) unfolding settled_def by (metis entry.distinct(9))
qed

text \<open>The text that has been put into the index.\<close>

definition log_text :: "string \<Rightarrow> ('fd localfile, 'd, 'w, 'z) backing_scheme \<Rightarrow> bool" where
  "log_text txt s \<longleftrightarrow>
     (\<exists>f. index_file s = Some f \<and> place (dev f) = resolve (new_index conf) \<and>
        repo.sink.writer_ok (with_world f (world s)) \<and> repo.present (dev f, world s) \<and>
        repo.sink.out_bytes (with_world f (world s)) = bytes_of_string txt)"

lemma log_text_frame:
  assumes "log_text txt s" "index_file t = index_file s"
    "view (world t) (resolve (new_index conf)) = view (world s) (resolve (new_index conf))"
  shows "log_text txt t"
  using assms
  by (auto simp: log_text_def repo.sink.writer_ok_def repo.sink.out_bytes_def with_world_def repo.present_def repo.contents_of_def)

lemma same_log: "same s t \<Longrightarrow> log_text txt s \<Longrightarrow> log_text txt t"
  by (rule log_text_frame) (simp_all add: same_def same_vars_def)

lemma same_books: "same s t \<Longrightarrow> books E pend s \<Longrightarrow> books E pend t"
  by (simp add: books_def same_def same_vars_def)

text \<open>
  The lines: each has different keys, and a type, contents, or a hash that is in the table.
  \<open>cur\<close> are the fields of the line that is being written.
\<close>

definition hashed :: "bytes set \<Rightarrow> (string \<times> string) list \<Rightarrow> bool" where
  "hashed E kvs \<longleftrightarrow> (\<forall>v. (HASH_NAME, v) \<in> set kvs \<longrightarrow> (\<exists>h \<in> E. v = hexencode h))"

definition complete :: "(string \<times> string) list \<Rightarrow> bool" where
  "complete kvs \<longleftrightarrow> distinct (map fst kvs) \<and> fst ` set kvs \<inter> {''type'', ''data'', HASH_NAME} \<noteq> {}"

definition cur_text :: "(string \<times> string) list \<Rightarrow> string" where
  "cur_text kvs = (if kvs = [] then [] else format_fields kvs)"

definition lines_text :: "(string \<times> string) list list \<Rightarrow> string" where
  "lines_text entries = concat (map (\<lambda>kvs. format_fields kvs @ [CHR 0x0A]) entries)"

definition good_lines :: "bytes set \<Rightarrow> (string \<times> string) list list \<Rightarrow> bool" where
  "good_lines E entries \<longleftrightarrow> (\<forall>kvs \<in> set entries. complete kvs \<and> hashed E kvs)"

definition log_ok :: "bytes set \<Rightarrow> (string \<times> string) list \<Rightarrow> ('fd localfile, 'd, 'w, 'z) backing_scheme \<Rightarrow> bool" where
  "log_ok pend cur s \<longleftrightarrow> steady s \<and>
     (\<exists>entries E. log_text (lines_text entries @ cur_text cur) s \<and> books E pend s \<and>
        good_lines E entries \<and> hashed E cur)"

definition recorded :: "(string \<times> string) list \<Rightarrow> ('fd localfile, 'd, 'w, 'z) backing_scheme \<Rightarrow> bool" where
  "recorded kvs s \<longleftrightarrow> (\<forall>t. inrepo s = Some t \<longrightarrow> hashed (table_elems t) kvs)"

lemma stable_log_ok [intro, simp]: "stable (log_ok pend cur)"
proof -
  have "log_ok pend cur t" if "log_ok pend cur s" "same s t"
    for s t :: "('fd localfile, 'd, 'w, 'e) backing_scheme"
  proof -
    have "steady t" using that stable_steady unfolding stable_def log_ok_def by blast
    then show ?thesis using that same_log [OF that(2)] same_books [OF that(2)] unfolding log_ok_def by blast
  qed
  then show ?thesis unfolding stable_def log_ok_def by blast
qed

lemma hashed_append [simp]: "hashed E (xs @ ys) \<longleftrightarrow> hashed E xs \<and> hashed E ys"
  by (auto simp: hashed_def)

lemma hashed_none: "HASH_NAME \<notin> fst ` set kvs \<Longrightarrow> hashed E kvs"
  by (force simp: hashed_def)

lemma cur_text_more: "cur \<noteq> [] \<Longrightarrow> cur_text (cur @ kvs) = cur_text cur @ more_fields kvs"
  using join_snoc [of "map format_field cur" "''&''" "map format_field kvs"]
  by (simp add: cur_text_def format_fields_def more_fields_def comp_def)

section \<open>Writing to the index and to the hints\<close>

lemma on_index_frame:
  assumes keep: "\<And>k v. keeps (repo.elsewhere k v \<circ> dev) m" and f: "index_file s = Some f"
    and run: "on_index m s = (r, s')"
  obtains g where "m (with_world f (world s)) = (r, g)"
    "s' = s\<lparr>index_file := Some (without_world g), world := snd (dev g)\<rparr>"
    "place (fst (dev g)) = place (dev f)" "\<And>j. j \<noteq> place (dev f) \<Longrightarrow> view (snd (dev g)) j = view (world s) j"
proof -
  obtain g where g: "m (with_world f (world s)) = (r, g)"
      "s' = s\<lparr>index_file := Some (without_world g), world := snd (dev g)\<rparr>"
    using run f by (auto simp: on_index_def split: prod.splits)
  have "(repo.elsewhere (place (dev f)) (view (world s)) \<circ> dev) g"
    by (rule keepsD [OF keep _ g(1)]) (simp add: repo.elsewhere_def with_world_def)
  then show ?thesis using that [OF g] unfolding repo.elsewhere_def comp_def by blast
qed

lemma on_newhints_frame:
  assumes keep: "\<And>k v. keeps (host.elsewhere k v \<circ> dev) m" and f: "newhints s = Some f"
    and run: "on_newhints m s = (r, s')"
  obtains g where "s' = s\<lparr>newhints := Some (without_world g), world := snd (dev g)\<rparr>"
    "hplace (fst (dev g)) = hplace (dev f)" "\<And>j. j \<noteq> hplace (dev f) \<Longrightarrow> view (snd (dev g)) j = view (world s) j"
proof -
  obtain g where g: "m (with_world f (world s)) = (r, g)"
      "s' = s\<lparr>newhints := Some (without_world g), world := snd (dev g)\<rparr>"
    using run f by (auto simp: on_newhints_def split: prod.splits)
  have "(host.elsewhere (hplace (dev f)) (view (world s)) \<circ> dev) g"
    by (rule keepsD [OF keep _ g(1)]) (simp add: host.elsewhere_def with_world_def)
  then show ?thesis using that [OF g(2)] unfolding host.elsewhere_def comp_def by blast
qed

text \<open>Of a change outside of the repository.\<close>

lemma elsewhere_ok:
  assumes "outside conf p" "\<And>j. j \<noteq> resolve p \<Longrightarrow> v' j = v j"
  shows "store_ok conf v \<Longrightarrow> store_ok conf v'"
    "\<lbrakk>settled E pend v; \<not> overwrite_index conf \<Longrightarrow> resolve (indexfile conf) \<noteq> resolve p\<rbrakk> \<Longrightarrow> settled E pend v'"
proof -
  have area: "v' k = v k" if "at_or_below (area conf) k" for k
    using assms that unfolding outside_def by metis
  show "store_ok conf v \<Longrightarrow> store_ok conf v'" by (rule store_ok_area [OF _ area])
  show "\<lbrakk>settled E pend v; \<not> overwrite_index conf \<Longrightarrow> resolve (indexfile conf) \<noteq> resolve p\<rbrakk> \<Longrightarrow> settled E pend v'"
    using assms(2) by (elim settled_mono) (simp_all add: area [OF in_area(1)])
qed

lemma steady_on_index:
  assumes "\<And>k v. keeps (repo.elsewhere k v \<circ> dev) m"
  shows "keeps steady (on_index m)"
  unfolding keeps_def
proof (intro allI impI)
  fix s :: "('fd localfile, 'd, 'w, 'z) backing_scheme"
  assume s: "steady s"
  show "steady (snd (on_index m s))"
  proof (cases "index_file s")
    case (Some f)
    obtain r s' where r: "on_index m s = (r, s')" by fastforce
    obtain g where g: "s' = s\<lparr>index_file := Some (without_world g), world := snd (dev g)\<rparr>"
        "place (fst (dev g)) = place (dev f)" "\<And>j. j \<noteq> place (dev f) \<Longrightarrow> view (snd (dev g)) j = view (world s) j"
      by (rule on_index_frame [OF assms Some r]) blast
    have p: "place (dev f) = resolve (new_index conf)" using s Some by (simp add: steady_def)
    have "store_ok conf (view (snd (dev g)))"
      by (rule elsewhere_ok(1) [OF places_plain(2), of _ "view (world s)"]) (use s g(3) p in \<open>simp_all add: steady_def\<close>)
    then show ?thesis using s p g(1,2) r by (simp add: steady_def without_world_def)
  qed (use s in \<open>simp add: on_index_def\<close>)
qed

lemma valid_put_raw:
  "valid (\<lambda>s. steady s \<and> log_text txt s \<and> books E pend s) (put_index env t)
     (\<lambda>_ s. steady s \<and> log_text (txt @ t) s \<and> books E pend s) steady"
proof -
  let ?put = "put (file_writebytes (src_repo env)) (file_synchronize (src_repo env)) (bytes_of_string t)"
  have frame: "keeps (repo.elsewhere k v \<circ> dev) ?put" for k v
    by (intro keeps_put repo.keeps_elsewhere)
  have keep: "keeps steady (put_index env t)"
    unfolding put_index_def write_text_def by (rule steady_on_index) (rule frame)
  show ?thesis
  proof (rule validI)
    fix s s' :: "('fd localfile, 'd, 'w, 'z) backing_scheme" and e
    assume "steady s \<and> log_text txt s \<and> books E pend s" "put_index env t s = (Inl e, s')"
    then show "steady s'" using keepsD [OF keep] by blast
  next
    fix s s' :: "('fd localfile, 'd, 'w, 'z) backing_scheme" and u
    assume s: "steady s \<and> log_text txt s \<and> books E pend s" and r: "put_index env t s = (Inr u, s')"
    then obtain f where f: "index_file s = Some f" "place (dev f) = resolve (new_index conf)"
        "repo.sink.writer_ok (with_world f (world s))" "repo.present (dev f, world s)"
        "repo.sink.out_bytes (with_world f (world s)) = bytes_of_string txt"
      by (auto simp: log_text_def)
    obtain g where g: "?put (with_world f (world s)) = (Inr u, g)"
        "s' = s\<lparr>index_file := Some (without_world g), world := snd (dev g)\<rparr>"
        "place (fst (dev g)) = place (dev f)" "\<And>j. j \<noteq> place (dev f) \<Longrightarrow> view (snd (dev g)) j = view (world s) j"
      using r unfolding put_index_def write_text_def by (elim on_index_frame [OF frame f(1)]) blast
    have w: "with_world (without_world g) (snd (dev g)) = g" by (simp add: with_world_def without_world_def)
    have o: "repo.present (dev g) \<and> repo.sink.writer_ok g \<and> repo.sink.out_bytes g = bytes_of_string (txt @ t)"
      using repo.sink.put_ok [OF f(3), of "bytes_of_string t" g] g(1) f(4,5) by (simp add: with_world_def)
    have "log_text (txt @ t) s'"
      using o g(3) f(2) w by (simp add: log_text_def g(2)) (simp add: without_world_def)
    moreover have "books E pend s'"
    proof -
      have "settled E pend (view (snd (dev g)))"
        by (rule elsewhere_ok(2) [OF places_plain(2), of _ "view (world s)"])
          (use g(4) f(2) s places_plain(3) in \<open>auto simp: books_def\<close>)
      then show ?thesis using s by (simp add: books_def g(2))
    qed
    ultimately show "steady s' \<and> log_text (txt @ t) s' \<and> books E pend s'" using keepsD [OF keep _ r] s by blast
  qed
qed

text \<open>A field after the others; the end of a line.\<close>

lemma valid_put_log:
  assumes "\<And>entries E. good_lines E entries \<Longrightarrow> hashed E cur \<Longrightarrow> hashed E kvs \<Longrightarrow>
    \<exists>entries'. lines_text entries @ cur_text cur @ t = lines_text entries' @ cur_text cur' \<and> good_lines E entries' \<and> hashed E cur'"
  shows "valid (\<lambda>s. log_ok pend cur s \<and> recorded kvs s) (put_index env t) (\<lambda>_. log_ok pend cur') steady"
proof (rule validI)
  fix s s' :: "('fd localfile, 'd, 'w, 'z) backing_scheme" and e
  assume "log_ok pend cur s \<and> recorded kvs s" "put_index env t s = (Inl e, s')"
  then show "steady s'" using validD [OF valid_put_raw] unfolding log_ok_def by fastforce
next
  fix s s' :: "('fd localfile, 'd, 'w, 'z) backing_scheme" and u
  assume s: "log_ok pend cur s \<and> recorded kvs s" and r: "put_index env t s = (Inr u, s')"
  then obtain entries E where e: "steady s" "log_text (lines_text entries @ cur_text cur) s" "books E pend s"
      "good_lines E entries" "hashed E cur"
    unfolding log_ok_def by blast
  have "hashed E kvs" using s e(3) by (auto simp: recorded_def books_def)
  then obtain entries' where e': "lines_text entries @ cur_text cur @ t = lines_text entries' @ cur_text cur'"
      "good_lines E entries'" "hashed E cur'"
    using assms e(4,5) by blast
  have "steady s' \<and> log_text ((lines_text entries @ cur_text cur) @ t) s' \<and> books E pend s'"
    using validD [OF valid_put_raw _ r] e(1-3) by fastforce
  then show "log_ok pend cur' s'" unfolding log_ok_def using e' by (metis append_assoc)
qed

lemma valid_put_fields:
  assumes "cur_text (cur @ kvs) = cur_text cur @ t"
  shows "valid (\<lambda>s. log_ok pend cur s \<and> recorded kvs s) (put_index env t) (\<lambda>_. log_ok pend (cur @ kvs)) steady"
  by (rule valid_put_log) (use assms in auto)

lemma valid_put_line:
  assumes "cur_text (cur @ kvs) @ [CHR 0x0A] = cur_text cur @ t" "complete (cur @ kvs)"
  shows "valid (\<lambda>s. log_ok pend cur s \<and> recorded kvs s) (put_index env t) (\<lambda>_. log_ok pend []) steady"
proof (rule valid_put_log)
  fix entries E
  assume "good_lines E entries" "hashed E cur" "hashed E kvs"
  moreover have ne: "cur @ kvs \<noteq> []" using assms(2) by (auto simp: complete_def)
  have "lines_text (entries @ [cur @ kvs]) = lines_text entries @ cur_text (cur @ kvs) @ [CHR 0x0A]"
    unfolding cur_text_def if_not_P [OF ne] by (simp add: lines_text_def)
  then have "lines_text entries @ cur_text cur @ t = lines_text (entries @ [cur @ kvs]) @ cur_text []"
    using assms(1) by (simp add: cur_text_def [of "[]"])
  ultimately show "\<exists>entries'. lines_text entries @ cur_text cur @ t = lines_text entries' @ cur_text [] \<and>
      good_lines E entries' \<and> hashed E []"
    using assms(2) by (intro exI [of _ "entries @ [cur @ kvs]"]) (auto simp: good_lines_def hashed_def)
qed

text \<open>The same for fields without a hash.\<close>

lemma valid_put_plain:
  assumes "cur_text (cur @ kvs) = cur_text cur @ t" "HASH_NAME \<notin> fst ` set kvs"
  shows "valid (log_ok pend cur) (put_index env t) (\<lambda>_. log_ok pend (cur @ kvs)) steady"
  by (rule valid_pre [OF valid_put_fields [OF assms(1)]]) (simp add: recorded_def hashed_none [OF assms(2)])

lemma valid_end_plain:
  assumes "cur_text (cur @ kvs) @ [CHR 0x0A] = cur_text cur @ t" "complete (cur @ kvs)" "HASH_NAME \<notin> fst ` set kvs"
  shows "valid (log_ok pend cur) (put_index env t) (\<lambda>_. log_ok pend []) steady"
  by (rule valid_pre [OF valid_put_line [OF assms(1,2)]]) (simp add: recorded_def hashed_none [OF assms(3)])

text \<open>Writing to the hints.\<close>

lemma newhints_frame:
  assumes "\<And>k v. keeps (host.elsewhere k v \<circ> dev) m" "steady s" "on_newhints m s = (r, s')"
  shows "steady s' \<and> index_file s' = index_file s \<and> inrepo s' = inrepo s \<and> hints s' = hints s \<and>
    (\<exists>v. view (world s') = (view (world s))(resolve (new_hints conf) := v)) \<and>
    (newhints s \<noteq> None \<longrightarrow> hintfile conf \<noteq> '''')"
proof (cases "newhints s")
  case None
  then show ?thesis using assms(2,3) by (auto simp: on_newhints_def intro!: exI [of _ "view (world s) (resolve (new_hints conf))"])
next
  case (Some f)
  obtain g where g: "s' = s\<lparr>newhints := Some (without_world g), world := snd (dev g)\<rparr>"
      "hplace (fst (dev g)) = hplace (dev f)" "\<And>j. j \<noteq> hplace (dev f) \<Longrightarrow> view (snd (dev g)) j = view (world s) j"
    by (rule on_newhints_frame [OF assms(1) Some assms(3)]) blast
  have h: "hintfile conf \<noteq> ''''" "hplace (dev f) = resolve (new_hints conf)"
    using assms(2) Some by (simp_all add: steady_def)
  have out: "outside conf (new_hints conf)" using apart h(1) by (simp add: apart_files_def)
  have "store_ok conf (view (snd (dev g)))"
    by (rule elsewhere_ok(1) [OF out, of _ "view (world s)"]) (use assms(2) g(3) h in \<open>simp_all add: steady_def\<close>)
  then have "steady s'" using assms(2) g(1,2) h by (simp add: steady_def without_world_def)
  moreover have "view (world s') = (view (world s))(resolve (new_hints conf) := view (snd (dev g)) (resolve (new_hints conf)))"
    using g(1,3) h(2) by (auto simp: fun_eq_iff simp del: split_paired_All)
  ultimately show ?thesis using g(1) h(1) by auto
qed

lemma valid_on_newhints:
  fixes P :: "('fd localfile, 'd, 'w, 'z) backing_scheme \<Rightarrow> bool"
  assumes "\<And>k v. keeps (host.elsewhere k v \<circ> dev) m" and steady: "\<And>s. P s \<Longrightarrow> steady s"
    and closed: "\<And>s t v. \<lbrakk>P s; steady t; index_file t = index_file s; inrepo t = inrepo s; hintfile conf \<noteq> '''';
      view (world t) = (view (world s))(resolve (new_hints conf) := v)\<rbrakk> \<Longrightarrow> P t"
  shows "valid P (on_newhints m) (\<lambda>_. P) steady"
proof -
  have "P (snd (on_newhints m s)) \<and> steady (snd (on_newhints m s))" if P: "P s" for s
  proof (cases "newhints s = None")
    case True
    then show ?thesis using P steady by (simp add: on_newhints_def)
  next
    case False
    obtain r s' where r: "on_newhints m s = (r, s')" by fastforce
    then show ?thesis using newhints_frame [OF assms(1) steady [OF P] r] closed [OF P] False by auto
  qed
  then show ?thesis by (force intro: validI)
qed

lemma hints_apart:
  assumes "hintfile conf \<noteq> ''''"
  shows "outside conf (new_hints conf)" "outside conf (hintfile conf)"
    "p \<in> {hintfile conf, new_hints conf} \<Longrightarrow> q \<in> {indexfile conf, new_index conf} \<Longrightarrow> \<not> at_or_below (resolve p) (resolve q)"
    "resolve (new_index conf) \<noteq> resolve (new_hints conf)" "resolve (indexfile conf) \<noteq> resolve (new_hints conf)"
proof -
  show out: "outside conf (new_hints conf)" "outside conf (hintfile conf)"
    "p \<in> {hintfile conf, new_hints conf} \<Longrightarrow> q \<in> {indexfile conf, new_index conf} \<Longrightarrow> \<not> at_or_below (resolve p) (resolve q)"
    for p q
    using apart assms unfolding apart_files_def by blast+
  show "resolve (new_index conf) \<noteq> resolve (new_hints conf)" "resolve (indexfile conf) \<noteq> resolve (new_hints conf)"
    using out(3) at_or_below_refl by (metis insertCI)+
qed

lemma valid_log_newhints:
  assumes "\<And>k v. keeps (host.elsewhere k v \<circ> dev) m"
  shows "valid (log_ok pend cur) (on_newhints m) (\<lambda>_. log_ok pend cur) steady"
proof (rule valid_on_newhints [OF assms])
  fix s t :: "('fd localfile, 'd, 'w, 'z) backing_scheme" and v
  assume s: "log_ok pend cur s" and t: "steady t" "index_file t = index_file s" "inrepo t = inrepo s"
    "hintfile conf \<noteq> ''''" and v: "view (world t) = (view (world s))(resolve (new_hints conf) := v)"
  note a = hints_apart [OF t(4)]
  have "log_text x t" if "log_text x s" for x
    by (rule log_text_frame [OF that t(2)]) (simp add: v a(4))
  moreover have "books E pend t" if "books E pend s" for E
  proof -
    have "settled E pend (view (world t))"
      by (rule elsewhere_ok(2) [OF a(1), of _ "view (world s)"]) (use that a(5) in \<open>simp_all add: v books_def\<close>)
    then show ?thesis using that t(3) by (simp add: books_def)
  qed
  ultimately show "log_ok pend cur t" using s t(1) unfolding log_ok_def by blast
qed (simp add: log_ok_def)

end

end
