(* ===== verification/Backup_Entries.thy ===== *)
theory Backup_Entries
  imports Backup_Site
begin

text \<open>
  What \<open>backup_dir\<close> writes for the files of a directory: complete lines, whose hashes are in the
  books.
\<close>

context backup_site
begin

section \<open>The entries of a directory\<close>

text \<open>The files that are still to be stored: their path in the repository is the one of their hash.\<close>

definition named :: "hashable list \<Rightarrow> bool" where
  "named hs \<longleftrightarrow> (\<forall>ha \<in> set hs. length (ha_hash ha) = HASH_SIZE \<and> ha_hp ha = hash_file conf (ha_hash ha))"

definition pending :: "hashable list \<Rightarrow> bytes set" where
  "pending hs = ha_hash ` set hs"

lemmas quiet_log = valid_quiet [OF stable_log_ok]

lemma valid_backup_small:
  assumes "cur \<noteq> []"
  shows "valid (log_ok pend cur) (backup_small env p sb) (\<lambda>_ s. \<exists>t. log_ok pend (cur @ [(''data'', t)]) s) steady"
proof -
  have rest: "valid (log_ok pend cur) (andThen (put_index env (''&data='' @ urlencode t))
      (\<lambda>_. andThen (in_world (delete_File (src_local env) f (dev f)))
         (\<lambda>_ s :: ('fd localfile, 'd, 'w, 'z) backing_scheme. (Inr (), s\<lparr>small_files := small_files s + 1\<rparr>))))
      (\<lambda>_ s. \<exists>t. log_ok pend (cur @ [(''data'', t)]) s) steady"
    for t and f :: "'fd localfile fileobj"
  proof (rule valid_andThen [OF valid_put_plain [of cur "[(''data'', t)]"]])
    show "cur_text (cur @ [(''data'', t)]) = cur_text cur @ ''&data='' @ urlencode t"
      using cur_text_more [OF assms] more_fields_texts(1) by simp
    show "valid (log_ok pend (cur @ [(''data'', t)])) (andThen (in_world (delete_File (src_local env) f (dev f)))
         (\<lambda>_ s :: ('fd localfile, 'd, 'w, 'z) backing_scheme. (Inr (), s\<lparr>small_files := small_files s + 1\<rparr>)))
      (\<lambda>_ s. \<exists>t. log_ok pend (cur @ [(''data'', t)]) s) steady"
      by (rule valid_andThen [OF quiet_log [OF keeps_quiet_calls(9)]])
        (rule valid_conseq [OF valid_count [OF stable_log_ok]], auto)
  qed (simp add: HASH_NAME_def)
  have "valid (log_ok pend cur) (\<lambda>s :: ('fd localfile, 'd, 'w, 'z) backing_scheme.
      case read_small rb p sz [] f s of
        (Inl e, f, s') \<Rightarrow> (Inl e, s')
      | (Inr bs, f, s') \<Rightarrow> andThen (put_index env (''&data='' @ urlencode (string_of_bytes bs)))
          (\<lambda>_. andThen (in_world (delete_File (src_local env) f (dev f)))
             (\<lambda>_ s. (Inr (), s\<lparr>small_files := small_files s + 1\<rparr>))) s')
      (\<lambda>_ s. \<exists>t. log_ok pend (cur @ [(''data'', t)]) s) steady"
    for rb :: "'fd localfile reader" and sz f
  proof (unfold valid_def, intro allI impI)
    fix s :: "('fd localfile, 'd, 'w, 'z) backing_scheme"
    assume s: "log_ok pend cur s"
    obtain r f' s' where r: "read_small rb p sz [] f s = (r, f', s')" by (metis prod_cases3)
    have s': "log_ok pend cur s'" "steady s'"
      using same_read_small [OF r same_refl(1)] s stable_log_ok unfolding stable_def by blast+
    show "case case read_small rb p sz [] f s of
        (Inl e, f, s') \<Rightarrow> (Inl e, s')
      | (Inr bs, f, s') \<Rightarrow> andThen (put_index env (''&data='' @ urlencode (string_of_bytes bs)))
          (\<lambda>_. andThen (in_world (delete_File (src_local env) f (dev f)))
             (\<lambda>_ s. (Inr (), s\<lparr>small_files := small_files s + 1\<rparr>))) s' of
        (Inl e, s') \<Rightarrow> steady s' | (Inr x, s') \<Rightarrow> \<exists>t. log_ok pend (cur @ [(''data'', t)]) s'"
    proof (cases r)
      case (Inr bs)
      show ?thesis using rest [unfolded valid_def, rule_format, OF s'(1), where t = "string_of_bytes bs" and f = f']
        by (simp add: r Inr)
    qed (use r s' in simp)
  qed
  then show ?thesis
    unfolding backup_small_def Let_def by (rule valid_andThen [OF quiet_log [OF keeps_quiet_calls(4)]])
qed

lemma valid_backup_hash:
  assumes "stable (P :: ('fd localfile, 'd, 'w, 'z) backing_scheme \<Rightarrow> bool)"
  shows "valid P (backup_hash env p sb) (\<lambda>h s. P s \<and> length h = HASH_SIZE) steady"
proof -
  have quiet: "keeps (same s0) (backup_hash env p sb)" for s0 :: "('fd localfile, 'd, 'w, 'z) backing_scheme"
  proof -
    have "same s0 (snd (backup_hash env p sb s))" if "same s0 s" for s
      using that keepsD [OF keeps_hashfile that surjective_pairing] by (simp add: backup_hash_def split: option.split)
    then show ?thesis by (simp add: keeps_def)
  qed
  note P = valid_quiet [OF assms quiet]
  show ?thesis
  proof (rule validI)
    fix s s' :: "('fd localfile, 'd, 'w, 'z) backing_scheme" and e
    assume "P s" "backup_hash env p sb s = (Inl e, s')"
    then show "steady s'" using validD [OF P] by fastforce
  next
    fix s s' :: "('fd localfile, 'd, 'w, 'z) backing_scheme" and h
    assume s: "P s" and r: "backup_hash env p sb s = (Inr h, s')"
    have "length h = HASH_SIZE"
    proof (cases "find_hint (hints s) p sb")
      case None
      then show ?thesis using r hashfile_length by (auto simp: backup_hash_def)
    next
      case (Some h')
      have "steady s" using assms s by (simp add: stable_def)
      then have "length h' = HASH_SIZE"
        using Some by (auto simp: find_hint_def steady_def hints_ok_def split: option.splits if_splits)
      then show ?thesis using r Some by (auto simp: backup_hash_def)
    qed
    then show "P s' \<and> length h = HASH_SIZE" using validD [OF P s r] by simp
  qed
qed

lemma valid_save_hint: "valid (log_ok pend cur) (save_hint env p sb h) (\<lambda>_. log_ok pend cur) steady"
proof -
  have *: "save_hint env p sb h = (\<lambda>s. if hints s \<noteq> None then
        on_newhints (write_text (src_local env)
          (''name='' @ urlencode p @ ''&'' @ HASH_NAME @ ''='' @ hexencode h @ ''&ctime='' @
           format_llu (st_ctime sb) @ ''&mtime='' @ format_llu (st_mtime sb) @ ''&size='' @
           format_llu (int (st_size sb)) @ [CHR 0x0A])) s
      else ret () s)"
    by (simp add: fun_eq_iff save_hint_def)
  show ?thesis
    unfolding * write_text_def
    by (rule valid_branch [OF valid_log_newhints valid_ret]) (intro keeps_put host.keeps_elsewhere)
qed

text \<open>A large file: its hash is put into the books before it is put into the index.\<close>

text \<open>Whether the contents with a hash are stored already, or wait to be.\<close>

lemma valid_new_hash:
  assumes h: "length h = HASH_SIZE" and hs: "named hs"
  shows "valid (log_ok (pending hs) cur) (\<lambda>s. case inrepo s of
        None \<Rightarrow> (Inl (AssertFailed ''null pointer''), s)
      | Some t \<Rightarrow>
          if \<not> HashSet_has h t then
            (let hp = hash_file conf h
             in andThen (in_world (fs_prefigure_exists (src_repo env) hp))
                  (\<lambda>_ s. (Inr (hs @ [\<lparr>ha_path = p, ha_hp = hp, ha_hash = h\<rparr>]),
                     s\<lparr>inrepo := Some (HashSet_insert h t)\<rparr>)) s)
          else (Inr hs, s))
      (\<lambda>hs' s. (log_ok (pending hs') cur s \<and> recorded ([(HASH_NAME, hexencode h)]) s) \<and> named hs') (steady :: ('fd localfile, 'd, 'w, 'z) backing_scheme \<Rightarrow> bool)"
  unfolding valid_def
proof (intro allI impI)
  fix s :: "('fd localfile, 'd, 'w, 'z) backing_scheme"
  let ?new = "hs @ [\<lparr>ha_path = p, ha_hp = hash_file conf h, ha_hash = h\<rparr>]"
  let ?out = "case inrepo s of
      None \<Rightarrow> (Inl (AssertFailed ''null pointer''), s)
    | Some t \<Rightarrow>
        if \<not> HashSet_has h t then
          (let hp = hash_file conf h
           in andThen (in_world (fs_prefigure_exists (src_repo env) hp))
                (\<lambda>_ s. (Inr (hs @ [\<lparr>ha_path = p, ha_hp = hp, ha_hash = h\<rparr>]),
                   s\<lparr>inrepo := Some (HashSet_insert h t)\<rparr>)) s)
        else (Inr hs, s)"
  assume s: "log_ok (pending hs) cur s"
  then obtain entries E t where e: "log_text (lines_text entries @ cur_text cur) s" "inrepo s = Some t" "table_ok t"
      "table_elems t = E" "settled E (pending hs) (view (world s))" "good_lines E entries" "hashed E cur" "steady s"
    unfolding log_ok_def books_def by blast
  have has: "HashSet_has h t \<longleftrightarrow> h \<in> E" using hashes.has_elems [OF e(3), of h] e(4) by simp
  show "case ?out of (Inl e, s') \<Rightarrow> steady s'
      | (Inr hs', s') \<Rightarrow> (log_ok (pending hs') cur s' \<and> recorded ([(HASH_NAME, hexencode h)]) s') \<and> named hs'"
  proof (cases "HashSet_has h t")
    case True
    then show ?thesis using s e(2) hs has e(4) by (auto simp: recorded_def hashed_def)
  next
    case False
    obtain r w where rw: "fs_prefigure_exists (src_repo env) (hash_file conf h) (world s) = (r, w)" by fastforce
    then have w: "in_world (fs_prefigure_exists (src_repo env) (hash_file conf h)) s = (r, s\<lparr>world := w\<rparr>)"
      by (simp add: in_world_def)
    have same: "same s (s\<lparr>world := w\<rparr>)" using keepsD [OF keeps_quiet_calls(3) same_refl(1) w] .
    then have v: "view w = view (world s)" by (simp add: same_def)
    let ?s = "s\<lparr>world := w, inrepo := Some (HashSet_insert h t)\<rparr>"
    have "log_text (lines_text entries @ cur_text cur) ?s" by (rule log_text_frame [OF e(1)]) (simp_all add: v)
    moreover have "books (insert h E) (pending ?new) ?s"
      using e(2-5) h hashes.ins_ok [OF e(3), of h] hashes.ins_elems [OF e(3), of h]
      by (auto simp: books_def settled_def pending_def v)
    moreover have "good_lines (insert h E) entries" "hashed (insert h E) cur"
      using e(6,7) by (auto simp: good_lines_def hashed_def)
    moreover have "steady ?s" using e(8) v by (simp add: steady_def)
    ultimately have "log_ok (pending ?new) cur ?s" unfolding log_ok_def by blast
    moreover have "recorded ([(HASH_NAME, hexencode h)]) ?s"
      using hashes.ins_elems [OF e(3), of h] by (auto simp: recorded_def hashed_def)
    moreover have "named ?new" using hs h by (simp add: named_def)
    moreover have "steady (s\<lparr>world := w\<rparr>)" using e(8) same stable_steady unfolding stable_def by blast
    ultimately show ?thesis using False e(2) w by (cases r) (simp_all add: Let_def)
  qed
qed

lemma valid_backup_large:
  assumes cur: "cur \<noteq> []" and hs: "named hs"
  shows "valid (log_ok (pending hs) cur) (backup_large env p sb hs)
    (\<lambda>hs' s. named hs' \<and> (\<exists>h. log_ok (pending hs') (cur @ [(HASH_NAME, hexencode h)]) s)) steady"
proof -
  let ?kv = "\<lambda>h. [(HASH_NAME, hexencode h)]"
  have line: "cur_text (cur @ ?kv h) = cur_text cur @ ''&'' @ HASH_NAME @ ''='' @ hexencode h" for h
    using cur_text_more [OF cur] hash_field_text by simp
  show ?thesis
    unfolding backup_large_def
    by (rule valid_andThen [OF valid_backup_hash [OF stable_log_ok]], rule valid_pure,
      rule valid_andThen [OF valid_save_hint], rule valid_andThen [OF valid_new_hash [OF _ hs]], assumption, rule valid_pure,
      rule valid_andThen [OF valid_put_fields [OF line]], rule valid_ret) blast
qed

lemma valid_restore_atime: "valid (log_ok pend cur) (restore_atime env p sb) (\<lambda>_. log_ok pend cur) steady"
  by (rule quiet_log [OF keeps_restore_atime])

text \<open>The end of the line of a regular file.\<close>

lemma valid_backup_regular:
  assumes gf: "cur = generic_fields r gsb u g" and hs: "named hs"
  shows "valid (log_ok (pending hs) cur) (backup_regular env p sb hs)
    (\<lambda>hs' s. log_ok (pending hs') [] s \<and> named hs') steady"
proof -
  have ne: "cur \<noteq> []" by (simp add: gf generic_fields_def)
  let ?nl = "(if 1 < st_nlink sb then ''&inode='' @ decimal (st_ino sb) else []) @ [CHR 0x0A]"
  let ?done = "\<lambda>hs' s. named hs' \<and> (\<exists>k v. log_ok (pending hs') (cur @ [(k, v)]) s \<and> k \<in> {''data'', HASH_NAME})"
  have contents: "valid (log_ok (pending hs) cur) (if st_size sb \<le> STORE_LIMIT then andThen (backup_small env p sb) (\<lambda>_. ret hs)
        else backup_large env p sb hs) ?done steady"
  proof (rule valid_if)
    show "valid (log_ok (pending hs) cur) (andThen (backup_small env p sb) (\<lambda>_. ret hs)) ?done steady"
      by (rule valid_andThen [OF valid_backup_small [OF ne]], rule valid_ret) (use hs in blast)
    show "valid (log_ok (pending hs) cur) (backup_large env p sb hs) ?done steady"
      by (rule valid_conseq [OF valid_backup_large [OF ne hs]]) blast+
  qed
  have finish: "valid (log_ok pend (cur @ [(k, v)])) (put_index env ?nl) (\<lambda>_. log_ok pend []) steady"
    if "k \<in> {''data'', HASH_NAME}" for pend k v
  proof -
    let ?ino = "if 1 < st_nlink sb then [(''inode'', decimal (st_ino sb))] else []"
    have "cur_text ((cur @ [(k, v)]) @ ?ino) @ [CHR 0x0A] = cur_text (cur @ [(k, v)]) @ ?nl"
      using cur_text_more [of "cur @ [(k, v)]" "[(''inode'', decimal (st_ino sb))]"] more_fields_texts(4) by simp
    moreover have "complete ((cur @ [(k, v)]) @ ?ino)" using that by (auto simp: complete_def gf generic_fields_def HASH_NAME_def)
    ultimately show ?thesis by (rule valid_end_plain) (auto simp: HASH_NAME_def)
  qed
  show ?thesis
    unfolding backup_regular_def
  proof (rule valid_andThen [OF contents])
    fix hs'
    have each: "valid (\<lambda>s. log_ok (pending hs') (cur @ [(k, v)]) s \<and> k \<in> {''data'', HASH_NAME} \<and> named hs')
        (andThen (put_index env ?nl)
          (\<lambda>_. andThen (restore_atime env p sb)
             (\<lambda>_ s. (Inr hs', s\<lparr>total_regular_files := total_regular_files s + 1\<rparr>))))
        (\<lambda>hs' s. log_ok (pending hs') [] s \<and> named hs') steady" for k v
    proof (rule valid_pure, elim conjE)
      assume k: "k \<in> {''data'', HASH_NAME}" and n: "named hs'"
      show "valid (log_ok (pending hs') (cur @ [(k, v)])) (andThen (put_index env ?nl)
          (\<lambda>_. andThen (restore_atime env p sb)
             (\<lambda>_ s. (Inr hs', s\<lparr>total_regular_files := total_regular_files s + 1\<rparr>))))
        (\<lambda>hs' s. log_ok (pending hs') [] s \<and> named hs') steady"
        by (rule valid_andThen [OF finish [OF k]], rule valid_andThen [OF valid_restore_atime])
          (rule valid_conseq [OF valid_count [OF stable_log_ok]], use n in auto)
    qed
    have "valid (\<lambda>s. \<exists>k v. log_ok (pending hs') (cur @ [(k, v)]) s \<and> k \<in> {''data'', HASH_NAME} \<and> named hs')
        (andThen (put_index env ?nl)
          (\<lambda>_. andThen (restore_atime env p sb)
             (\<lambda>_ s. (Inr hs', s\<lparr>total_regular_files := total_regular_files s + 1\<rparr>))))
        (\<lambda>hs' s. log_ok (pending hs') [] s \<and> named hs') steady"
      by (rule valid_ex, rule valid_ex, rule each)
    then show "valid (?done hs') (andThen (put_index env ?nl)
          (\<lambda>_. andThen (restore_atime env p sb)
             (\<lambda>_ s. (Inr hs', s\<lparr>total_regular_files := total_regular_files s + 1\<rparr>))))
        (\<lambda>hs' s. log_ok (pending hs') [] s \<and> named hs') steady"
      by (rule valid_pre) blast
  qed
qed

text \<open>The fields of a file that is not regular, and the end of its line.\<close>

lemma valid_type_line:
  assumes gf: "cur = generic_fields r gsb u g" and t: "t = more_fields kvs"
    and kvs: "distinct (map fst kvs)" "''type'' \<in> fst ` set kvs" "fst ` set kvs \<subseteq> {''type'', ''rdev'', ''target''}"
  shows "valid (log_ok (pending hs) cur) (put_index env (t @ [CHR 0x0A])) (\<lambda>_. log_ok (pending hs) [])
    (steady :: ('fd localfile, 'd, 'w, 'z) backing_scheme \<Rightarrow> bool)"
proof (rule valid_end_plain)
  have ne: "cur \<noteq> []" by (simp add: gf generic_fields_def)
  show "cur_text (cur @ kvs) @ [CHR 0x0A] = cur_text cur @ t @ [CHR 0x0A]" using cur_text_more [OF ne] t by simp
  have "fst ` set cur \<inter> fst ` set kvs = {}" using kvs(3) by (auto simp: gf generic_fields_def)
  then have "distinct (map fst (cur @ kvs))" using kvs(1) by (auto simp: gf generic_fields_def)
  then show "complete (cur @ kvs)" using kvs(2) unfolding complete_def by auto
  show "HASH_NAME \<notin> fst ` set kvs" using kvs(3) by (auto simp: HASH_NAME_def)
qed

lemma valid_backup_details:
  assumes gf: "cur = generic_fields r gsb u g" and hs: "named hs" and type: "backed_up_type (st_type sb)"
  shows "valid (log_ok (pending hs) cur) (backup_details env lname p sb hs dirs)
    (\<lambda>(hs', _) s. log_ok (pending hs') [] s \<and> named hs') steady"
proof -
  let ?Q = "\<lambda>(hs', _ :: string list) s. log_ok (pending hs') [] s \<and> named hs'"
  note line = valid_type_line [OF gf]
  have count: "valid (log_ok (pending hs) []) (\<lambda>s :: ('fd localfile, 'd, 'w, 'z) backing_scheme. (Inr (hs, ds), v s)) ?Q steady"
    if "\<And>s. same s (v s)" for v ds
    by (rule valid_conseq [OF valid_count [OF stable_log_ok that]]) (use hs in auto)
  show ?thesis
  proof (cases "st_type sb")
    case S_IFREG
    show ?thesis
      unfolding backup_details_def S_IFREG inode_type.case
      by (rule valid_andThen [OF valid_backup_regular [OF gf hs]]) (rule valid_ret, simp)
  next
    case S_IFDIR
    have follow: "valid (log_ok (pending hs) []) (if crossfs conf then ret True
        else andThen (in_world (fs_ismount (src_local env) p)) (\<lambda>m. ret (\<not> m))) (\<lambda>_. log_ok (pending hs) []) steady"
      by (rule valid_if) (rule valid_ret, assumption,
        rule valid_andThen [OF quiet_log [OF keeps_quiet_calls(6)]], rule valid_ret, assumption)
    show ?thesis
      unfolding backup_details_def S_IFDIR inode_type.case
      by (rule valid_andThen [OF line [OF type_field_texts(1)]], simp, simp, simp, rule valid_andThen [OF follow], rule valid_ret)
        (use hs in simp)
  next
    case S_IFLNK
    have t: "''&target='' @ urlencode x @ ''&type=link'' @ [CHR 0x0A] = (''&target='' @ urlencode x @ ''&type=link'') @ [CHR 0x0A]"
      for x by simp
    show ?thesis
      unfolding backup_details_def S_IFLNK inode_type.case t
      by (rule valid_andThen [OF quiet_log [OF keeps_quiet_calls(7)]],
        rule valid_andThen [OF line [OF more_fields_texts(2)]], simp, simp, simp, rule count, simp)
  next
    case S_IFSOCK
    show ?thesis
      unfolding backup_details_def S_IFSOCK inode_type.case
      by (rule valid_andThen [OF line [OF type_field_texts(2)]], simp, simp, simp, rule count, simp)
  next
    case S_IFCHR
    have t: "''&rdev='' @ x @ ''&type=chr'' @ [CHR 0x0A] = (''&rdev='' @ x @ ''&type=chr'') @ [CHR 0x0A]" for x by simp
    show ?thesis
      unfolding backup_details_def S_IFCHR inode_type.case t
      by (rule valid_andThen [OF line [OF type_field_texts(3)]], simp, simp, simp, rule count, simp)
  next
    case S_IFBLK
    have t: "''&rdev='' @ x @ ''&type=blk'' @ [CHR 0x0A] = (''&rdev='' @ x @ ''&type=blk'') @ [CHR 0x0A]" for x by simp
    show ?thesis
      unfolding backup_details_def S_IFBLK inode_type.case t
      by (rule valid_andThen [OF line [OF type_field_texts(4)]], simp, simp, simp, rule count, simp)
  qed (use type in \<open>simp add: backed_up_type_def\<close>)
qed

lemma valid_backup_entry:
  assumes hs: "named hs" and type: "backed_up_type (st_type sb)"
  shows "valid (log_ok (pending hs) []) (backup_entry env rootdir dname first name sb hs dirs)
    (\<lambda>(hs', _) s. log_ok (pending hs') [] s \<and> named hs') steady"
proof -
  have start: "valid (log_ok (pending hs) []) (put_index env (generic_details r sb u g))
      (\<lambda>_. log_ok (pending hs) (generic_fields r sb u g)) steady" for r u g
    using valid_put_plain [of "[]" "generic_fields r sb u g" "generic_details r sb u g" "pending hs"]
      generic_details_fields [of r sb u g "[]"]
    by (simp add: cur_text_def more_fields_def) (simp add: generic_fields_def HASH_NAME_def)
  show ?thesis
    unfolding backup_entry_def Let_def
    by (rule valid_andThen [OF quiet_log [OF keeps_names(1)]], rule valid_andThen [OF quiet_log [OF keeps_names(2)]],
      rule valid_andThen [OF start], rule valid_backup_details [OF refl hs type])
qed

lemma valid_backup_entries:
  "named hs \<Longrightarrow> \<forall>n \<in> set ci. backed_up_type (st_type (the (sm n))) \<Longrightarrow>
     valid (log_ok (pending hs) []) (backup_entries env rootdir dname sm first ci hs dirs)
       (\<lambda>(hs', _) s. log_ok (pending hs') [] s \<and> named hs')
       (steady :: ('fd localfile, 'd, 'w, 'z) backing_scheme \<Rightarrow> bool)"
proof (induction ci arbitrary: first hs dirs)
  case (Cons name ci)
  have step: "backup_entries env rootdir dname sm first (name # ci) hs dirs =
      andThen (backup_entry env rootdir dname first name (the (sm name)) hs dirs)
        (\<lambda>(hs', dirs'). backup_entries env rootdir dname sm False ci hs' dirs')"
    by (rule ext) (simp only: backup_entries.simps)
  show ?case
    unfolding step
  proof (rule valid_andThen [OF valid_backup_entry [OF Cons.prems(1)]])
    show "backed_up_type (st_type (the (sm name)))" using Cons.prems(2) by simp
  next
    fix x :: "hashable list \<times> string list"
    obtain hs' dirs' where x: "x = (hs', dirs')" by fastforce
    show "valid (case x of (hs', _) \<Rightarrow> \<lambda>s. log_ok (pending hs') [] s \<and> named hs')
        (case x of (hs', dirs') \<Rightarrow> backup_entries env rootdir dname sm False ci hs' dirs')
        (\<lambda>(hs', _) s. log_ok (pending hs') [] s \<and> named hs')
        (steady :: ('fd localfile, 'd, 'w, 'z) backing_scheme \<Rightarrow> bool)"
      unfolding x prod.case by (rule valid_pure, rule Cons.IH, assumption) (use Cons.prems(2) in simp)
  qed
qed (simp add: valid_def)

text \<open>Only files that can be backed up are chosen.\<close>

lemma select_files_types:
  "select_files env rootdir dname c ci sm s = (Inr (ci', sm'), s') \<Longrightarrow>
     \<forall>n \<in> set ci. backed_up_type (st_type (the (sm n))) \<Longrightarrow>
     \<forall>n \<in> set ci'. backed_up_type (st_type (the (sm' n)))"
proof (induction c arbitrary: ci sm s)
  case (Cons name c)
  show ?case
  proof (cases "name = ''.'' \<or> name = ''..''")
    case True
    then show ?thesis using Cons.IH [of ci sm s] Cons.prems by auto
  next
    case False
    obtain x s1 where x: "excluded (src_pcre env) (src_exclusions env) (local_name dname name) s = (Inr x, s1)"
      using Cons.prems(1) False by (auto simp: Let_def elim!: andThen_InrE)
    note run = Cons.prems(1) [unfolded select_files.simps Let_def if_not_P [OF False] andThen_def x prod.case sum.case]
    show ?thesis
    proof (cases x)
      case True
      then show ?thesis using run Cons.IH [of ci sm s1] Cons.prems(2) by simp
    next
      case x: False
      show ?thesis
      proof (cases "sys_lstat (src_sys env) (c_str (rootdir @ ''/'' @ local_name dname name)) (world s1)")
        case (Inl e)
        show ?thesis
          by (rule Cons.IH [OF _ Cons.prems(2)]) (use run x Inl in \<open>simp split: if_splits\<close>)
      next
        case (Inr sb)
        show ?thesis
        proof (cases "backed_up_type (st_type sb)")
          case True
          have "select_files env rootdir dname c (ci @ [name]) (sm(name \<mapsto> sb)) s1 = (Inr (ci', sm'), s')"
            using run x Inr True by simp
          then show ?thesis by (rule Cons.IH) (use True Cons.prems(2) in auto)
        next
          case False
          show ?thesis
            by (rule Cons.IH [OF _ Cons.prems(2)]) (use run x Inr False in simp)
        qed
      qed
    qed
  qed
qed simp

text \<open>A directory, up to the files that are to be stored.\<close>

end

end
