(* ===== verification/Backup_Store.thy ===== *)
theory Backup_Store
  imports Backup_Entries
begin

text \<open>
  Storing the files that the repository does not have: whatever happens, a file that is under a hash
  has that hash, and if all goes well every hash in the books is held.
\<close>

context backup_site
begin

section \<open>Storing a file\<close>

text \<open>While the file is copied, nothing changes but it, and the hash has taken in what has been put.\<close>

definition copying :: "bytes \<Rightarrow> (place \<Rightarrow> entry) \<Rightarrow> ('d \<times> 'w) fileobj \<times> SHA1Context \<Rightarrow> bool" where
  "copying h v x \<longleftrightarrow>
     repo.elsewhere (temp_place conf h) v (dev (fst x)) \<and> repo.present (dev (fst x)) \<and>
     repo.sink.writer_ok (fst x) \<and>
     (sha1_fits (repo.sink.out_bytes (fst x)) \<longrightarrow> absorbed (repo.sink.out_bytes (fst x)) (snd x))"

text \<open>The outside, if it fails.\<close>

definition copied_badly :: "bytes \<Rightarrow> (place \<Rightarrow> entry) \<Rightarrow> ('d \<times> 'w) fileobj \<times> SHA1Context \<Rightarrow> bool" where
  "copied_badly h v x \<longleftrightarrow>
     repo.elsewhere (temp_place conf h) v (dev (fst x)) \<and> repo.present (dev (fst x))"

lemma valid_store_chunk:
  assumes "length bs < 2 ^ 32"
  shows "valid (copying h v) (store_chunk (src_repo env) True bs) (\<lambda>_. copying h v) (copied_badly h v)"
proof -
  let ?fs = "src_repo env"
  have "case store_chunk ?fs True bs (dst, ctx) of (Inl e, x) \<Rightarrow> copied_badly h v x | (Inr u, x) \<Rightarrow> copying h v x"
    if c: "copying h v (dst, ctx)" for dst ctx
  proof -
    obtain r dst' where r: "put (file_writebytes ?fs) (file_synchronize ?fs) bs dst = (r, dst')" by fastforce
    have keep: "repo.elsewhere (temp_place conf h) v (dev dst')" "repo.present (dev dst')"
      using c keepsD [OF keeps_put [OF repo.keeps_elsewhere] _ r] keepsD [OF keeps_put [OF repo.keeps_present] _ r]
      by (simp_all add: copying_def)
    show ?thesis
    proof (cases r)
      case (Inl e)
      then show ?thesis using keep by (simp add: store_chunk_def r copied_badly_def)
    next
      case (Inr u)
      note put = repo.sink.put_ok [of dst bs dst']
      obtain q ctx' where q: "Hash_write bs ctx = (q, ctx')" by fastforce
      have w: "repo.sink.writer_ok dst'" "repo.sink.out_bytes dst' = repo.sink.out_bytes dst @ bs"
        using put r Inr c by (simp_all add: copying_def)
      have "absorbed (repo.sink.out_bytes dst') ctx'" if fits: "sha1_fits (repo.sink.out_bytes dst')"
      proof -
        have "absorbed (repo.sink.out_bytes dst) ctx"
          using c fits sha.fits_prefix [of "repo.sink.out_bytes dst" bs] by (simp add: copying_def w(2))
        then show ?thesis using sha.write_law [of _ ctx bs] fits assms q by (fastforce simp: w(2))
      qed
      then show ?thesis using keep w(1) by (cases q) (simp_all add: store_chunk_def r Inr q copied_badly_def copying_def)
    qed
  qed
  then show ?thesis unfolding valid_def split_paired_All by blast
qed

text \<open>The copy: if it returns, the temporary file has contents with the hash.\<close>

definition copied :: "bytes \<Rightarrow> (place \<Rightarrow> entry) \<Rightarrow> (place \<Rightarrow> entry) \<Rightarrow> bool" where
  "copied h v v' \<longleftrightarrow> (\<forall>j. j \<noteq> temp_place conf h \<longrightarrow> v' j = v j) \<and>
     (\<exists>bs. v' (temp_place conf h) = Regular bs \<and> (sha1_fits bs \<longrightarrow> sha1 bs = h))"

lemma in_world_quiet:
  assumes "\<And>w. view (snd (m w)) = view w" "in_world m s = (r, s')"
  shows "\<exists>w. s' = s\<lparr>world := w\<rparr> \<and> view w = view (world s)"
  using assms(2) assms(1) [of "world s"] by (auto simp: in_world_def split: prod.splits)

text \<open>What follows the loop.\<close>

lemma delete_both:
  assumes "andThen (in_world (delete_File (src_local env) f d)) (\<lambda>_. in_world (delete_File (src_repo env) f' d')) s = (r, s')"
  shows "\<exists>w. s' = s\<lparr>world := w\<rparr> \<and> view w = view (world s)"
proof -
  obtain q s1 where one: "in_world (delete_File (src_local env) f d) s = (q, s1)" by fastforce
  obtain w where w: "s1 = s\<lparr>world := w\<rparr>" "view w = view (world s)"
    using in_world_quiet [OF host.delete_frame one] by blast
  show ?thesis
  proof (cases q)
    case (Inr u)
    then have "in_world (delete_File (src_repo env) f' d') s1 = (r, s')" using assms one by simp
    from in_world_quiet [OF repo.delete_frame this] show ?thesis using w by auto
  qed (use assms one w in auto)
qed

lemma finish_copy:
  assumes ha: "length (ha_hash ha) = HASH_SIZE" and s: "steady s"
    and c: "copying (ha_hash ha) (view (world s)) (dst, ctx')"
    and run: "andThen
         (\<lambda>s. case fst (Hash_value ctx') of
            Inl e \<Rightarrow> (Inl e, s)
          | Inr actual_hash \<Rightarrow> if actual_hash \<noteq> ha_hash ha then fatal msg s else (Inr (), s))
         (\<lambda>_ s. case flush_file (src_repo env) dst of
             (Inl e, dst') \<Rightarrow> (Inl e, s\<lparr>world := snd (dev dst')\<rparr>)
           | (Inr _, dst') \<Rightarrow>
               andThen (in_world (delete_File (src_local env) f (dev f)))
                 (\<lambda>_. in_world (delete_File (src_repo env) dst' (fst (dev dst')))) (s\<lparr>world := snd (dev dst')\<rparr>))
         (s\<lparr>world := snd (dev dst)\<rparr>) = (r, s')"
  shows "steady s' \<and> same_vars s s' \<and> (r = Inr () \<longrightarrow> copied (ha_hash ha) (view (world s)) (view (world s')))"
proof -
  let ?h = "ha_hash ha" and ?v = "view (world s)" and ?t = "temp_place conf (ha_hash ha)"
  have steady: "steady (s\<lparr>world := w\<rparr>)" if "\<And>j. j \<noteq> ?t \<Longrightarrow> view w j = ?v j" "view w ?t = Regular bs" for w bs
    using s store_ok_temp [of conf ?v ?h "view w"] that ha by (simp add: steady_def)
  have any: "steady (s\<lparr>world := snd x\<rparr>)" if "repo.elsewhere ?t ?v x" "repo.present x" for x
    using that unfolding repo.elsewhere_def repo.present_def by (auto intro: steady)
  have here: "repo.elsewhere ?t ?v (dev dst)" "repo.present (dev dst)" "repo.sink.writer_ok dst"
    using c by (simp_all add: copying_def)
  obtain q dst' where q: "flush_file (src_repo env) dst = (q, dst')" by fastforce
  have there: "repo.elsewhere ?t ?v (dev dst')" "repo.present (dev dst')"
    using keepsD [OF keeps_flush [OF repo.keeps_elsewhere] _ q [unfolded flush_file_def]]
      keepsD [OF keeps_flush [OF repo.keeps_present] _ q [unfolded flush_file_def]] here by simp_all
  show ?thesis
  proof (cases "fst (Hash_value ctx') = Inr ?h \<and> q = Inr ()")
    case False
    then have "s' = s\<lparr>world := snd (dev dst)\<rparr> \<or> s' = snd (fatal msg (s\<lparr>world := snd (dev dst)\<rparr>)) \<or>
        s' = s\<lparr>world := snd (dev dst')\<rparr>" "r \<noteq> Inr ()"
      using run q by (auto simp: andThen_def fatal_def split: sum.splits if_splits)
    then show ?thesis using any [OF here(1,2)] any [OF there] by (auto simp: fatal_def)
  next
    case True
    let ?s1 = "s\<lparr>world := snd (dev dst')\<rparr>"
    have run': "andThen (in_world (delete_File (src_local env) f (dev f)))
        (\<lambda>_. in_world (delete_File (src_repo env) dst' (fst (dev dst')))) ?s1 = (r, s')"
      using run True q by simp
    obtain w where w: "s' = ?s1\<lparr>world := w\<rparr>" "view w = view (snd (dev dst'))"
      using delete_both [OF run'] by auto
    have "repo.contents_of (dev dst') = repo.sink.out_bytes dst"
      using repo.sink.flush_ok [OF here(3) _ here(2), of dst'] q True by (simp add: flush_file_def)
    then obtain bs where bs: "view (snd (dev dst')) ?t = Regular bs" "bs = repo.sink.out_bytes dst"
      using there by (auto simp: repo.present_def repo.contents_of_def repo.elsewhere_def)
    have "sha1 bs = ?h" if "sha1_fits bs"
      using sha.value_law [of bs ctx'] c that True bs(2) by (auto simp: copying_def)
    then have "copied ?h ?v (view (snd (dev dst')))"
      using bs(1) there(1) unfolding copied_def repo.elsewhere_def by blast
    moreover have "steady (?s1\<lparr>world := w\<rparr>)" using same_world [of w ?s1 ?s1] w(2) any [OF there] stable_steady unfolding stable_def by fastforce
    ultimately show ?thesis using w by simp
  qed
qed

text \<open>The state, but for the outside, is as before.\<close>

lemma store_copy_ok:
  assumes ha: "length (ha_hash ha) = HASH_SIZE" and s: "steady s"
    and d': "place d' = temp_place conf (ha_hash ha)"
    and new: "view (world s) (temp_place conf (ha_hash ha)) = Regular []" and ctx: "absorbed [] ctx"
    and run: "store_copy env ha d d' ctx s = (r, s')"
  shows "steady s' \<and> same_vars s s' \<and> (r = Inr () \<longrightarrow> copied (ha_hash ha) (view (world s)) (view (world s')))"
proof -
  let ?h = "ha_hash ha" and ?v = "view (world s)" and ?junk = "mem_buffer (src_memory env)"
  let ?t = "temp_place conf ?h"
  have junk: "length ?junk = BUFFER_SIZE" using memory by (simp add: memory_ok_def)
  have steady: "steady (s\<lparr>world := w\<rparr>)" if "\<And>j. j \<noteq> ?t \<Longrightarrow> view w j = ?v j" "view w ?t = Regular bs" for w bs
    using s store_ok_temp [of conf ?v ?h "view w"] that ha by (simp add: steady_def)
  have bad: "steady (s\<lparr>world := snd (dev dst)\<rparr>)" if "copied_badly ?h ?v (dst, c)" for dst c
    using that unfolding copied_badly_def repo.elsewhere_def repo.present_def by (auto intro: steady)
  have good: "copied_badly ?h ?v (dst, c)" if "copying ?h ?v (dst, c)" for dst c
    using that by (simp add: copying_def copied_badly_def)
  have start: "copying ?h ?v (File ?junk (d', world s), ctx)"
    using d' new ctx repo.sink.File_writer_ok [OF junk, of "(d', world s)"]
    by (simp add: copying_def repo.elsewhere_def repo.present_def repo.sink.File_out_bytes repo.contents_of_def)
      (simp add: File_def repo.elsewhere_def repo.present_def d' new)
  let ?loop = "read_loop (file_readbytes (src_local env)) 4096 (store_chunk (src_repo env) True)
      (File ?junk d) (File ?junk (d', world s), ctx)"
  have loop: "case q of Inl e \<Rightarrow> copied_badly ?h ?v x \<or> copying ?h ?v x | Inr _ \<Rightarrow> copying ?h ?v x \<and> reading.reader_ok f"
    if "?loop = Some (q, f, x)" for q f x
  proof (rule reading.read_loop_inv [where J = "copying ?h ?v" and A = "copied_badly ?h ?v",
        OF that reading.File_reader_ok [OF junk] start])
    show "valid (copying ?h ?v) (store_chunk (src_repo env) True bs) (\<lambda>_. copying ?h ?v) (copied_badly ?h ?v)"
      if "length bs \<le> 4096" for bs
      by (rule valid_store_chunk) (use that in simp)
  qed simp
  show ?thesis
  proof (cases ?loop)
    case None
    then show ?thesis using run s by (auto simp: store_copy_def recheck Let_def)
  next
    case (Some y)
    obtain q f dst ctx' where y: "y = (q, f, (dst, ctx'))" by (metis prod_cases4)
    note inv = loop [of q f "(dst, ctx')", unfolded Some y, OF refl]
    show ?thesis
    proof (cases q)
      case (Inl e)
      have "copied_badly ?h ?v (dst, ctx')" using inv Inl good by auto
      from bad [OF this] show ?thesis using run Inl Some y by (auto simp: store_copy_def recheck Let_def)
    next
      case (Inr u)
      have c: "copying ?h ?v (dst, ctx')" using inv Inr by simp
      show ?thesis
        by (rule finish_copy [OF ha s c]) (use run Some y Inr in \<open>simp add: store_copy_def recheck Let_def\<close>)
    qed
  qed
qed

text \<open>
  Against the state at the start: at the temporary file something may have changed, elsewhere at
  most directories have been made, and there is no file under the hash yet.
\<close>

definition grown :: "place set \<Rightarrow> (place \<Rightarrow> entry) \<Rightarrow> (place \<Rightarrow> entry) \<Rightarrow> bool" where
  "grown ks v v' \<longleftrightarrow> (\<forall>k. k \<notin> ks \<longrightarrow> v' k = v k \<or> v k = Absent \<and> v' k = Folder)"

definition making :: "bytes \<Rightarrow> ('fd localfile, 'd, 'w, 'z) backing_scheme \<Rightarrow> ('fd localfile, 'd, 'w, 'z) backing_scheme \<Rightarrow> bool" where
  "making h s0 s \<longleftrightarrow> steady s \<and> same_vars s0 s \<and>
     grown {temp_place conf h} (view (world s0)) (view (world s)) \<and> view (world s) (hash_place conf h) = Absent"

definition made :: "bytes \<Rightarrow> ('fd localfile, 'd, 'w, 'z) backing_scheme \<Rightarrow> ('fd localfile, 'd, 'w, 'z) backing_scheme \<Rightarrow> bool" where
  "made h s0 s \<longleftrightarrow> steady s \<and> same_vars s0 s \<and>
     grown {temp_place conf h, hash_place conf h} (view (world s0)) (view (world s)) \<and> held (view (world s)) h"

lemma grown_refl [simp]: "grown ks v v"
  by (simp add: grown_def)

lemma grown_regular: "grown ks v v' \<Longrightarrow> v k = Regular b \<Longrightarrow> k \<notin> ks \<Longrightarrow> v' k = Regular b"
  unfolding grown_def by (metis entry.distinct(1))

lemma grown_trans: "grown ks u v \<Longrightarrow> grown ks v w \<Longrightarrow> grown ks u w"
  unfolding grown_def by metis

lemma grown_other: "(\<And>k. k \<notin> ks \<Longrightarrow> v' k = v k) \<Longrightarrow> grown ks v v'"
  by (simp add: grown_def)

lemma grown_update: "k \<in> ks \<Longrightarrow> grown ks v (v(k := x))"
  by (simp add: grown_def)

lemma same_vars_trans: "same_vars s t \<Longrightarrow> same_vars t u \<Longrightarrow> same_vars s u"
  by (simp add: same_vars_def)

lemma steady_with: "steady s \<Longrightarrow> store_ok conf (view w) \<Longrightarrow> steady (s\<lparr>world := w\<rparr>)"
  by (simp add: steady_def)

lemma stable_making: "stable (making h s0)" "stable (made h s0)"
proof -
  have st: "steady t" if "steady s" "same s t" for s t :: "('fd localfile, 'd, 'w, 'z) backing_scheme"
    using that stable_steady unfolding stable_def by blast
  have "making h s0 t" if "making h s0 s" "same s t" for s t
    using that st [OF _ that(2)] same_vars_trans [of s0 s t] by (simp add: making_def same_def)
  then show "stable (making h s0)" unfolding stable_def making_def by blast
  have "made h s0 t" if "made h s0 s" "same s t" for s t
    using that st [OF _ that(2)] same_vars_trans [of s0 s t] by (simp add: made_def same_def)
  then show "stable (made h s0)" unfolding stable_def made_def by blast
qed

lemma hash_temp_apart: "length h = HASH_SIZE \<Longrightarrow> hash_place conf h \<noteq> temp_place conf h"
  using places_apart(1) [of h h] at_or_below_refl by metis

text \<open>Opening the temporary file, with the directories above it.\<close>

text \<open>What holds of the outside until it is open.\<close>

definition prepared :: "bytes \<Rightarrow> (place \<Rightarrow> entry) \<Rightarrow> 'w \<Rightarrow> bool" where
  "prepared h v0 w \<longleftrightarrow>
     store_ok conf (view w) \<and> grown {temp_place conf h} v0 (view w) \<and> view w (hash_place conf h) = Absent"

lemma valid_open_temp:
  assumes h: "length h = HASH_SIZE"
  shows "valid (prepared h v0) (fs_open (src_repo env) (hash_file conf h @ ''.tmp'') Overwrite)
    (\<lambda>d w. prepared h v0 w \<and> place d = temp_place conf h \<and> view w (temp_place conf h) = Regular []) (prepared h v0)"
proof -
  let ?t = "temp_place conf h" and ?tmp = "hash_file conf h @ ''.tmp''"
  let ?opened = "\<lambda>d w. prepared h v0 w \<and> place d = ?t \<and> view w ?t = Regular []"
  note tmp = temp_file_place [OF repo_plain h]
  show ?thesis
  proof (rule validI)
    fix w w' e
    assume "prepared h v0 w" "fs_open (src_repo env) ?tmp Overwrite w = (Inl e, w')"
    then show "prepared h v0 w'" using repo.overwrite_fails [OF tmp(1)] by (simp add: prepared_def)
  next
    fix w w' d
    assume P: "prepared h v0 w" and o: "fs_open (src_repo env) ?tmp Overwrite w = (Inr d, w')"
    have "view w (resolve ?tmp) \<noteq> Symlink" "view w (resolve ?tmp) \<noteq> Special"
      using P h unfolding tmp(2) prepared_def store_ok_defs by simp_all
    then have d: "place d = ?t" "view w' = (view w)(?t := Regular [])"
      using repo.overwrite_opens [OF tmp(1) _ _ o] unfolding tmp(2) by simp_all
    have "store_ok conf (view w')" by (rule store_ok_temp [of conf "view w" h]) (use P h d(2) in \<open>simp_all add: prepared_def\<close>)
    moreover have "grown {?t} v0 (view w')"
      unfolding d(2) by (rule grown_trans [OF _ grown_update]) (use P in \<open>simp_all add: prepared_def\<close>)
    ultimately show "?opened d w'" using P d hash_temp_apart [OF h] by (simp add: prepared_def)
  qed
qed

lemma keeps_hash_dirs:
  assumes p: "plain_path p" "resolve p = (fst (hash_place conf h), butlast (snd (hash_place conf h)))"
  shows "keeps (prepared h v0) (makedirs (src_repo env) p)"
  unfolding keeps_def
proof (intro allI impI)
  fix w assume P: "prepared h v0 w"
  let ?v = "view (snd (makedirs (src_repo env) p w))"
  have m: "?v k = view w k \<or> view w k = Absent \<and> ?v k = Folder \<and> length (snd k) \<le> length (snd (resolve p))" for k
    using keepsD [OF repo.makedirs_frame [OF p(1), of "view w"], of w "fst (makedirs (src_repo env) p w)"
        "snd (makedirs (src_repo env) p w)"] by (cases k) auto
  have long: "length (snd (resolve p)) < length (snd (hash_place conf g))" for g
    by (simp add: p(2) hash_place_area)
  have same: "?v (hash_place conf g) = view w (hash_place conf g)" for g using m [of "hash_place conf g"] long [of g] by linarith
  have "store_ok conf ?v"
  proof (rule store_ok_mono)
    show "store_ok conf (view w)" using P by (simp add: prepared_def)
  next
    fix g :: bytes
    show "?v (hash_place conf g) = view w (hash_place conf g)" by (rule same)
    show "?v (temp_place conf g) = view w (temp_place conf g) \<or> ?v (temp_place conf g) = Folder"
      using m [of "temp_place conf g"] by blast
  qed
  moreover have "grown {temp_place conf h} (view w) ?v" using m unfolding grown_def by blast
  then have "grown {temp_place conf h} v0 ?v" using P grown_trans unfolding prepared_def by blast
  ultimately show "prepared h v0 (snd (makedirs (src_repo env) p w))" using P same [of h] by (simp add: prepared_def)
qed

lemma valid_open_in_repo:
  fixes s0 :: "('fd localfile, 'd, 'w, 'z) backing_scheme"
  assumes h: "length h = HASH_SIZE"
  shows "valid (making h s0)
    (in_world (open_in_repo (src_repo env) (hash_file conf h) (hash_file conf h @ ''.tmp'')))
    (\<lambda>d s. making h s0 s \<and> place d = temp_place conf h \<and> view (world s) (temp_place conf h) = Regular []) steady"
proof -
  let ?t = "temp_place conf h" and ?hp = "hash_file conf h" and ?tmp = "hash_file conf h @ ''.tmp''"
  let ?ok = "prepared h (view (world s0))"
  let ?opened = "\<lambda>d w. ?ok w \<and> place d = ?t \<and> view w ?t = Regular []"
  obtain p where p: "plain_path p" "?hp = p @ ''/'' @ hexencode h"
      "resolve p = (fst (hash_place conf h), butlast (snd (hash_place conf h)))"
    using hash_dir_place [OF repo_plain h] by blast
  have dir: "take (case rfind ?hp (CHR ''/'') of Some i \<Rightarrow> i | None \<Rightarrow> length ?hp) ?hp = p"
    using rfind_append [of "CHR ''/''" "hexencode h" p] hex_plain [OF hexencode_alphabet [of h]] p(2) by simp
  have run: "valid ?ok (open_in_repo (src_repo env) ?hp ?tmp) ?opened ?ok"
    unfolding open_in_repo_def dir
  proof (rule valid_catching [OF valid_open_temp [OF h]])
    fix e k
    assume "(case file_error e of None \<Rightarrow> None | Some n \<Rightarrow> Some (if n \<noteq> ENOENT then throw e
        else andThen (makedirs (src_repo env) p) (\<lambda>_. fs_open (src_repo env) ?tmp Overwrite))) = Some k"
    then show "valid ?ok k ?opened ?ok"
      using valid_andThen [OF valid_keeps [OF keeps_hash_dirs [OF p(1,3)]] valid_open_temp [OF h]]
      by (cases "file_error e"; cases "file_error e = Some ENOENT") (auto simp: valid_throw)
  qed
  show ?thesis
  proof (rule valid_in_world)
    fix s :: "('fd localfile, 'd, 'w, 'z) backing_scheme"
    assume s: "making h s0 s"
    obtain r w where r: "open_in_repo (src_repo env) ?hp ?tmp (world s) = (r, w)" by fastforce
    have "?ok (world s)" using s by (simp add: making_def prepared_def steady_def)
    then have out: "case r of Inl e \<Rightarrow> ?ok w | Inr d \<Rightarrow> ?opened d w" using validD [OF run _ r] by blast
    then have "?ok w" by (cases r) simp_all
    then have "making h s0 (s\<lparr>world := w\<rparr>)" using s steady_with [of s w] by (simp add: making_def prepared_def)
    then show "case open_in_repo (src_repo env) ?hp ?tmp (world s) of
        (Inl e, w) \<Rightarrow> steady (s\<lparr>world := w\<rparr>)
      | (Inr d, w) \<Rightarrow> making h s0 (s\<lparr>world := w\<rparr>) \<and> place d = ?t \<and> view (world (s\<lparr>world := w\<rparr>)) ?t = Regular []"
      using r out by (cases r) (simp_all add: making_def)
  qed
qed

text \<open>Copying.\<close>

lemma valid_store_copy:
  fixes s0 :: "('fd localfile, 'd, 'w, 'z) backing_scheme"
  assumes h: "length (ha_hash ha) = HASH_SIZE" and ctx: "absorbed [] ctx"
  shows "valid (\<lambda>s. making (ha_hash ha) s0 s \<and> place d' = temp_place conf (ha_hash ha) \<and>
      view (world s) (temp_place conf (ha_hash ha)) = Regular []) (store_copy env ha d d' ctx)
    (\<lambda>_ s. making (ha_hash ha) s0 s \<and>
      (\<exists>bs. view (world s) (temp_place conf (ha_hash ha)) = Regular bs \<and> (sha1_fits bs \<longrightarrow> sha1 bs = ha_hash ha))) steady"
proof (rule validI)
  let ?t = "temp_place conf (ha_hash ha)"
  fix s s' :: "('fd localfile, 'd, 'w, 'z) backing_scheme" and e
  assume s: "making (ha_hash ha) s0 s \<and> place d' = ?t \<and> view (world s) ?t = Regular []"
  show "steady s'" if "store_copy env ha d d' ctx s = (Inl e, s')"
    using store_copy_ok [OF h _ _ _ ctx that] s by (simp add: making_def)
next
  let ?t = "temp_place conf (ha_hash ha)" and ?k = "hash_place conf (ha_hash ha)"
  fix s s' :: "('fd localfile, 'd, 'w, 'z) backing_scheme" and u
  assume s: "making (ha_hash ha) s0 s \<and> place d' = ?t \<and> view (world s) ?t = Regular []"
    and run: "store_copy env ha d d' ctx s = (Inr u, s')"
  have c: "steady s'" "same_vars s s'" "copied (ha_hash ha) (view (world s)) (view (world s'))"
    using store_copy_ok [OF h _ _ _ ctx run] s by (simp_all add: making_def)
  have "view (world s') ?k = view (world s) ?k" using c(3) hash_temp_apart [OF h] unfolding copied_def by blast
  moreover have "grown {?t} (view (world s)) (view (world s'))"
    using c(3) unfolding copied_def by (intro grown_other) blast
  then have "grown {?t} (view (world s0)) (view (world s'))"
    by (rule grown_trans [rotated]) (use s in \<open>simp add: making_def\<close>)
  moreover have "same_vars s0 s'" by (rule same_vars_trans [OF _ c(2)]) (use s in \<open>simp add: making_def\<close>)
  ultimately have "making (ha_hash ha) s0 s'" using c(1) s by (simp add: making_def)
  then show "making (ha_hash ha) s0 s' \<and> (\<exists>bs. view (world s') ?t = Regular bs \<and> (sha1_fits bs \<longrightarrow> sha1 bs = ha_hash ha))"
    using c(3) unfolding copied_def by blast
qed

text \<open>Giving it its name.\<close>

lemma valid_name_file:
  fixes s0 :: "('fd localfile, 'd, 'w, 'z) backing_scheme"
  assumes h: "length h = HASH_SIZE"
  shows "valid (\<lambda>s. making h s0 s \<and> (\<exists>bs. view (world s) (temp_place conf h) = Regular bs \<and> (sha1_fits bs \<longrightarrow> sha1 bs = h)))
    (in_world (fs_rename (src_repo env) (hash_file conf h @ ''.tmp'') (hash_file conf h))) (\<lambda>_. made h s0) steady"
proof (rule valid_in_world)
  let ?t = "temp_place conf h" and ?k = "hash_place conf h" and ?tmp = "hash_file conf h @ ''.tmp''" and ?hp = "hash_file conf h"
  fix s :: "('fd localfile, 'd, 'w, 'z) backing_scheme"
  assume s: "making h s0 s \<and> (\<exists>bs. view (world s) ?t = Regular bs \<and> (sha1_fits bs \<longrightarrow> sha1 bs = h))"
  then obtain bs where bs: "view (world s) ?t = Regular bs" "sha1_fits bs \<longrightarrow> sha1 bs = h" by blast
  have st: "steady s" "store_ok conf (view (world s))" using s by (simp_all add: making_def steady_def)
  note tmp = temp_file_place [OF repo_plain h] and hp = hash_file_place [OF repo_plain h]
  note ne = hash_temp_apart [OF h]
  obtain r w where r: "fs_rename (src_repo env) ?tmp ?hp (world s) = (r, w)" by fastforce
  show "case fs_rename (src_repo env) ?tmp ?hp (world s) of
      (Inl e, w) \<Rightarrow> steady (s\<lparr>world := w\<rparr>) | (Inr u, w) \<Rightarrow> made h s0 (s\<lparr>world := w\<rparr>)"
  proof (cases r)
    case (Inl e)
    then have "view w = view (world s)" using repo.rename_fails [OF tmp(1) hp(1)] r by simp
    then show ?thesis using st r Inl steady_with [OF st(1), of w] by simp
  next
    case (Inr u)
    have v: "view w = (view (world s))(?t := Absent, ?k := Regular bs)"
      using repo.rename_file [OF tmp(1) hp(1), of "world s" bs w] r s bs(1) ne Inr
      unfolding tmp(2) hp(2) by (simp add: making_def)
    then have "store_ok conf (view w)" using store_ok_stored [OF st(2) h, of bs] bs(2) by simp
    moreover have "grown {?t, ?k} (view (world s0)) (view w)"
    proof -
      have "grown {?t, ?k} (view (world s0)) (view (world s))" using s by (auto simp: making_def grown_def)
      then show ?thesis unfolding v by (rule grown_trans) (simp add: grown_def)
    qed
    moreover have "held (view w) h" using bs(2) by (simp add: held_def v)
    ultimately show ?thesis using s r Inr steady_with [OF st(1), of w] by (simp add: made_def making_def)
  qed
qed

text \<open>The books after that.\<close>

lemma log_ok_made:
  assumes h: "length h = HASH_SIZE" and log: "log_ok (insert h pend) cur s0" and made: "made h s0 s"
  shows "log_ok pend cur s"
proof -
  let ?v = "view (world s0)" and ?v' = "view (world s)"
  obtain entries E where e: "steady s0" "log_text (lines_text entries @ cur_text cur) s0" "books E (insert h pend) s0"
      "good_lines E entries" "hashed E cur"
    using log unfolding log_ok_def by blast
  have g: "grown {temp_place conf h, hash_place conf h} ?v ?v'" "held ?v' h" "steady s" "same_vars s0 s"
    using made by (simp_all add: made_def)
  have away: "?v' (resolve p) = ?v (resolve p) \<or> ?v (resolve p) = Absent \<and> ?v' (resolve p) = Folder" if "outside conf p" for p
    using g(1) outside_places [OF that h] unfolding grown_def by blast
  have "log_text (lines_text entries @ cur_text cur) s"
  proof (rule log_text_frame [OF e(2)])
    show "index_file s = index_file s0" using g(4) by (simp add: same_vars_def)
    have "?v (resolve (new_index conf)) \<noteq> Absent"
      using e(2) by (auto simp: log_text_def repo.present_def)
    then show "?v' (resolve (new_index conf)) = ?v (resolve (new_index conf))" using away [OF places_plain(2)] by blast
  qed
  moreover have "settled E pend ?v'"
  proof -
    have s: "settled E (insert h pend) ?v" using e(3) by (simp add: books_def)
    have still: "held ?v' g" if len: "length g = HASH_SIZE" and "held ?v g" for g
    proof (cases "g = h")
      case False
      have "hash_place conf g \<noteq> temp_place conf h" "hash_place conf g \<noteq> hash_place conf h"
        using places_apart(1) [OF h len] places_apart(3) [OF len h] at_or_below_refl False by metis+
      moreover obtain bs where bs: "?v (hash_place conf g) = Regular bs" "sha1_fits bs \<longrightarrow> sha1 bs = g"
        using \<open>held ?v g\<close> by (auto simp: held_def)
      ultimately have "?v' (hash_place conf g) = Regular bs" by (intro grown_regular [OF g(1)]) simp_all
      then show ?thesis using bs by (auto simp: held_def)
    qed (use g(2) in simp)
    have "length g = HASH_SIZE \<and> (g \<in> pend \<or> held ?v' g)" if "g \<in> E" for g
    proof -
      have "length g = HASH_SIZE" "g = h \<or> g \<in> pend \<or> held ?v g" using s that by (auto simp: settled_def)
      then show ?thesis using still [of g] g(2) by blast
    qed
    then have "\<forall>g \<in> E. length g = HASH_SIZE \<and> (g \<in> pend \<or> held ?v' g)" by blast
    moreover have "\<not> overwrite_index conf \<longrightarrow> (\<forall>b. ?v' (resolve (indexfile conf)) \<noteq> Regular b)"
    proof (intro impI allI notI)
      fix b
      assume "\<not> overwrite_index conf" and b: "?v' (resolve (indexfile conf)) = Regular b"
      then have "?v (resolve (indexfile conf)) \<noteq> Regular b" using s by (simp add: settled_def)
      then show False using away [OF outside_indexfile] b by auto
    qed
    ultimately show ?thesis by (simp add: settled_def)
  qed
  then have "books E pend s" using e(3) g(4) by (auto simp: books_def same_vars_def)
  ultimately show ?thesis using e(4,5) g(3) unfolding log_ok_def by blast
qed

lemma log_ok_held:
  assumes "log_ok (insert h pend) cur s" "held (view (world s)) h"
  shows "log_ok pend cur s"
proof -
  have "books E pend s" if "books E (insert h pend) s" for E
    using that assms(2) by (auto simp: books_def settled_def)
  then show ?thesis using assms(1) unfolding log_ok_def by blast
qed

text \<open>Whether the repository has the file already.\<close>

lemma valid_hash_exists:
  assumes "named [ha]"
  shows "valid (log_ok (insert (ha_hash ha) pend) cur) (in_world (fs_exists (src_repo env) (ha_hp ha)))
      (\<lambda>found s. if found then log_ok pend cur s else \<exists>s0. log_ok (insert (ha_hash ha) pend) cur s0 \<and> making (ha_hash ha) s0 s)
      (steady :: ('fd localfile, 'd, 'w, 'z) backing_scheme \<Rightarrow> bool)"
proof (rule valid_in_world)
  let ?h = "ha_hash ha" and ?L = "log_ok (insert (ha_hash ha) pend) cur :: ('fd localfile, 'd, 'w, 'z) backing_scheme \<Rightarrow> bool"
  have h: "length ?h = HASH_SIZE" and hp: "ha_hp ha = hash_file conf ?h" using assms by (simp_all add: named_def)
  note place = hash_file_place [OF repo_plain h]
  fix s :: "('fd localfile, 'd, 'w, 'z) backing_scheme"
  assume s: "?L s"
  obtain r w where r: "fs_exists (src_repo env) (ha_hp ha) (world s) = (r, w)" by fastforce
  have v: "view w = view (world s)" using repo.exists_frame [of "ha_hp ha" "world s"] r by simp
  then have same: "same s (s\<lparr>world := w\<rparr>)" by simp
  have s': "?L (s\<lparr>world := w\<rparr>)" "steady (s\<lparr>world := w\<rparr>)" using s same stable_log_ok unfolding stable_def by blast+
  have st: "store_ok conf (view (world s))" using s by (simp add: log_ok_def steady_def)
  have yes: "held (view w) ?h" if "r = Inr True"
  proof -
    have "view (world s) (hash_place conf ?h) \<noteq> Absent"
      using repo.exists_true [of "ha_hp ha" "world s" w] r that place unfolding hp by simp
    then show ?thesis using st h by (auto simp: held_def store_ok_defs v)
  qed
  have no: "view w (hash_place conf ?h) = Absent" if "r = Inr False"
  proof -
    have "view (world s) (hash_place conf ?h) = Absent \<or> view (world s) (hash_place conf ?h) = Symlink"
      using repo.exists_false [of "ha_hp ha" "world s" w] r that place unfolding hp by simp
    moreover have "view (world s) (hash_place conf ?h) = Absent \<or> (\<exists>bs. view (world s) (hash_place conf ?h) = Regular bs)"
      using st h by (simp add: store_ok_defs)
    ultimately show ?thesis using v by auto
  qed
  show "case fs_exists (src_repo env) (ha_hp ha) (world s) of
      (Inl e, w) \<Rightarrow> steady (s\<lparr>world := w\<rparr>)
    | (Inr found, w) \<Rightarrow> if found then log_ok pend cur (s\<lparr>world := w\<rparr>) else \<exists>s0. ?L s0 \<and> making ?h s0 (s\<lparr>world := w\<rparr>)"
  proof (cases r)
    case (Inr found)
    show ?thesis
    proof (cases found)
      case True
      have "log_ok pend cur (s\<lparr>world := w\<rparr>)" by (rule log_ok_held [OF s'(1)]) (use yes Inr True in simp)
      then show ?thesis using r Inr True by simp
    next
      case False
      have "making ?h s (s\<lparr>world := w\<rparr>)" using s'(2) no Inr False v by (simp add: making_def)
      then show ?thesis using r Inr False s by auto
    qed
  qed (use r s' in simp)
qed

text \<open>Making it.\<close>

lemma valid_make_file:
  assumes "named [ha]"
  shows "valid (\<lambda>s. \<exists>s0. log_ok (insert (ha_hash ha) pend) cur s0 \<and> making (ha_hash ha) s0 s) (case Hash_init (mem_context (src_memory env)) of
        (Inl e, _) \<Rightarrow> throw e
      | (Inr _, ctx) \<Rightarrow>
          andThen (in_world (open_in_repo (src_repo env) (ha_hp ha) (ha_hp ha @ ''.tmp'')))
            (\<lambda>d'. andThen (store_copy env ha d d' ctx)
               (\<lambda>_. andThen (in_world (fs_rename (src_repo env) (ha_hp ha @ ''.tmp'') (ha_hp ha)))
                  (\<lambda>_ s. (Inr (), s\<lparr>new_hashes := new_hashes s + 1\<rparr>)))))
      (\<lambda>_. log_ok pend cur) (steady :: ('fd localfile, 'd, 'w, 'z) backing_scheme \<Rightarrow> bool)"
proof -
  let ?h = "ha_hash ha" and ?L = "log_ok (insert (ha_hash ha) pend) cur :: ('fd localfile, 'd, 'w, 'z) backing_scheme \<Rightarrow> bool"
  have h: "length ?h = HASH_SIZE" and hp: "ha_hp ha = hash_file conf ?h" using assms by (simp_all add: named_def)
  obtain ctx where ctx: "Hash_init (mem_context (src_memory env)) = (Inr (), ctx)" "absorbed [] ctx"
    using Hash_init_absorbed memory by (auto simp: memory_ok_def)
  show ?thesis
    unfolding ctx(1) prod.case sum.case hp
  proof (rule valid_ex)
    fix s0 :: "('fd localfile, 'd, 'w, 'z) backing_scheme"
    have "valid (making ?h s0) (andThen (in_world (open_in_repo (src_repo env) (hash_file conf ?h) (hash_file conf ?h @ ''.tmp'')))
            (\<lambda>d'. andThen (store_copy env ha d d' ctx)
               (\<lambda>_. andThen (in_world (fs_rename (src_repo env) (hash_file conf ?h @ ''.tmp'') (hash_file conf ?h)))
                  (\<lambda>_ s. (Inr (), s\<lparr>new_hashes := new_hashes s + 1\<rparr>))))) (\<lambda>y s. y = () \<and> made ?h s0 s) steady"
      by (rule valid_andThen [OF valid_open_in_repo [OF h]], rule valid_andThen [OF valid_store_copy [OF h ctx(2)]],
        rule valid_andThen [OF valid_name_file [OF h]], rule valid_count [OF stable_making(2)], simp)
    then show "valid (\<lambda>s. ?L s0 \<and> making ?h s0 s) (andThen (in_world (open_in_repo (src_repo env) (hash_file conf ?h) (hash_file conf ?h @ ''.tmp'')))
            (\<lambda>d'. andThen (store_copy env ha d d' ctx)
               (\<lambda>_. andThen (in_world (fs_rename (src_repo env) (hash_file conf ?h @ ''.tmp'') (hash_file conf ?h)))
                  (\<lambda>_ s. (Inr (), s\<lparr>new_hashes := new_hashes s + 1\<rparr>))))) (\<lambda>_. log_ok pend cur) steady"
      using log_ok_made [OF h] unfolding valid_def by (fastforce split: prod.splits sum.splits)
  qed
qed

lemma valid_store_file:
  assumes "named [ha]"
  shows "valid (log_ok (insert (ha_hash ha) pend) cur) (store_file env ha) (\<lambda>_. log_ok pend cur)
    (steady :: ('fd localfile, 'd, 'w, 'z) backing_scheme \<Rightarrow> bool)"
proof -
  let ?h = "ha_hash ha" and ?L = "log_ok (insert (ha_hash ha) pend) cur :: ('fd localfile, 'd, 'w, 'z) backing_scheme \<Rightarrow> bool"
  have opens: "valid (\<lambda>s. \<exists>s0. ?L s0 \<and> making ?h s0 s) (in_world (fs_open (src_local env) p ReadOnly))
      (\<lambda>_ s. \<exists>s0. ?L s0 \<and> making ?h s0 s) steady" for p
  proof (rule valid_quiet)
    show "stable (\<lambda>s. \<exists>s0. ?L s0 \<and> making ?h s0 s)" using stable_making(1) unfolding stable_def by blast
  qed (rule keeps_quiet_calls(4))
  show ?thesis
    unfolding store_file_def Let_def
  proof (rule valid_andThen [OF valid_hash_exists [OF assms]])
    fix found
    show "valid (\<lambda>s. if found then log_ok pend cur s else \<exists>s0. ?L s0 \<and> making ?h s0 s)
        (if found then ret () else andThen (in_world (fs_open (src_local env) (ha_path ha) ReadOnly))
           (\<lambda>d. case Hash_init (mem_context (src_memory env)) of
              (Inl e, _) \<Rightarrow> throw e
            | (Inr _, ctx) \<Rightarrow>
                andThen (in_world (open_in_repo (src_repo env) (ha_hp ha) (ha_hp ha @ ''.tmp'')))
                  (\<lambda>d'. andThen (store_copy env ha d d' ctx)
                     (\<lambda>_. andThen (in_world (fs_rename (src_repo env) (ha_hp ha @ ''.tmp'') (ha_hp ha)))
                        (\<lambda>_ s. (Inr (), s\<lparr>new_hashes := new_hashes s + 1\<rparr>)))))) (\<lambda>_. log_ok pend cur) steady"
    proof (cases found)
      case False
      show ?thesis unfolding if_not_P [OF False] by (rule valid_andThen [OF opens valid_make_file [OF assms]])
    qed (simp add: valid_ret)
  qed
qed

lemma valid_store_files:
  "named hs \<Longrightarrow> valid (log_ok (pending hs) cur) (store_files env hs) (\<lambda>_. log_ok {} cur)
     (steady :: ('fd localfile, 'd, 'w, 'z) backing_scheme \<Rightarrow> bool)"
proof (induction hs)
  case (Cons ha hs)
  have "store_files env (ha # hs) = andThen (store_file env ha) (\<lambda>_. store_files env hs)"
    by (rule ext) (simp only: store_files.simps)
  moreover have "pending (ha # hs) = insert (ha_hash ha) (pending hs)" by (simp add: pending_def)
  moreover have "named [ha]" "named hs" using Cons.prems by (simp_all add: named_def)
  ultimately show ?case using valid_andThen [OF valid_store_file Cons.IH] by simp
qed (simp add: valid_def pending_def)

end

end
