(* ===== verification/Backup_Safety.thy ===== *)
theory Backup_Safety
  imports Backup_Store
begin

text \<open>
  \<open>do_backup\<close> as a whole: however it ends -- normally, by any exception at any point, or not at
  all -- a file that is under a hash has that hash; and if it ends normally there is a complete index,
  and the repository holds every hash in it.
\<close>

context backup_site
begin

section \<open>The walk\<close>

lemma valid_backup_here:
  "valid (log_ok {} []) (backup_here env rootdir dname) (\<lambda>_. log_ok {} [])
     (steady :: ('fd localfile, 'd, 'w, 'z) backing_scheme \<Rightarrow> bool)"
proof -
  let ?L = "log_ok {} [] :: ('fd localfile, 'd, 'w, 'z) backing_scheme \<Rightarrow> bool"
  let ?types = "\<lambda>x :: string list \<times> (string \<rightharpoonup> stat). \<forall>n \<in> set (fst x). backed_up_type (st_type (the (snd x n)))"
  have select: "valid ?L (select_files env rootdir dname c [] Map.empty) (\<lambda>x s. ?L s \<and> ?types x) steady" for c
  proof (rule validI)
    fix s s' :: "('fd localfile, 'd, 'w, 'z) backing_scheme" and e
    assume "?L s" "select_files env rootdir dname c [] Map.empty s = (Inl e, s')"
    then show "steady s'" using validD [OF quiet_log [OF keeps_select_files]] by fastforce
  next
    fix s s' :: "('fd localfile, 'd, 'w, 'z) backing_scheme" and x
    assume s: "?L s" and r: "select_files env rootdir dname c [] Map.empty s = (Inr x, s')"
    have "?L s'" using validD [OF quiet_log [OF keeps_select_files] s r] by simp
    moreover have "?types x" using select_files_types [of rootdir dname c "[]" Map.empty s "fst x" "snd x" s'] r by simp
    ultimately show "?L s' \<and> ?types x" by blast
  qed
  have entries: "valid ?L (andThen (backup_entries env rootdir dname sm True (sort ci) [] [])
      (\<lambda>(hashables, dirs). andThen (store_files env hashables) (\<lambda>_. ret dirs))) (\<lambda>_. ?L) steady"
    if "\<forall>n \<in> set ci. backed_up_type (st_type (the (sm n)))" for sm ci
  proof (rule valid_andThen)
    show "valid ?L (backup_entries env rootdir dname sm True (sort ci) [] [])
        (\<lambda>(hs', _) s. log_ok (pending hs') [] s \<and> named hs') steady"
      using valid_backup_entries [of "[]" "sort ci" sm rootdir dname True "[]"] that by (simp add: named_def pending_def)
  next
    fix x :: "hashable list \<times> string list"
    obtain hs ds where x: "x = (hs, ds)" by fastforce
    show "valid (case x of (hs', _) \<Rightarrow> \<lambda>s. log_ok (pending hs') [] s \<and> named hs')
        (case x of (hashables, dirs) \<Rightarrow> andThen (store_files env hashables) (\<lambda>_. ret dirs)) (\<lambda>_. ?L) steady"
      unfolding x prod.case
      by (rule valid_pure, rule valid_andThen [OF valid_store_files], assumption, rule valid_ret)
  qed
  show ?thesis
    unfolding backup_here_def Let_def
  proof (rule valid_andThen [OF quiet_log [OF keeps_quiet_calls(5)]], rule valid_andThen [OF select])
    fix x :: "string list \<times> (string \<rightharpoonup> stat)"
    obtain ci sm where x: "x = (ci, sm)" by fastforce
    show "valid (\<lambda>s. ?L s \<and> ?types x)
        (case x of (ci, sm) \<Rightarrow> andThen (backup_entries env rootdir dname sm True (sort ci) [] [])
          (\<lambda>(hashables, dirs). andThen (store_files env hashables) (\<lambda>_. ret dirs))) (\<lambda>_. ?L) steady"
      unfolding x prod.case fst_conv snd_conv by (rule valid_pure [OF entries])
  qed
qed

lemma valid_backup_dir:
  "valid (log_ok {} []) (backup_dir env rootdir k dname) (\<lambda>_. log_ok {} [])
     (steady :: ('fd localfile, 'd, 'w, 'z) backing_scheme \<Rightarrow> bool)"
proof (induction k arbitrary: dname)
  case 0
  then show ?case by (simp add: valid_def log_ok_def)
next
  case (Suc k)
  have dirs: "valid (log_ok {} []) (backup_dirs env rootdir k dirs) (\<lambda>_. log_ok {} [])
      (steady :: ('fd localfile, 'd, 'w, 'z) backing_scheme \<Rightarrow> bool)" for dirs
  proof (induction dirs)
    case (Cons dname dirs)
    have step: "backup_dirs env rootdir k (dname # dirs) =
        andThen (backup_dir env rootdir k dname) (\<lambda>_. backup_dirs env rootdir k dirs)"
      by (rule ext) (simp only: backup_dirs.simps)
    show ?case unfolding step by (rule valid_andThen [OF Suc.IH Cons.IH])
  qed (simp add: valid_def)
  have step: "backup_dir env rootdir (Suc k) dname =
      andThen (backup_here env rootdir dname) (\<lambda>dirs. backup_dirs env rootdir k dirs)"
    by (rule ext) (simp only: backup_dir.simps)
  show ?case unfolding step by (rule valid_andThen [OF valid_backup_here dirs])
qed

section \<open>The hints\<close>

text \<open>Loading them changes nothing but them.\<close>

definition still :: "('fd localfile, 'd, 'w, 'z) backing_scheme \<Rightarrow> ('fd localfile, 'd, 'w, 'z) backing_scheme \<Rightarrow> bool" where
  "still s0 s \<longleftrightarrow> steady s \<and> view (world s) = view (world s0) \<and> inrepo s = inrepo s0"

lemma steady_hints: "steady s \<Longrightarrow> hints_ok h \<Longrightarrow> steady (s\<lparr>hints := h\<rparr>)"
  by (simp add: steady_def)

lemma still_hints: "still v s \<Longrightarrow> hints_ok h \<Longrightarrow> still v (s\<lparr>hints := h\<rparr>)"
  by (simp add: still_def steady_hints)

lemma steady_messages [simp]: "steady (error msg s) = steady s" "steady (note_if b msg s) = steady s"
  by (simp_all add: error_def note_if_def to_stderr_def)

lemma still_messages [simp]: "still v (error msg s) = still v s" "still v (note_if b msg s) = still v s"
  by (simp_all add: still_def) (simp_all add: error_def note_if_def to_stderr_def)

lemma stable_still: "stable (still s0)"
  using stable_steady unfolding stable_def still_def same_def same_vars_def by metis

lemma keeps_still:
  fixes v :: "('fd localfile, 'd, 'w, 'z) backing_scheme"
  assumes "\<And>s0 :: ('fd localfile, 'd, 'w, 'z) backing_scheme. keeps (same s0) m"
  shows "keeps (still v) m"
proof -
  have "same s (snd (m s))" for s using assms [of s] by (simp add: keeps_def)
  then show ?thesis using stable_still [of v] unfolding stable_def keeps_def by blast
qed

lemma hashdecode_state: "hashdecode hex s = (r, t) \<Longrightarrow> t = s \<or> (\<exists>msg. t = error msg s)"
proof (cases "length hex = 40 \<and> (\<exists>c \<in> set hex. hex_value c = None)")
  case True
  then show "hashdecode hex s = (r, t) \<Longrightarrow> t = s \<or> (\<exists>msg. t = error msg s)" using hashdecode_bad_digit [of hex s] by auto
next
  case False
  then have "length hex \<noteq> 40 \<or> (\<exists>h. hashdecode hex s = (Inr h, s))" using hashdecode_good [of hex s] by metis
  then show "hashdecode hex s = (r, t) \<Longrightarrow> t = s \<or> (\<exists>msg. t = error msg s)" using hashdecode_length [of hex s] by auto
qed

lemma load_hint_ok:
  assumes "load_hint l m s = (q, t)" "hints_ok (Some m)"
  shows "t = s \<or> (\<exists>msg. t = error msg s)" "q = Inr m' \<Longrightarrow> hints_ok (Some m')"
proof -
  obtain r u where r: "hashdecode (subscript l HASH_NAME) s = (r, u)" by fastforce
  show "t = s \<or> (\<exists>msg. t = error msg s)"
    using assms(1) r hashdecode_state [OF r] by (cases r) (auto simp: load_hint_def andThen_def)
  show "hints_ok (Some m')" if "q = Inr m'"
    using assms r that hashdecode_Inr(2) [of "subscript l HASH_NAME" s]
    by (cases r) (auto simp: load_hint_def andThen_def hints_ok_def split: if_splits)
qed

lemma keeps_load_hints:
  "keeps (still v :: ('fd localfile, 'd, 'w, 'z) backing_scheme \<Rightarrow> bool) (load_hints env)"
proof -
  let ?fs = "src_local env"
  have gone: "still v (snd (in_world (delete_File ?fs f (dev f)) s))" if "still v s"
    for f and s :: "('fd localfile, 'd, 'w, 'z) backing_scheme"
    by (rule keepsD [OF keeps_still [OF keeps_quiet_calls(9)] that surjective_pairing])
  have body: "keeps (still v) (\<lambda>s :: ('fd localfile, 'd, 'w, 'z) backing_scheme. case hints s of
        None \<Rightarrow> (Inl (AssertFailed ''hints != 0''), s)
      | Some m \<Rightarrow>
          (case index_loop (file_readbytes ?fs) load_hint (File (mem_buffer (src_memory env)) d) m s of
             None \<Rightarrow> (Inl Diverges, s)
           | Some (Inl e, f, s') \<Rightarrow> (Inl e, s')
           | Some (Inr m', f, s') \<Rightarrow> in_world (delete_File ?fs f (dev f)) (s'\<lparr>hints := Some m'\<rparr>)))" for d
    unfolding keeps_def
  proof (intro allI impI)
    fix s :: "('fd localfile, 'd, 'w, 'z) backing_scheme"
    assume s: "still v s"
    let ?out = "case hints s of
        None \<Rightarrow> (Inl (AssertFailed ''hints != 0''), s)
      | Some m \<Rightarrow>
          (case index_loop (file_readbytes ?fs) load_hint (File (mem_buffer (src_memory env)) d) m s of
             None \<Rightarrow> (Inl Diverges, s)
           | Some (Inl e, f, s') \<Rightarrow> (Inl e, s')
           | Some (Inr m', f, s') \<Rightarrow> in_world (delete_File ?fs f (dev f)) (s'\<lparr>hints := Some m'\<rparr>))"
    show "still v (snd ?out)"
    proof (cases "hints s")
      case (Some m)
      show ?thesis
      proof (cases "index_loop (file_readbytes ?fs) load_hint (File (mem_buffer (src_memory env)) d) m s")
        case run: (Some y)
        obtain r f s' where y: "y = (r, f, s')" by (cases y)
        have "case r of Inl e \<Rightarrow> \<exists>a. still v s' \<and> hints_ok (Some a) | Inr a \<Rightarrow> still v s' \<and> hints_ok (Some a)"
        proof (rule index_loop_inv [OF run [unfolded y], where I = "\<lambda>a s. still v s \<and> hints_ok (Some a)"])
          have "hints_ok (hints s)" using s unfolding still_def steady_def by blast
          then show "still v s \<and> hints_ok (Some m)" using s Some by simp
        next
          fix l a and t :: "('fd localfile, 'd, 'w, 'z) backing_scheme" and q u
          assume "still v t \<and> hints_ok (Some a)" "load_hint l a t = (q, u)"
          then show "case q of Inl e \<Rightarrow> \<exists>a. still v u \<and> hints_ok (Some a) | Inr a \<Rightarrow> still v u \<and> hints_ok (Some a)"
            using load_hint_ok [of l a t q u] still_messages(1) [of v _ t] by (cases q) auto
        qed simp
        then show ?thesis by (auto simp: Some run y intro!: gone still_hints split: sum.split)
      qed (use s Some in simp)
    qed (use s in simp)
  qed
  have o: "keeps (still v :: ('fd localfile, 'd, 'w, 'z) backing_scheme \<Rightarrow> bool)
      (\<lambda>s. in_world (fs_open ?fs p ReadOnly) (note_if b t s))" for p b t
    by (rule keeps_update [OF _ keeps_still [OF keeps_quiet_calls(4)]]) simp
  show ?thesis
    unfolding load_hints_def Let_def
    by (intro keeps_andThen [OF keeps_still [OF keeps_quiet_calls(2)]] keeps_if keeps_ret keeps_andThen [OF o] body)
qed

text \<open>Before the index is opened.\<close>

definition no_index :: "('fd localfile, 'd, 'w, 'z) backing_scheme \<Rightarrow> bool" where
  "no_index s \<longleftrightarrow> \<not> overwrite_index conf \<longrightarrow> (\<forall>b. view (world s) (resolve (indexfile conf)) \<noteq> Regular b)"

definition starting :: "('fd localfile, 'd, 'w, 'z) backing_scheme \<Rightarrow> bool" where
  "starting s \<longleftrightarrow> steady s \<and> no_index s \<and> writable_place (view (world s)) (new_index conf) \<and> inrepo s = Some HashSet_new"

text \<open>Opening a file next to the repository for writing.\<close>

lemma steady_opened:
  assumes "steady s" "outside conf p" "view w = (view (world s))(resolve p := Regular [])"
  shows "steady (s\<lparr>world := w\<rparr>)"
  using assms(1,3) elsewhere_ok(1) [OF assms(2), of "view w" "view (world s)"] by (simp add: steady_def)

lemma valid_start_hints:
  "valid (\<lambda>s. starting s \<and> writable_place (view (world s)) (new_hints conf)) (start_hints env (new_hints conf))
    (\<lambda>_. starting) (steady :: ('fd localfile, 'd, 'w, 'z) backing_scheme \<Rightarrow> bool)"
proof (cases "hintfile conf = ''''")
  case True
  then show ?thesis unfolding start_hints_def by (simp add: valid_def)
next
  case False
  let ?P = "\<lambda>s :: ('fd localfile, 'd, 'w, 'z) backing_scheme. starting s \<and> writable_place (view (world s)) (new_hints conf)"
  note out = hints_apart [OF False]
  have load: "valid ?P (\<lambda>s. load_hints env (s\<lparr>hints := Some Map.empty\<rparr>)) (\<lambda>_. ?P) steady"
  proof -
    have "steady s' \<and> ?P s'" if s: "?P s" and r: "load_hints env (s\<lparr>hints := Some Map.empty\<rparr>) = (r, s')"
      for s s' :: "('fd localfile, 'd, 'w, 'z) backing_scheme" and r
    proof -
      have "still s (s\<lparr>hints := Some Map.empty\<rparr>)"
        using False s by (intro still_hints) (simp_all add: still_def starting_def hints_ok_def)
      from keepsD [OF keeps_load_hints this r] show ?thesis using s by (simp add: still_def starting_def no_index_def)
    qed
    note ok = this
    show ?thesis by (rule validI) (drule (1) ok, simp)+
  qed
  have opens: "valid ?P (in_world (fs_open (src_local env) (new_hints conf) Overwrite))
      (\<lambda>d s. starting s \<and> hplace d = resolve (new_hints conf)) steady"
  proof (rule valid_in_world)
    fix s :: "('fd localfile, 'd, 'w, 'z) backing_scheme"
    assume s: "?P s"
    obtain r w where r: "fs_open (src_local env) (new_hints conf) Overwrite (world s) = (r, w)" by fastforce
    have o: "case r of Inl e \<Rightarrow> view w = view (world s)
      | Inr d \<Rightarrow> hplace d = resolve (new_hints conf) \<and> view w = (view (world s))(resolve (new_hints conf) := Regular [])"
      by (rule host.open_over [OF _ _ _ r]) (use s out(1) in \<open>simp_all add: outside_def writable_place_def\<close>)
    show "case fs_open (src_local env) (new_hints conf) Overwrite (world s) of
        (Inl e, w) \<Rightarrow> steady (s\<lparr>world := w\<rparr>)
      | (Inr d, w) \<Rightarrow> starting (s\<lparr>world := w\<rparr>) \<and> hplace d = resolve (new_hints conf)"
    proof (cases r)
      case (Inl e)
      then show ?thesis using r o s by (simp add: starting_def steady_def)
    next
      case (Inr d)
      then have v: "view w = (view (world s))(resolve (new_hints conf) := Regular [])"
        and d: "hplace d = resolve (new_hints conf)"
        using o by simp_all
      have st: "steady (s\<lparr>world := w\<rparr>)" using steady_opened [OF _ out(1) v] s by (simp add: starting_def)
      have "writable_place (view w) (new_index conf)" using s out(4) by (simp add: starting_def writable_place_def v)
      moreover have "no_index (s\<lparr>world := w\<rparr>)" using s out(5) by (simp add: starting_def no_index_def v)
      ultimately have "starting (s\<lparr>world := w\<rparr>)" using s st by (simp add: starting_def)
      then show ?thesis using r Inr d by simp
    qed
  qed
  have set: "valid (\<lambda>s. starting s \<and> hplace d = resolve (new_hints conf))
      (\<lambda>s. (Inr (), s\<lparr>newhints := Some (File (mem_buffer (src_memory env)) d)\<rparr>)) (\<lambda>_. starting) steady" for d
    using False by (simp add: valid_def starting_def steady_def no_index_def File_def)
  show ?thesis
    unfolding start_hints_def if_P [OF False]
    by (rule valid_andThen [OF load valid_andThen [OF opens set]])
qed

text \<open>The index is opened: an empty log, and empty books.\<close>

lemma valid_open_index:
  "valid starting (in_world (fs_open (src_repo env) (new_index conf) Overwrite))
     (\<lambda>d s. log_ok {} [] (s\<lparr>index_file := Some (File (mem_buffer (src_memory env)) d)\<rparr>))
     (steady :: ('fd localfile, 'd, 'w, 'z) backing_scheme \<Rightarrow> bool)"
proof (rule valid_in_world)
  fix s :: "('fd localfile, 'd, 'w, 'z) backing_scheme"
  assume s: "starting s"
  let ?junk = "mem_buffer (src_memory env)"
  have junk: "length ?junk = BUFFER_SIZE" using memory by (simp add: memory_ok_def)
  obtain r w where r: "fs_open (src_repo env) (new_index conf) Overwrite (world s) = (r, w)" by fastforce
  have o: "case r of Inl e \<Rightarrow> view w = view (world s)
    | Inr d \<Rightarrow> place d = resolve (new_index conf) \<and> view w = (view (world s))(resolve (new_index conf) := Regular [])"
    by (rule repo.open_over [OF _ _ _ r]) (use s places_plain(1) in \<open>simp_all add: starting_def writable_place_def\<close>)
  show "case fs_open (src_repo env) (new_index conf) Overwrite (world s) of
      (Inl e, w) \<Rightarrow> steady (s\<lparr>world := w\<rparr>)
    | (Inr d, w) \<Rightarrow> log_ok {} [] ((s\<lparr>world := w\<rparr>)\<lparr>index_file := Some (File ?junk d)\<rparr>)"
  proof (cases r)
    case (Inl e)
    then show ?thesis using r o s by (simp add: starting_def steady_def)
  next
    case (Inr d)
    then have v: "view w = (view (world s))(resolve (new_index conf) := Regular [])" and d: "place d = resolve (new_index conf)"
      using o by simp_all
    let ?s = "(s\<lparr>world := w\<rparr>)\<lparr>index_file := Some (File ?junk d)\<rparr>"
    have "steady (s\<lparr>world := w\<rparr>)" using steady_opened [OF _ places_plain(2) v] s by (simp add: starting_def)
    then have st: "steady ?s" using d by (simp add: steady_def File_def)
    have ww: "with_world (File ?junk d) w = File ?junk (d, w)" by (simp add: with_world_def File_def)
    have "log_text [] ?s"
      using repo.sink.File_writer_ok [OF junk, of "(d, w)"] d
      by (simp add: log_text_def ww repo.sink.File_out_bytes)
        (simp add: File_def repo.present_def repo.contents_of_def d v)
    then have "log_text (lines_text [] @ cur_text []) ?s" by (simp add: lines_text_def cur_text_def)
    moreover have "view w (resolve (indexfile conf)) \<noteq> Regular b" if "\<not> overwrite_index conf" for b
      using that s places_plain(3) [OF that] by (auto simp: starting_def no_index_def v)
    then have "books {} {} ?s"
      using s HashSet_new_ok by (simp add: books_def settled_def starting_def)
    moreover have "good_lines {} []" "hashed {} []" by (simp_all add: good_lines_def hashed_def)
    ultimately have "log_ok {} [] ?s" using st unfolding log_ok_def by blast
    then show ?thesis using r Inr by simp
  qed
qed

section \<open>The end of the index\<close>

text \<open>The index is complete, under its first name.\<close>

definition written_index :: "path \<Rightarrow> ('fd localfile, 'd, 'w, 'z) backing_scheme \<Rightarrow> bool" where
  "written_index p s \<longleftrightarrow> steady s \<and>
     (\<exists>entries E. good_lines E entries \<and> (\<forall>h \<in> E. length h = HASH_SIZE \<and> held (view (world s)) h) \<and>
        view (world s) (resolve p) = Regular (index_text entries))"

definition closing_index :: "('fd localfile, 'd, 'w, 'z) backing_scheme \<Rightarrow> bool" where
  "closing_index s \<longleftrightarrow> written_index (new_index conf) s \<and> no_index s"

lemma stable_closing: "stable closing_index"
proof -
  have "closing_index t" if "closing_index s" "same s t" for s t :: "('fd localfile, 'd, 'w, 'e) backing_scheme"
  proof -
    have "steady t" using that stable_steady unfolding stable_def closing_index_def written_index_def by blast
    then show ?thesis using that by (simp add: closing_index_def written_index_def no_index_def same_def)
  qed
  then show ?thesis unfolding stable_def closing_index_def written_index_def by blast
qed

lemma valid_flush_index:
  "valid (\<lambda>s. steady s \<and> log_text t s \<and> books E pend s) (on_index (flush_file (src_repo env)))
     (\<lambda>_ s. steady s \<and> settled E pend (view (world s)) \<and>
        view (world s) (resolve (new_index conf)) = Regular (bytes_of_string t)) steady"
proof -
  let ?flush = "flush (file_writebytes (src_repo env)) (file_synchronize (src_repo env))"
  have frame: "keeps (repo.elsewhere k v \<circ> dev) ?flush" for k v
    by (intro keeps_flush repo.keeps_elsewhere)
  have keep: "keeps steady (on_index (flush_file (src_repo env)))"
    unfolding flush_file_def by (rule steady_on_index) (rule frame)
  show ?thesis
  proof (rule validI)
    fix s s' :: "('fd localfile, 'd, 'w, 'z) backing_scheme" and e
    assume "steady s \<and> log_text t s \<and> books E pend s" "on_index (flush_file (src_repo env)) s = (Inl e, s')"
    then show "steady s'" using keepsD [OF keep] by blast
  next
    fix s s' :: "('fd localfile, 'd, 'w, 'z) backing_scheme" and u
    assume s: "steady s \<and> log_text t s \<and> books E pend s" and r: "on_index (flush_file (src_repo env)) s = (Inr u, s')"
    then obtain f where f: "index_file s = Some f" "place (dev f) = resolve (new_index conf)"
        "repo.sink.writer_ok (with_world f (world s))" "repo.present (dev f, world s)"
        "repo.sink.out_bytes (with_world f (world s)) = bytes_of_string t"
      by (auto simp: log_text_def)
    obtain g where g: "?flush (with_world f (world s)) = (Inr u, g)"
        "s' = s\<lparr>index_file := Some (without_world g), world := snd (dev g)\<rparr>"
        "place (fst (dev g)) = place (dev f)" "\<And>j. j \<noteq> place (dev f) \<Longrightarrow> view (snd (dev g)) j = view (world s) j"
      using r unfolding flush_file_def by (elim on_index_frame [OF frame f(1)]) blast
    have "repo.present (dev g) \<and> repo.contents_of (dev g) = bytes_of_string t"
      using repo.sink.flush_ok [OF f(3), of g] g(1) f(4,5) by (simp add: with_world_def)
    then have "view (world s') (resolve (new_index conf)) = Regular (bytes_of_string t)"
      using g(2,3) f(2) by (auto simp: repo.present_def repo.contents_of_def)
    moreover have "settled E pend (view (world s'))"
      unfolding g(2) by (rule elsewhere_ok(2) [OF places_plain(2), of _ "view (world s)"])
        (use g(4) f(2) s places_plain(3) in \<open>auto simp: books_def\<close>)
    ultimately show "steady s' \<and> settled E pend (view (world s')) \<and>
        view (world s') (resolve (new_index conf)) = Regular (bytes_of_string t)"
      using keepsD [OF keep _ r] s by blast
  qed
qed

lemma valid_finish_index:
  "valid (log_ok {} []) (finish_index env) (\<lambda>_. closing_index)
     (steady :: ('fd localfile, 'd, 'w, 'z) backing_scheme \<Rightarrow> bool)"
proof -
  let ?mark = "''[end]'' @ [CHR 0x0A]"
  have close: "valid closing_index (\<lambda>s. case index_file s of
        None \<Rightarrow> (Inl (AssertFailed ''null pointer''), s)
      | Some f \<Rightarrow> in_world (delete_File (src_repo env) f (dev f)) (s\<lparr>index_file := None\<rparr>)) (\<lambda>_. closing_index)
      (steady :: ('fd localfile, 'd, 'w, 'z) backing_scheme \<Rightarrow> bool)"
  proof -
    have "closing_index (snd (case index_file s of
        None \<Rightarrow> (Inl (AssertFailed ''null pointer''), s)
      | Some f \<Rightarrow> in_world (delete_File (src_repo env) f (dev f)) (s\<lparr>index_file := None\<rparr>)))"
      if s: "closing_index s" for s :: "('fd localfile, 'd, 'w, 'z) backing_scheme"
    proof (cases "index_file s")
      case (Some f)
      have c: "closing_index (s\<lparr>index_file := None\<rparr>)"
        using s by (simp add: closing_index_def written_index_def no_index_def steady_def)
      have "same (s\<lparr>index_file := None\<rparr>) (snd (in_world (delete_File (src_repo env) f (dev f)) (s\<lparr>index_file := None\<rparr>)))"
        by (rule keepsD [OF keeps_quiet_calls(8) _ surjective_pairing]) simp
      then show ?thesis using c stable_closing Some unfolding stable_def by simp blast
    qed (use s in simp)
    then show ?thesis using stable_closing unfolding stable_def by (force intro: validI)
  qed
  have "valid (\<lambda>s. \<exists>entries E. (steady s \<and> log_text (lines_text entries) s \<and> books E {} s) \<and> good_lines E entries)
      (finish_index env) (\<lambda>_. closing_index) (steady :: ('fd localfile, 'd, 'w, 'z) backing_scheme \<Rightarrow> bool)"
  proof (rule valid_ex, rule valid_ex, rule valid_pure)
    fix entries E
    assume good: "good_lines E entries"
    have flush: "valid (\<lambda>s. steady s \<and> log_text (lines_text entries @ ?mark) s \<and> books E {} s)
        (on_index (flush_file (src_repo env))) (\<lambda>_. closing_index) (steady :: ('fd localfile, 'd, 'w, 'z) backing_scheme \<Rightarrow> bool)"
    proof (rule valid_conseq [OF valid_flush_index])
      fix s :: "('fd localfile, 'd, 'w, 'z) backing_scheme"
      assume "steady s \<and> settled E {} (view (world s)) \<and>
        view (world s) (resolve (new_index conf)) = Regular (bytes_of_string (lines_text entries @ ?mark))"
      then show "closing_index s"
        using good unfolding closing_index_def written_index_def no_index_def settled_def index_text_def lines_text_def by blast
    qed
    show "valid (\<lambda>s. steady s \<and> log_text (lines_text entries) s \<and> books E {} s) (finish_index env)
        (\<lambda>_. closing_index) (steady :: ('fd localfile, 'd, 'w, 'z) backing_scheme \<Rightarrow> bool)"
      unfolding finish_index_def by (rule valid_andThen [OF valid_put_raw], rule valid_andThen [OF flush close])
  qed
  then show ?thesis by (rule valid_pre) (auto simp: log_ok_def cur_text_def)
qed

end

end
