(* ===== verification/Backup_Result.thy ===== *)
theory Backup_Result
  imports Backup_Safety Verify Cleanup
begin

text \<open>
  The whole of \<open>do_backup\<close>: whatever its outcome the repository is sound, and when it
  returns there is an index at the name it was to have, every entry of which has its content in the
  repository.
\<close>

context backup_site
begin

section \<open>The end of the hints\<close>

lemma closing_frame:
  fixes s t :: "('fd localfile, 'd, 'w, 'z) backing_scheme"
  assumes "closing_index s" "steady t"
    and "\<And>k. at_or_below (area conf) k \<or> k = resolve (indexfile conf) \<or> k = resolve (new_index conf) \<Longrightarrow>
      view (world t) k = view (world s) k"
  shows "closing_index t"
proof -
  have "held (view (world t)) = held (view (world s))" using assms(3) in_area(1) by (simp add: held_def fun_eq_iff)
  then show ?thesis using assms unfolding closing_index_def written_index_def no_index_def by simp
qed

lemma closing_newhints:
  assumes "\<And>k v. keeps (host.elsewhere k v \<circ> dev) m"
  shows "valid closing_index (on_newhints m) (\<lambda>_. closing_index) (steady :: ('fd localfile, 'd, 'w, 'z) backing_scheme \<Rightarrow> bool)"
proof (rule valid_on_newhints [OF assms])
  fix s t :: "('fd localfile, 'd, 'w, 'z) backing_scheme" and v
  assume s: "closing_index s" and t: "steady t" "hintfile conf \<noteq> ''''"
    and v: "view (world t) = (view (world s))(resolve (new_hints conf) := v)"
  note a = hints_apart [OF t(2)]
  show "closing_index t"
    by (rule closing_frame [OF s t(1)]) (use a(1) a(4,5) in \<open>auto simp: v outside_def\<close>)
qed (simp add: closing_index_def written_index_def)

text \<open>A rename of files apart from the repository.\<close>

lemma steady_renamed:
  assumes "steady s" "outside conf p" "outside conf q"
    and "\<And>k. \<not> at_or_below (resolve p) k \<Longrightarrow> \<not> at_or_below (resolve q) k \<Longrightarrow> view w k = view (world s) k"
  shows "steady (s\<lparr>world := w\<rparr>)" "at_or_below (area conf) k \<Longrightarrow> view w k = view (world s) k"
proof -
  have area: "view w k = view (world s) k" if "at_or_below (area conf) k" for k
    using assms(4) at_or_below_comparable [OF that] assms(2,3) unfolding outside_def by blast
  then show "at_or_below (area conf) k \<Longrightarrow> view w k = view (world s) k" .
  show "steady (s\<lparr>world := w\<rparr>)" using assms(1) store_ok_area [OF _ area] by (simp add: steady_def)
qed

lemma valid_finish_hints:
  "valid (\<lambda>s. closing_index s \<and> hints s \<noteq> None) (finish_hints env (new_hints conf)) (\<lambda>_. closing_index)
     (steady :: ('fd localfile, 'd, 'w, 'z) backing_scheme \<Rightarrow> bool)"
proof (cases "hintfile conf = ''''")
  case True
  then have none: "hints s = None" if "closing_index s" for s :: "('fd localfile, 'd, 'w, 'z) backing_scheme"
    using that by (simp add: closing_index_def written_index_def steady_def hints_ok_def)
  show ?thesis by (rule validI) (erule conjE, drule none, erule (1) notE)+
next
  case False
  note a = hints_apart [OF False]
  have gone: "keeps closing_index (in_world (delete_File (src_local env) f (dev f)))" for f
  proof -
    have "closing_index t" if "closing_index s" "in_world (delete_File (src_local env) f (dev f)) s = (r, t)"
      for s t :: "('fd localfile, 'd, 'w, 'e) backing_scheme" and r
      using keepsD [OF keeps_quiet_calls(9) _ that(2), of s] that(1) stable_closing unfolding stable_def by fastforce
    then show ?thesis unfolding keeps_def by (metis prod.collapse)
  qed
  have writing: "valid closing_index (on_newhints (write_text (src_local env) t)) (\<lambda>_. closing_index)
      (steady :: ('fd localfile, 'd, 'w, 'z) backing_scheme \<Rightarrow> bool)" for t
    unfolding write_text_def by (rule closing_newhints) (intro keeps_put host.keeps_elsewhere)
  have flush: "valid closing_index (on_newhints (flush_file (src_local env))) (\<lambda>_. closing_index)
      (steady :: ('fd localfile, 'd, 'w, 'z) backing_scheme \<Rightarrow> bool)"
    unfolding flush_file_def by (rule closing_newhints) (intro keeps_flush host.keeps_elsewhere)
  have rename: "valid closing_index (in_world (fs_rename (src_local env) (new_hints conf) (hintfile conf)))
      (\<lambda>_. closing_index) (steady :: ('fd localfile, 'd, 'w, 'z) backing_scheme \<Rightarrow> bool)"
  proof -
    have "closing_index (s\<lparr>world := w\<rparr>)"
      if s: "closing_index s" and r: "fs_rename (src_local env) (new_hints conf) (hintfile conf) (world s) = (r, w)"
      for s :: "('fd localfile, 'd, 'w, 'z) backing_scheme" and r w
    proof -
      have same: "view w k = view (world s) k"
        if "\<not> at_or_below (resolve (new_hints conf)) k" "\<not> at_or_below (resolve (hintfile conf)) k" for k
        by (rule host.rename_frame [OF _ _ r that]) (use a(1,2) in \<open>simp_all add: outside_def\<close>)
      have "steady s" using s by (simp add: closing_index_def written_index_def)
      note st = steady_renamed [OF this a(1,2) same]
      have "view w k = view (world s) k" if "k = resolve (indexfile conf) \<or> k = resolve (new_index conf)" for k
        using that same a(3) by blast
      then show ?thesis 
        by (intro closing_frame [OF s st(1)]) (use st(2) in auto)
    qed
    then show ?thesis
      by (intro valid_in_world) (auto simp: closing_index_def written_index_def split: prod.split sum.split)
  qed
  have delete: "valid closing_index (\<lambda>s. case newhints s of
                 None \<Rightarrow> (Inl (AssertFailed ''null pointer''), s)
               | Some f \<Rightarrow> in_world (delete_File (src_local env) f (dev f)) s) (\<lambda>_. closing_index)
      (steady :: ('fd localfile, 'd, 'w, 'z) backing_scheme \<Rightarrow> bool)"
    by (rule valid_state_option, simp add: valid_def closing_index_def written_index_def)
      (rule valid_conseq [OF valid_keeps [OF gone]], auto simp: closing_index_def written_index_def)
  show ?thesis
    unfolding finish_hints_def
    by (rule valid_pre, rule valid_andThen [OF writing], rule valid_andThen [OF flush], rule valid_andThen [OF delete rename]) simp
qed

section \<open>The operation\<close>

text \<open>The checks at the start.\<close>

definition idle :: "('fd localfile, 'd, 'w, 'z) backing_scheme \<Rightarrow> bool" where
  "idle s \<longleftrightarrow> steady s \<and> inrepo s = None \<and> writable_place (view (world s)) (new_index conf) \<and>
     writable_place (view (world s)) (new_hints conf)"

lemma idle_before:
  assumes "before_backup env view s" "store_ok conf (view (world s))"
  shows "idle s"
  using assms by (simp add: idle_def before_backup_def steady_def hints_ok_def)

lemma valid_index_exists:
  "valid idle (if overwrite_index conf then ret False else in_world (fs_exists (src_repo env) (indexfile conf)))
     (\<lambda>found s. idle s \<and> (\<not> found \<longrightarrow> no_index s)) (steady :: ('fd localfile, 'd, 'w, 'z) backing_scheme \<Rightarrow> bool)"
proof (cases "overwrite_index conf")
  case True
  then show ?thesis by (simp add: valid_def no_index_def)
next
  case False
  have plain: "plain_path (indexfile conf)" using outside_indexfile by (simp add: outside_def)
  show ?thesis
    unfolding if_not_P [OF False]
  proof (rule valid_in_world)
    fix s :: "('fd localfile, 'd, 'w, 'z) backing_scheme"
    assume s: "idle s"
    obtain r w where r: "fs_exists (src_repo env) (indexfile conf) (world s) = (r, w)" by fastforce
    have v: "view w = view (world s)" using repo.exists_frame [of "indexfile conf" "world s"] r by simp
    have i: "idle (s\<lparr>world := w\<rparr>)" using s by (simp add: idle_def steady_def v)
    have "no_index (s\<lparr>world := w\<rparr>)" if "r = Inr False"
      using repo.exists_false [OF plain r [unfolded that]] by (auto simp: no_index_def v)
    then show "case fs_exists (src_repo env) (indexfile conf) (world s) of
        (Inl e, w) \<Rightarrow> steady (s\<lparr>world := w\<rparr>)
      | (Inr found, w) \<Rightarrow> idle (s\<lparr>world := w\<rparr>) \<and> (\<not> found \<longrightarrow> no_index (s\<lparr>world := w\<rparr>))"
      using i by (cases r) (auto simp: r idle_def)
  qed
qed

text \<open>The new index gets its name.\<close>

lemma valid_name_index:
  assumes "\<not> overwrite_index conf"
  shows "valid closing_index (in_world (fs_rename (src_repo env) (new_index conf) (indexfile conf)))
     (\<lambda>_. written_index (indexfile conf)) (steady :: ('fd localfile, 'd, 'w, 'z) backing_scheme \<Rightarrow> bool)"
proof (rule valid_in_world)
  fix s :: "('fd localfile, 'd, 'w, 'z) backing_scheme"
  assume s: "closing_index s"
  obtain entries E where e: "good_lines E entries" "\<And>h. h \<in> E \<Longrightarrow> length h = HASH_SIZE \<and> held (view (world s)) h"
      "view (world s) (resolve (new_index conf)) = Regular (index_text entries)"
    using s unfolding closing_index_def written_index_def by blast
  note apart = places_plain(1,2) outside_indexfile places_plain(3) [OF assms]
  have plain: "plain_path (indexfile conf)" and ne: "resolve (new_index conf) \<noteq> resolve (indexfile conf)"
    using apart by (simp_all add: outside_def)
  have old: "\<forall>b. view (world s) (resolve (indexfile conf)) \<noteq> Regular b"
    using s assms by (simp add: closing_index_def no_index_def)
  obtain r w where r: "fs_rename (src_repo env) (new_index conf) (indexfile conf) (world s) = (r, w)" by fastforce
  have "steady s" using s by (simp add: closing_index_def written_index_def)
  have frame: "view w k = view (world s) k"
    if "\<not> at_or_below (resolve (new_index conf)) k" "\<not> at_or_below (resolve (indexfile conf)) k" for k
    by (rule repo.rename_frame [OF apart(1) plain r that])
  have st: "steady (s\<lparr>world := w\<rparr>)" and area: "\<And>k. at_or_below (area conf) k \<Longrightarrow> view w k = view (world s) k"
    by (rule steady_renamed [OF \<open>steady s\<close> apart(2,3) frame]; assumption)+
  have "held (view w) h" if "held (view (world s)) h" for h using that area [OF in_area(1)] by (simp add: held_def)
  moreover have "view w (resolve (indexfile conf)) = Regular (index_text entries)" if "r = Inr ()"
    using repo.rename_file [OF apart(1) plain ne e(3) old r [unfolded that]] by simp
  ultimately have "written_index (indexfile conf) (s\<lparr>world := w\<rparr>)" if "r = Inr ()"
    using that st e(1,2) unfolding written_index_def by (auto intro!: exI)
  then show "case fs_rename (src_repo env) (new_index conf) (indexfile conf) (world s) of
      (Inl e, w) \<Rightarrow> steady (s\<lparr>world := w\<rparr>) | (Inr x, w) \<Rightarrow> written_index (indexfile conf) (s\<lparr>world := w\<rparr>)"
    using st by (cases r) (simp_all add: r)
qed

lemma fatal_steady:
  fixes P :: "('fd localfile, 'd, 'w, 'z) backing_scheme \<Rightarrow> bool"
  shows "(\<And>s. P s \<Longrightarrow> steady s) \<Longrightarrow> valid P (fatal msg) Q steady"
  by (simp add: valid_def fatal_def)

lemma valid_do_backup:
  "valid (\<lambda>s. before_backup env view s \<and> store_ok conf (view (world s))) (do_backup env fuel)
     (\<lambda>_. written_index (indexfile conf)) (steady :: ('fd localfile, 'd, 'w, 'z) backing_scheme \<Rightarrow> bool)"
proof -
  let ?W = "\<lambda>_. written_index (indexfile conf) :: ('fd localfile, 'd, 'w, 'z) backing_scheme \<Rightarrow> bool"
  have idle: "steady s" if "idle s" for s :: "('fd localfile, 'd, 'w, 'z) backing_scheme"
    using that by (simp add: idle_def)
  have hints: "valid closing_index (\<lambda>s. if hints s \<noteq> None then finish_hints env (new_hints conf) s else (Inr (), s))
      (\<lambda>_. closing_index) (steady :: ('fd localfile, 'd, 'w, 'z) backing_scheme \<Rightarrow> bool)"
    using valid_finish_hints unfolding valid_def by auto
  have name: "valid closing_index
      (if \<not> overwrite_index conf then in_world (fs_rename (src_repo env) (new_index conf) (indexfile conf)) else ret ()) ?W steady"
  proof (cases "overwrite_index conf")
    case True
    then show ?thesis by (simp add: valid_def closing_index_def new_index_def)
  qed (simp add: valid_name_index)
  have start: "valid (\<lambda>s. idle s \<and> no_index s)
      (\<lambda>s. start_hints env (new_hints conf) (if inrepo s = None then s\<lparr>inrepo := Some HashSet_new\<rparr> else s))
      (\<lambda>_. starting) steady"
    by (rule valid_update [OF valid_start_hints]) (simp add: idle_def starting_def no_index_def steady_def)
  have rest: "valid (\<lambda>s. idle s \<and> no_index s)
     (andThen (\<lambda>s. start_hints env (new_hints conf) (if inrepo s = None then s\<lparr>inrepo := Some HashSet_new\<rparr> else s))
       (\<lambda>_. andThen (in_world (fs_open (src_repo env) (new_index conf) Overwrite))
          (\<lambda>d. andThen (\<lambda>s. backup_dir env (root conf) fuel ''.''
                    (s\<lparr>index_file := Some (File (mem_buffer (src_memory env)) d)\<rparr>))
             (\<lambda>_. andThen (finish_index env)
                (\<lambda>_. andThen (\<lambda>s. if hints s \<noteq> None then finish_hints env (new_hints conf) s else (Inr (), s))
                   (\<lambda>_. if \<not> overwrite_index conf
                      then in_world (fs_rename (src_repo env) (new_index conf) (indexfile conf)) else ret ())))))) ?W steady"
    by (rule valid_andThen [OF start], rule valid_andThen [OF valid_open_index],
      rule valid_andThen [OF valid_update [OF valid_backup_dir]], assumption,
      rule valid_andThen [OF valid_finish_index], rule valid_andThen [OF hints name])
  have "valid idle (do_backup env fuel) ?W steady"
    unfolding do_backup_def Let_def new_index_def [symmetric] new_hints_def [symmetric]
    by (intro valid_if fatal_steady valid_throw idle, assumption+)
      (rule valid_andThen [OF valid_index_exists],
        intro valid_if fatal_steady valid_pre [OF rest], (blast intro: idle)+)
  then show ?thesis by (rule valid_pre) (simp add: idle_before)
qed

section \<open>What it promises\<close>

lemma site_paths: "plain_path (repo conf)" "plain_path (indexfile conf)"
  using repo_plain outside_indexfile by (simp_all add: outside_def)

lemma do_backup_keeps_store:
  assumes "before_backup env view s" "store_ok conf (view (world s))"
  shows "store_ok conf (view (world (snd (do_backup env fuel s))))"
proof -
  have "steady (snd (do_backup env fuel s))"
    by (rule valid_any [OF valid_do_backup conjI [OF assms]]) (simp_all add: written_index_def)
  then show ?thesis by (simp add: steady_def)
qed

text \<open>The entries of the index, as a reader of it gets them.\<close>

lemma entry_of_line:
  assumes "complete kvs" "hashed E kvs" "\<forall>h \<in> E. length h = HASH_SIZE \<and> held v h"
  shows "kvs \<noteq> []" "readable_entry (map_of (rev kvs))" "all_hashable v \<Longrightarrow> sound_entry conf v (map_of (rev kvs))"
proof -
  let ?l = "map_of kvs"
  have l: "map_of (rev kvs) = ?l" using assms(1) by (simp add: complete_def map_of_rev)
  show "kvs \<noteq> []" using assms(1) by (auto simp: complete_def)
  have hash: "\<exists>h \<in> E. hash_of_text t = Some h" if "?l HASH_NAME = Some t" for t
  proof -
    from map_of_SomeD [OF that] obtain h where "h \<in> E" "t = hexencode h" using assms(2) by (auto simp: hashed_def)
    then show ?thesis using assms(3) hex.decode_encode by blast
  qed
  show "readable_entry (map_of (rev kvs))"
    unfolding l using hash by (fastforce simp: readable_entry_def entry_hash_def)
  have "?l ''type'' \<noteq> None \<or> ?l ''data'' \<noteq> None \<or> ?l HASH_NAME \<noteq> None"
    using assms(1) by (auto simp: complete_def map_of_eq_None_iff)
  moreover have "sound_entry conf v ?l" if "?l HASH_NAME = Some t" "all_hashable v" for t
  proof -
    from hash [OF that(1)] obtain h where h: "h \<in> E" "hash_of_text t = Some h" by blast
    then have "stored conf v h" using assms(3) that(2) unfolding stored_def held_def all_hashable_def by metis
    then show ?thesis using h(2) that(1) by (simp add: sound_entry_def entry_hash_def)
  qed
  ultimately show "all_hashable v \<Longrightarrow> sound_entry conf v (map_of (rev kvs))"
    unfolding l by (auto simp: sound_entry_def)
qed

lemma do_backup_complete:
  assumes "before_backup env view s" "store_ok conf (view (world s))" "do_backup env fuel s = (Inr (), s')"
  shows "\<exists>bs ls. view (world s') (resolve (indexfile conf)) = Regular bs \<and> index_details bs = Some ls \<and>
    (\<forall>l \<in> set ls. readable_entry l \<and> (all_hashable (view (world s')) \<longrightarrow> sound_entry conf (view (world s')) l))"
proof -
  obtain entries E where e: "good_lines E entries" "\<forall>h \<in> E. length h = HASH_SIZE \<and> held (view (world s')) h"
      "view (world s') (resolve (indexfile conf)) = Regular (index_text entries)"
    using validD [OF valid_do_backup conjI [OF assms(1,2)] assms(3)] by (auto simp: written_index_def)
  note line = entry_of_line [OF _ _ e(2)]
  have good: "complete kvs \<and> hashed E kvs" if "kvs \<in> set entries" for kvs
    using e(1) that by (simp add: good_lines_def)
  have "index_details (index_text entries) = Some (map (\<lambda>kvs. map_of (rev kvs)) entries)"
    by (rule index_details_text) (use line(1) good in blast)
  moreover have "\<forall>l \<in> set (map (\<lambda>kvs. map_of (rev kvs)) entries). readable_entry l \<and>
      (all_hashable (view (world s')) \<longrightarrow> sound_entry conf (view (world s')) l)"
    using line(2,3) good by auto
  ultimately show ?thesis using e(3) by blast
qed

end

end
