(* ===== verification/Sample_Backup.thy ===== *)
theory Sample_Backup
  imports Sample_Libs Backup_Result "HOL-Library.Code_Target_Nat"
begin

text \<open>
  Backups on the kernel of theory Kernel, of local files into a repository at \<open>/r\<close> of the
  same disk, with the index at \<open>/j\<close> and the hints at \<open>/h\<close>: the interface \<open>backup_site\<close>
  holds for all of them.
\<close>

definition disk_source ::
  "options \<Rightarrow> nat option \<Rightarrow> bytes \<Rightarrow> accounts \<Rightarrow> ('re, 'extra) pcre \<Rightarrow> ('re, 'extra) exclusion list \<Rightarrow> libc \<Rightarrow>
     ('re, 'extra, ofd, ofd localfile, disk) source" where
  "disk_source opts rlim beyond db lib xs texts =
     \<lparr>src_conf = opts\<lparr>repo := ''/r'', indexfile := ''/j'', hintfile := ''/h'', recheckhash := True\<rparr>,
      src_sys = disk_posix rlim None,
      src_local = LocalFilesystem (disk_posix rlim None) beyond,
      src_repo = LocalFilesystem (disk_posix rlim None) beyond,
      src_accounts = db, src_pcre = lib, src_exclusions = xs, src_libc = texts, src_memory = sample_memory\<rparr>"

lemma disk_change_state [simp]: "snd (disk_change s w) = w"
  by (simp add: disk_change_def split: sum.split)

lemma disk_reads_quiet:
  "snd (fs_open (LocalFilesystem (disk_posix rlim wlim) beyond) p ReadOnly w) = w"
  "snd (fs_contents (LocalFilesystem (disk_posix rlim wlim) beyond) p w) = w"
  "snd (fs_ismount (LocalFilesystem (disk_posix rlim wlim) beyond) p w) = w"
  "snd (fs_readlink (LocalFilesystem (disk_posix rlim wlim) beyond) p w) = w"
  "snd (disk_open s O_RDONLY w) = w"
proof -
  show o: "snd (disk_open s O_RDONLY w) = w" for s
    by (simp add: disk_open_def Let_def split: option.split node.split)
  show "snd (fs_open (LocalFilesystem (disk_posix rlim wlim) beyond) p ReadOnly w) = w"
    using o [of "c_str p"] by (auto simp: LocalFilesystem_simps disk_posix_def checked_def split: prod.split sum.split)
  show "snd (fs_contents (LocalFilesystem (disk_posix rlim wlim) beyond) p w) = w"
    by (simp add: LocalFilesystem_simps split: sum.split prod.split)
  show "snd (fs_ismount (LocalFilesystem (disk_posix rlim wlim) beyond) p w) = w"
    by (simp add: LocalFilesystem_def LocalFilesystem_ismount_def Let_def split: sum.split)
  show "snd (fs_readlink (LocalFilesystem (disk_posix rlim wlim) beyond) p w) = w"
    by (simp add: LocalFilesystem_def LocalFilesystem_readlink_def split: sum.split)
qed

lemma backup_root: "resolve ''/r'' = (True, [''r''])"
  using sample_paths(5) by simp

lemma backup_paths:
  "plain_path ''/j.tmp'' \<and> resolve ''/j.tmp'' = (True, [''j.tmp''])" "plain_path ''/j'' \<and> resolve ''/j'' = (True, [''j''])"
  "plain_path ''/h'' \<and> resolve ''/h'' = (True, [''h''])" "plain_path ''/h.tmp'' \<and> resolve ''/h.tmp'' = (True, [''h.tmp''])"
proof -
  have "components ''/j.tmp'' = [''j.tmp'']" "components ''/j'' = [''j'']" "components ''/h'' = [''h'']"
    "components ''/h.tmp'' = [''h.tmp'']"
    by code_simp+
  then show "plain_path ''/j.tmp'' \<and> resolve ''/j.tmp'' = (True, [''j.tmp''])"
    "plain_path ''/j'' \<and> resolve ''/j'' = (True, [''j''])" "plain_path ''/h'' \<and> resolve ''/h'' = (True, [''h''])"
    "plain_path ''/h.tmp'' \<and> resolve ''/h.tmp'' = (True, [''h.tmp''])"
    by (simp_all add: plain_path_def resolve_def)
qed

lemma disk_apart: "apart_files (opts\<lparr>repo := ''/r'', indexfile := ''/j'', hintfile := ''/h'', recheckhash := True\<rparr>)"
  using backup_paths
  by (simp add: apart_files_def outside_def new_index_def new_hints_def area_def backup_root at_or_below_def)

interpretation disk_backup: backup_site "disk_source opts rlim beyond db lib xs texts" disk_view
    "\<lambda>file. of_place (snd file)" "\<lambda>file. of_place (snd file)" "\<lambda>file. of_left (snd file)"
  for opts :: options and rlim :: "nat option" and beyond :: bytes and db :: accounts
    and lib :: "('re, 'extra) pcre" and xs :: "('re, 'extra) exclusion list" and texts :: libc
proof -
  let ?env = "disk_source opts rlim beyond db lib xs texts :: ('re, 'extra, ofd, ofd localfile, disk) source"
  have fs: "src_repo ?env = LocalFilesystem (disk_posix rlim None) beyond"
    "src_local ?env = LocalFilesystem (disk_posix rlim None) beyond" "src_sys ?env = disk_posix rlim None"
    "src_conf ?env = opts\<lparr>repo := ''/r'', indexfile := ''/j'', hintfile := ''/h'', recheckhash := True\<rparr>" "src_memory ?env = sample_memory"
    by (simp_all add: disk_source_def)
  have rb: "file_readbytes (src_local ?env) = LocalFile_readbytes (disk_posix rlim None)"
    by (simp add: fs LocalFilesystem_def)
  show "backup_site ?env disk_view (\<lambda>file. of_place (snd file)) (\<lambda>file. of_place (snd file)) (\<lambda>file. of_left (snd file))"
  proof (intro backup_site.intro backup_site_axioms.intro)
    show "writable_store (src_repo ?env) disk_view (\<lambda>file. of_place (snd file))"
      "writable_store (src_local ?env) disk_view (\<lambda>file. of_place (snd file))"
      unfolding fs by (rule local_store.writable_store_axioms)+
    show "byte_source (file_readbytes (src_local ?env)) (\<lambda>file. of_left (snd file))"
      unfolding rb by (rule local_reads.byte_source_axioms)
    show "plain_path (repo (src_conf ?env))" using sample_paths(1) by (simp add: fs)
    show "apart_files (src_conf ?env)" unfolding fs by (rule disk_apart)
    show "memory_ok (src_memory ?env)" using sample_memory_ok by (simp add: fs)
  qed (simp_all add: fs disk_reads_quiet, simp_all add: disk_posix_def disk_reads_quiet)
qed

section \<open>A backup of the sample disk\<close>

definition backup_opts :: options where
  "backup_opts = initial_options\<lparr>root := ''/w''\<rparr>"

definition sample_source :: "(string, unit, ofd, ofd localfile, disk) source" where
  "sample_source = disk_source backup_opts (Some 0) [] sample_accounts sample_pcre [] sample_libc"

definition fresh_disk :: disk where
  "fresh_disk = \<lparr>nodes =
     [((True, [''r'']), DirNode), ((True, [''w'']), DirNode), ((True, [''w'', ''d'']), DirNode),
      ((True, [''w'', ''f'']), FileNode [1, 2, 3])]\<rparr>"

definition initial_backing :: "'w \<Rightarrow> (ofd localfile, ofd localfile, 'w) backing" where
  "initial_backing w =
     \<lparr>errors = 0, warnings = 0, stderr_lines = [], world = w, stdout_lines = [],
      hash_mmap = 0, hash_read = 0, total_regular_files = 0, total_dirs = 0, total_links = 0,
      total_devs = 0, total_socks = 0, total_hardlinks = 0, unknown_files = 0, new_hashes = 0,
      small_files = 0, hints_used = 0, uid2names = Map.empty, gid2names = Map.empty,
      names2uid = Map.empty, names2gid = Map.empty, hints = None, newhints = None, inrepo = None,
      index_file = None\<rparr>"

lemma fresh_view:
  "disk_view fresh_disk k = Regular bs \<Longrightarrow> k = (True, [''w'', ''f''])" "disk_view fresh_disk k \<noteq> Symlink"
  "disk_view fresh_disk k \<noteq> Special"
  by (auto simp: fresh_disk_def disk_view_def entry_of_eq node_at_def split: if_splits)

lemma backup_conf:
  "src_conf sample_source = backup_opts\<lparr>repo := ''/r'', indexfile := ''/j'', hintfile := ''/h'', recheckhash := True\<rparr>"
  "repo (src_conf sample_source) = ''/r''"
  by (simp_all add: sample_source_def disk_source_def)

lemma fresh_store: "store_ok (src_conf sample_source) (disk_view fresh_disk)"
proof -
  have "disk_view fresh_disk (hash_place (src_conf sample_source) h) = Absent" for h
    by (simp add: disk_view_def fresh_disk_def node_at_def hash_place_def backup_conf backup_root)
  then show ?thesis using fresh_view by (simp add: store_ok_defs)
qed

lemma fresh_before: "before_backup sample_source disk_view (initial_backing fresh_disk)"
  using fresh_view by (simp add: before_backup_def initial_backing_def writable_place_def)

lemma sample_site:
  "backup_site sample_source disk_view (\<lambda>file. of_place (snd file)) (\<lambda>file. of_place (snd file)) (\<lambda>file. of_left (snd file))"
  unfolding sample_source_def by (rule disk_backup.backup_site_axioms)

section \<open>Its outcome\<close>

text \<open>
  Equations to compute with: a text that fits in the buffer is put there at once, and the recursion
  of \<open>hexdecode\<close> by cases of its text. Only the first bytes of the buffer are written out.
\<close>

lemma hexdecode_loop_code [code]:
  "hexdecode_loop n s bytes =
     (case s of x # y # rest \<Rightarrow>
        if n = 0 then Inr bytes
        else
          (case hexdigit x of
             Inl e \<Rightarrow> Inl e
           | Inr d \<Rightarrow>
               (case hexdigit y of
                  Inl e \<Rightarrow> Inl e
                | Inr d' \<Rightarrow> hexdecode_loop (n - 1) rest (bytes @ [char_of (d * 16 + d')])))
      | _ \<Rightarrow> Inr bytes)"
  by (cases n) (auto simp: Let_def split: list.split sum.split)

lemma put_code [code]:
  "put writebytes synchronize s f =
     (if next_pos f + length s \<le> top_pos f \<and> length (take (next_pos f + length s) (buffer f)) = next_pos f + length s
      then (Inr (), f\<lparr>buffer := take (next_pos f) (buffer f) @ s @ drop (next_pos f + length s) (buffer f),
             next_pos := next_pos f + length s\<rparr>)
      else (case s of [] \<Rightarrow> (Inr (), f)
        | c # s' \<Rightarrow> andThen (put_byte writebytes synchronize c) (\<lambda>_. put writebytes synchronize s') f))"
proof -
  have "put writebytes synchronize s f = (Inr (), f\<lparr>buffer := take (next_pos f) (buffer f) @ s @ drop (next_pos f + length s) (buffer f),
             next_pos := next_pos f + length s\<rparr>)"
    if "next_pos f + length s \<le> top_pos f" "next_pos f + length s \<le> length (buffer f)"
    using that
  proof (induction s arbitrary: f)
    case (Cons c s)
    have "take (Suc n) (g[n := c]) @ s @ drop (Suc (n + length s)) (g[n := c]) = take n g @ c # s @ drop (Suc (n + length s)) g"
      if "n < length g" for n and g :: bytes
      using that by (simp add: take_Suc_conv_app_nth)
    then show ?case using Cons by (simp add: put_byte_def andThen_def)
  qed simp
  then show ?thesis by (cases s) auto
qed

definition sample_source_with :: "bytes \<Rightarrow> (string, unit, ofd, ofd localfile, disk) source" where
  "sample_source_with rest =
     \<lparr>src_conf = backup_opts\<lparr>repo := ''/r'', indexfile := ''/j'', hintfile := ''/h'', recheckhash := True\<rparr>,
      src_sys = disk_posix (Some 0) None,
      src_local = LocalFilesystem (disk_posix (Some 0) None) [],
      src_repo = LocalFilesystem (disk_posix (Some 0) None) [],
      src_accounts = sample_accounts, src_pcre = sample_pcre, src_exclusions = [], src_libc = sample_libc,
      src_memory = \<lparr>mem_context = \<lparr>Intermediate_Hash = [], Length_Low = 0, Length_High = 0, Message_Block_Index = 0,
          Message_Block = replicate 64 7, Computed = True, Corrupted = 3\<rparr>,
        mem_buffer = replicate 320 9 @ rest\<rparr>\<rparr>"

lemma sample_source_eq: "sample_source = sample_source_with (replicate 3776 9)"
  by (simp add: sample_source_def disk_source_def sample_source_with_def sample_memory_def BUFFER_SIZE_def
      flip: replicate_add)

definition backed_up :: "exn + unit \<Rightarrow> (ofd localfile, ofd localfile, disk) backing \<Rightarrow> bool" where
  "backed_up r s \<longleftrightarrow> r = Inr () \<and>
     list_all (\<lambda>(k, n). case n of FileNode bs \<Rightarrow> length bs \<le> 1000 | _ \<Rightarrow> True) (nodes (world s))"

lemma sample_backed_up: "case do_backup (sample_source_with g) 3 (initial_backing fresh_disk) of (r, s) \<Rightarrow> backed_up r s"
  by code_simp

definition after_backup :: "(ofd localfile, ofd localfile, disk) backing" where
  "after_backup = snd (do_backup sample_source 3 (initial_backing fresh_disk))"

lemma sample_backup_returns: "do_backup sample_source 3 (initial_backing fresh_disk) = (Inr (), after_backup)"
  "backed_up (Inr ()) after_backup"
  using sample_backed_up [of "replicate 3776 9"]
  by (auto simp: after_backup_def sample_source_eq backed_up_def split: prod.splits)

lemma disk_view_node: "disk_view w k = Regular bs \<Longrightarrow> (k, FileNode bs) \<in> set (nodes w)"
  by (auto simp: disk_view_def entry_of_eq node_at_def dest: map_of_SomeD split: if_splits)

lemma sample_backup_hashable: "all_hashable (disk_view (world after_backup))"
proof -
  have "sha1_fits bs" if "disk_view (world after_backup) k = Regular bs" for k bs
    using sample_backup_returns(2) disk_view_node [OF that]
    by (fastforce simp: backed_up_def list_all_iff sha1_fits_def)
  then show ?thesis by (simp add: all_hashable_def)
qed

end
