(* ===== verification/Spec2Isabelle.thy ===== *)
theory Spec2Isabelle
  imports Sample_Libs Sample_Net Sample_Backup
begin

text \<open>
  hbackup (program nhbackup): a verification of the backup program of Richard Kettlewell.

  The program. nhbackup keeps a repository of file contents, named by their SHA-1, and index files,
  one per backup, with a line for every file backed up (nhbackup.1, README). Its operations are
  backup (backup.cc), restore (restore.cc), verification of an index against the repository
  (verify.cc) and cleanup of contents that no index needs (cleanup.cc); main (nhbackup.cc) parses the
  options and runs one of them. They work on the abstract class Filesystem (nhbackup.h,
  filesystem.cc), of which there are a local (local.cc) and a remote (sftp.cc) implementation, through
  buffered files (file.cc), with the hashes of sha1.c and hash.cc and the text functions of utils.cc.

  How the code is modelled. A function of the program is a function (state, value) prog of theory
  Prelude: from a state to a result, which is Inr a value or Inl an exception (datatype exn:
  every exception class of exceptions.cc, Fatal for fatal(), AssertFailed for a failed assert,
  OutOfRange and LengthError for those of the standard library, Diverges for not returning), and the
  state it leaves, so that errors keep their effects. andThen is sequencing, catching is try/catch.
  Records hold the variables of the program: globals (counters, lines written to standard error, and
  the outside world, whose type is a parameter), extended by those of backup (backing), of the name
  caches (caches) and of the SFTP client (sftp). Loops that may not end are partial_function (option)
  with None for not returning; recursion over directories takes fuel, where 0 is Diverges, and the
  theorems say how much is enough (more than the depth of the tree). Fixed-width integers are words.
  C strings end at the first NUL (c_str). Uninitialised memory is an argument (memory).

  The theories, with what they model and what they show:
    Prelude, Globals      programs, bytes and texts; diagnostics (utils.cc, globals.cc, exceptions.cc)
    Hex, Urlcode          hexadecimal text, hash paths, URL encoding (utils.cc): round trips, exactness
    FileIO                class File (file.cc) over the interfaces byte_source, reliable_source and
                          byte_sink: buffering is invisible, loops end
    Filesystem, LocalFs   class Filesystem with makedirs (file.cc, filesystem.cc); local.cc over the
                          system calls; the interfaces directories, file_store, directory_store
    IndexLine             index lines (utils.cc): reading refines the text, round trip
    Sha1, Sha1_Spec       sha1.c, and FIPS 180 as its reference
    Hashing, HashSet      hash.cc: streaming and memory-mapped hashing agree; the hash table is a set
    Repository            where the file with a hash is kept
    Verify, Cleanup       verify.cc, cleanup.cc: what they report and remove, exactly
    Users, Numbers        the caches of user and group names (utils.cc), numbers in the index
    Exclude, Recode       exclude.cc over PCRE, recode.cc over iconv
    Backup, Restore       backup.cc, restore.cc; Roundtrip: what is written in an index is read back
    Nhbackup              main, the options with getopt_long, the reports and the exit status
    Hoare, Store          rules for programs with exceptions; the interface writable_store (what each call
                          of a file system may change) and the invariant of the repository
    Backup_Site,          do_backup as a whole: Backup_Site has the interface backup_site, the log (the text
    Backup_Entries,       of the index so far) and the books (the hashes that are held or wait to be stored),
    Backup_Store,         Backup_Entries the entries of a directory, Backup_Store the copies into the
    Backup_Safety,        repository, Backup_Safety the recursion, the start and the end of the index, and
    Backup_Result         Backup_Result the outcome: a sound repository always, a complete index on return
    Packets, Sftp,        sftp.cc: packets, connection, operations and files; Sftp_Spec refines replies
    Sftp_Ops, Sftp_Spec,  to an abstract mailbox, Sftp_Invariant has the invariant and its preservation
    Sftp_Invariant        by every operation
    Kernel, Sample,       a kernel with a tree of files, on which the interfaces are interpreted for
    Sample_Libs,          LocalFilesystem, the account data, PCRE and iconv of the witnesses, pipes with any
    Sample_Net,           server behind them, and backups of one disk into a repository on it, with one
    Sample_Backup         that is computed

  Assumptions. The interfaces (locales) state documented behaviour: read returns a prefix of what is
  left and nothing only at its end; places of a file system are not aliases of each other; a file
  system call changes only the place it is given (and what is below it, for a rename); a write that
  returns has written its bytes (LocalFile::writebytes keeps this where write(2) is not short; where
  it is, see short_write_garbage); iconv
  consumes whole characters; a PCRE match has no effect; account data is consistent. Verification,
  cleanup, backup and restore are stated over file systems whose reads do not change the outside; the
  SFTP client, whose reads do, is modelled on its own. The theorems on do_backup are for backups with
  --recheck-hash (the default), with the index and the hints outside the repository's hash directory. Function arguments with effects are evaluated
  in the order of the text; puts and fclose on standard error do not fail; destructors that throw are
  modelled as throwing. The buffer size (4096), the limit for contents in the index (256), the window
  of mmap and the length of the read queue (8) are those of the code.

  Not modelled: speedtest.cc (measures time only), the test programs, scripts and packaging; the error
  messages of getopt_long; the child side of fork in the SFTP client; signal handling.
\<close>

section \<open>Backup\<close>

text \<open>
  C1. Backup, then verify: when do_backup returns, do_verify of the index it wrote, over the same
  repository, returns, reports no error and removes nothing, whatever buffer it reads with and
  even with --detect-bogus.
\<close>

theorem backup_verifies:
  fixes s s' :: "('fd localfile, 'd, 'w, 'z) backing_scheme" and g :: "('w, 'y) globals_scheme"
  assumes "backup_site env view place hplace remaining" "file_store (src_repo env) unread view"
    and "before_backup env view s" "store_ok (src_conf env) (view (world s))"
    and "do_backup env fuel s = (Inr (), s')" "all_hashable (view (world s'))"
    and "memory_ok mem" "world g = world s'"
  shows "\<exists>g'. do_verify sys (src_repo env) mem ((src_conf env)\<lparr>root := ''''\<rparr>) g = (Inr (), g') \<and>
    errors g' = errors g \<and> view (world g') = view (world g)"
proof -
  note site = assms(1)
  let ?opts = "(src_conf env)\<lparr>root := ''''\<rparr>"
  obtain bs ls where i: "view (world s') (resolve (indexfile (src_conf env))) = Regular bs" "index_details bs = Some ls"
      "\<forall>l \<in> set ls. readable_entry l \<and> sound_entry (src_conf env) (view (world s')) l"
    using backup_site.do_backup_complete [OF site assms(3-5)] assms(6) by blast
  have opts: "sound_entry ?opts files l = sound_entry (src_conf env) files l" for files l
    by (simp add: sound_entry_def stored_def hash_place_def)
  have fits: "sha1_fits b" if "view (world g) k = Regular b" for k b
    using that assms(6,8) unfolding all_hashable_def by metis
  show ?thesis
    by (rule file_store.do_verify_sound [OF assms(2,7) _ _ _ _ i(2) _ fits])
      (use backup_site.site_paths [OF site] i opts assms(8) in simp_all)
qed

theorem backup_verifies_witness:
  "\<exists>g'. do_verify (disk_posix (Some 2) None) (src_repo sample_source) sample_memory
      ((src_conf sample_source)\<lparr>root := ''''\<rparr>) (initial_globals (world after_backup)) = (Inr (), g') \<and>
    errors g' = 0 \<and> disk_view (world g') = disk_view (world after_backup)"
  using backup_verifies [OF sample_site _ fresh_before _ sample_backup_returns(1) sample_backup_hashable sample_memory_ok,
      of _ "initial_globals (world after_backup)" "disk_posix (Some 2) None"]
    local_files.file_store_axioms [of "Some 0" None "[]"] fresh_store
  by (simp add: initial_globals_def initial_backing_def sample_source_def disk_source_def)

text \<open>
  C2. Whatever its outcome (return, failed call, exception in the middle of a file), do_backup
  leaves the repository sound: every file below the hash directory whose name is a hash has
  contents with that hash. A copy gets its name only after the copied bytes have been hashed
  again.
\<close>

theorem backup_keeps_store:
  fixes s :: "('fd localfile, 'd, 'w, 'z) backing_scheme"
  assumes "backup_site env view place hplace remaining"
    and "before_backup env view s" "store_ok (src_conf env) (view (world s))"
  shows "store_ok (src_conf env) (view (world (snd (do_backup env fuel s))))"
  by (rule backup_site.do_backup_keeps_store [OF assms])

theorem backup_keeps_store_witness:
  "store_ok (src_conf sample_source)
     (disk_view (world (snd (do_backup sample_source 3 (initial_backing fresh_disk)))))"
  using backup_keeps_store [OF sample_site fresh_before, of 3] fresh_store by (simp add: initial_backing_def)



section \<open>Verification of a repository\<close>

text \<open>
  C4. On a file system that keeps its contract, do_verify of an index that can be read returns
  normally, counts exactly one error for every entry that is not sound (no hash, file missing, or
  contents with another hash) and changes nothing; with --detect-bogus it removes exactly the
  files whose contents do not have the hash of their name.
\<close>

theorem do_verify_correct:
  fixes s :: "('w, 'z) globals_scheme"
  assumes "file_store fs remaining view" and "memory_ok mem"
    and "plain_path (repo opts)" "root opts = ''''" "plain_path (indexfile opts)"
    and "view (world s) (resolve (indexfile opts)) = Regular bs" "index_details bs = Some ls"
    and "\<forall>l \<in> set ls. readable_entry l" "sane_store opts (view (world s))"
  shows "\<exists>s'. do_verify sys fs mem opts s = (Inr (), s') \<and>
    errors s' = errors s + length (filter (\<lambda>l. \<not> sound_entry opts (view (world s)) l) ls) \<and>
    view (world s') = without (view (world s))
      (if detectbogus opts then bad_places opts (view (world s)) ls else {})"
  by (rule file_store.do_verify_ok [OF assms])

theorem do_verify_correct_witness:
  "\<exists>s'. do_verify (disk_posix (Some 2) None) (LocalFilesystem (disk_posix (Some 2) None) []) sample_memory
      sample_opts (initial_globals sample_disk) = (Inr (), s') \<and>
    errors s' = 1 \<and> disk_view (world s') = disk_view sample_disk"
  using do_verify_correct [OF local_files.file_store_axioms sample_memory_ok sample_paths(1,3,2) _
      sample_details sample_readable, where s = "initial_globals sample_disk"]
    sample_index sample_sane sample_unsound sample_paths
  by simp

text \<open>
  C5. An index that ends before its end mark, or has a line that cannot be parsed, is never taken
  as verified: do_verify ends with BadIndexFile, BadHex or BadHexDigit.
\<close>

theorem do_verify_rejects:
  fixes s :: "('w, 'z) globals_scheme"
  assumes "file_store fs remaining view" and "memory_ok mem"
    and "plain_path (repo opts)" "root opts = ''''" "plain_path (indexfile opts)"
    and "view (world s) (resolve (indexfile opts)) = Regular bs" "index_details bs = None"
    and "sane_store opts (view (world s))"
  shows "\<exists>e s'. do_verify sys fs mem opts s = (Inl e, s') \<and> bad_index_exn e"
  by (rule file_store.do_verify_bad_index [OF assms])

theorem do_verify_rejects_witness:
  "\<exists>e s'. do_verify (disk_posix None None) (LocalFilesystem (disk_posix None None) []) sample_memory
      sample_opts (initial_globals truncated_disk) = (Inl e, s') \<and> bad_index_exn e"
  using do_verify_rejects [OF local_files.file_store_axioms sample_memory_ok sample_paths(1,3,2) _
      truncated_details, where s = "initial_globals truncated_disk"]
    truncated_index truncated_sane sample_paths by simp

section \<open>Removing what no index needs\<close>

text \<open>
  C6. When every index given can be read, do_clean returns (the fuel is enough as soon as it
  exceeds the depth of the tree) and, with --delete, removes exactly the regular files below the
  hash directory that are not kept: whose name is not the text of a hash some index needs or, with
  --detect-bogus, whose contents do not have that hash. Without --delete it removes nothing and
  lists each of them once.
\<close>

theorem do_clean_exact:
  fixes s :: "('w, 'z) globals_scheme"
  assumes "directory_store fs remaining view" and "memory_ok mem" "plain_path (repo opts)" "argv \<noteq> []"
    and "\<forall>arg \<in> set argv. plain_path arg \<and> view (world s) (resolve arg) = Regular (idx arg)"
    and "\<forall>arg \<in> set argv. live_hashes (idx arg) \<noteq> None"
    and "view (world s) (resolve (repo opts @ ''/'' @ HASH_NAME)) = Folder"
    and "depth_below (view (world s)) (resolve (repo opts @ ''/'' @ HASH_NAME)) fuel"
    and "all_hashable (view (world s))"
  defines "found \<equiv> garbage (view (world s)) (kept opts (live idx argv)) (resolve (repo opts @ ''/'' @ HASH_NAME))"
  shows "\<exists>s'. do_clean lc sys fs mem opts fuel argv s = (Inr (), s') \<and>
    (if deleteclean opts then view (world s') = without (view (world s)) found
     else view (world s') = view (world s) \<and>
       (\<exists>lines. stdout_lines s' = stdout_lines s @ lines \<and> distinct (map resolve lines) \<and>
          resolve ` set lines = found))"
  using directory_store.do_clean_ok [OF assms(1-9), of lc sys]
  unfolding found_def walked_def by (auto split: if_splits)

theorem do_clean_exact_witness:
  "\<exists>s'. do_clean sample_libc (disk_posix None None)
      (LocalFilesystem (disk_posix None None) []) sample_memory sample_opts 4 [''/i'']
      (initial_globals sample_disk) = (Inr (), s') \<and>
    disk_view (world s') stray = Absent \<and> disk_view sample_disk stray \<noteq> Absent"
  using do_clean_exact [OF local_tree.directory_store_axioms [of None None "[]"] sample_memory_ok sample_paths(1) _ sample_args,
      of sample_libc "disk_posix None None"] sample_stray_garbage sample_stray sample_top(1)
  by (auto simp: without_def)



text \<open>
  C8. One index that cannot be read to its end mark, among any number of good ones, and nothing is
  removed: do_clean ends with a fatal error before the walk.
\<close>

theorem do_clean_aborts:
  fixes s :: "('w, 'z) globals_scheme"
  assumes "file_store fs remaining view" and "memory_ok mem"
    and "\<forall>arg \<in> set argv. plain_path arg \<and> view (world s) (resolve arg) = Regular (idx arg)"
    and "\<exists>arg \<in> set argv. live_hashes (idx arg) = None" "repo opts \<noteq> ''''"
  shows "\<exists>msg s'. do_clean lc sys fs mem opts fuel argv s = (Inl (Fatal msg), s') \<and>
    view (world s') = view (world s)"
  by (rule file_store.do_clean_bad [OF assms])

theorem do_clean_aborts_witness:
  "\<exists>msg s'. do_clean sample_libc (disk_posix None None)
      (LocalFilesystem (disk_posix None None) []) sample_memory sample_opts 4 [''/i'']
      (initial_globals truncated_disk) = (Inl (Fatal msg), s') \<and> disk_view (world s') = disk_view truncated_disk"
proof -
  have "\<exists>msg s'. do_clean sample_libc (disk_posix None None) (LocalFilesystem (disk_posix None None) []) sample_memory
      sample_opts 4 [''/i''] (initial_globals truncated_disk) = (Inl (Fatal msg), s') \<and>
    disk_view (world s') = disk_view (world (initial_globals truncated_disk))"
    by (rule do_clean_aborts [OF local_files.file_store_axioms sample_memory_ok, where idx = "\<lambda>_. truncated_bytes"])
      (use truncated_index truncated_details sample_paths(6,7) in \<open>simp_all add: live_hashes_def\<close>)
  then show ?thesis by simp
qed

section \<open>Hashing\<close>

text \<open>
  C9. Whatever pieces a text is written in, and whatever the context held before, the Hash object
  delivers the digest that FIPS 180 defines (message padded and cut into blocks, each block
  compressed): for every text of less than 2^64 bits.
\<close>

theorem sha1_streaming:
  assumes "length (Message_Block c) = 64" "\<forall>x \<in> set cs. length x < 2 ^ 32" "8 * length (concat cs) < 2 ^ 64"
  shows "fst (andThen Hash_init (\<lambda>_. andThen (for_chunks Hash_write cs) (\<lambda>_. Hash_value)) c) = Inr (sha1 (concat cs))"
proof -
  obtain c1 where c1: "Hash_init c = (Inr (), c1)" "absorbed [] c1"
    using Hash_init_absorbed [OF assms(1)] by blast
  obtain c2 where c2: "for_chunks Hash_write cs c1 = (Inr (), c2)" "absorbed (concat cs) c2"
    using sha.for_chunks_write [OF c1(2), of cs] assms(2,3) by (auto simp: sha1_fits_def)
  show ?thesis using sha.value_law [OF c2(2)] c1(1) c2(1) by auto
qed

theorem sha1_streaming_witness:
  "fst (andThen Hash_init (\<lambda>_. andThen (for_chunks Hash_write [[0x61], [], [0x62, 0x63]]) (\<lambda>_. Hash_value))
     (mem_context sample_memory)) = Inr (sha1 [0x61, 0x62, 0x63])"
  using sha1_streaming [of "mem_context sample_memory" "[[0x61], [], [0x62, 0x63]]"]
  by (simp add: sample_memory_def)

text \<open>
  C10. The block function of sha1.c, with its array of 80 words, its four loops and its shifts, is
  the compression function of FIPS 180 on the chaining value and the block, and starts the next
  block.
\<close>

theorem process_block_compress:
  assumes "length (Message_Block context) = 64"
  shows "Intermediate_Hash (SHA1ProcessMessageBlock context) = compress (Intermediate_Hash context) (Message_Block context) \<and>
    Message_Block_Index (SHA1ProcessMessageBlock context) = 0"
  by (simp_all add: ProcessMessageBlock_compress [OF assms])

theorem process_block_compress_witness:
  "Intermediate_Hash (SHA1ProcessMessageBlock (mem_context sample_memory)) = compress [] (replicate 64 7)"
  using process_block_compress [of "mem_context sample_memory"] by (simp add: sample_memory_def)



text \<open>
  C12. The bit counter, kept in two 32-bit words, is exact modulo 2^64, and the context is marked
  corrupted exactly when it wraps (with shaNull, not shaInputTooLong).
\<close>

theorem SHA1_length_wraps:
  assumes "8 dvd bits_of_context context"
  shows "bits_of_context (add_length context) = (bits_of_context context + 8) mod 2 ^ 64 \<and>
    Corrupted (add_length context) = (if 2 ^ 64 \<le> bits_of_context context + 8 then shaNull else Corrupted context)"
  by (rule add_length_exact [OF assms])

theorem SHA1_length_wraps_witness:
  "Corrupted (add_length ((mem_context sample_memory)\<lparr>Length_High := 0xFFFFFFFF, Length_Low := 0xFFFFFFF8\<rparr>)) = shaNull"
  using SHA1_length_wraps [of "(mem_context sample_memory)\<lparr>Length_High := 0xFFFFFFFF, Length_Low := 0xFFFFFFF8\<rparr>"]
  by (simp add: bits_of_context_def)

text \<open>
  C13. Hashing a file by reading it in pieces and by mapping it give the same hash, the SHA-1 of
  its contents, and leave the files alone; one of the two counters is incremented.
\<close>

theorem hashfile_agrees:
  fixes s :: "('w, 'z) globals_scheme"
  assumes "file_store fs remaining view" "mappable sys view whole" "fs_local fs"
    and "plain_path p" "view (world s) (resolve p) = Regular bs" "8 * length bs < 2 ^ 64"
    and "length (Message_Block ho) = 64" "length junk = BUFFER_SIZE"
  shows "\<exists>w1 w2. view w1 = view (world s) \<and> view w2 = view (world s) \<and>
    hashfile sys fs ho junk p False s = (Inr (sha1 bs), s\<lparr>world := w1, hash_read := hash_read s + 1\<rparr>) \<and>
    hashfile sys fs ho junk p True s = (Inr (sha1 bs), s\<lparr>world := w2, hash_mmap := hash_mmap s + 1\<rparr>)"
proof -
  have fit: "sha1_fits bs" using assms(6) by (simp add: sha1_fits_def)
  have "\<not> (fs_local fs \<and> False)" by simp
  then show ?thesis
    using file_store.hashfile_found [OF assms(1,4,5) fit assms(7,8), of False sys]
      mappable.hashfile_mapped [OF assms(2,4,5) fit assms(7,3), of junk] by blast
qed

theorem hashfile_agrees_witness:
  "\<exists>w1 w2.
    hashfile (disk_posix (Some 0) None) (LocalFilesystem (disk_posix (Some 0) None) []) (mem_context sample_memory)
      (mem_buffer sample_memory) ''/i'' False (initial_globals sample_disk) =
      (Inr (sha1 (index_text sample_entries)), (initial_globals sample_disk)\<lparr>world := w1, hash_read := 1\<rparr>) \<and>
    hashfile (disk_posix (Some 0) None) (LocalFilesystem (disk_posix (Some 0) None) []) (mem_context sample_memory)
      (mem_buffer sample_memory) ''/i'' True (initial_globals sample_disk) =
      (Inr (sha1 (index_text sample_entries)), (initial_globals sample_disk)\<lparr>world := w2, hash_mmap := 1\<rparr>)"
proof -
  let ?s = "initial_globals sample_disk" and ?sys = "disk_posix (Some 0) None"
  show ?thesis
    using hashfile_agrees [OF local_files.file_store_axioms disk_maps.mappable_axioms _ sample_paths(6),
        where s = ?s and bs = "index_text sample_entries" and ho = "mem_context sample_memory"
          and junk = "mem_buffer sample_memory"]
      sample_index sample_paths(7) sample_fits(1) sample_memory_ok
    by (simp add: sha1_fits_def memory_ok_def LocalFilesystem_def) blast
qed

section \<open>Reading and writing files\<close>

text \<open>
  C14. On a file whose device does not fail, getline returns, whatever sizes the reads of the
  device have: it delivers the bytes up to the next newline (or the last, unterminated line, or
  end of file) and leaves exactly what follows.
\<close>

theorem getline_total:
  assumes "reliable_source readbytes remaining" "byte_source.reader_ok remaining f"
  shows "\<exists>f'. getline readbytes f =
      Some (Inr (map_option fst (getline_text (byte_source.unread remaining f))), f') \<and>
    byte_source.reader_ok remaining f' \<and>
    byte_source.unread remaining f' = after_line (byte_source.unread remaining f)"
  by (rule reliable_source.getline_correct [OF assms]) blast

theorem getline_total_witness:
  "\<exists>f'. getline (LocalFile_readbytes (disk_posix (Some 0) None))
      (File (replicate BUFFER_SIZE 0) (''/x'', \<lparr>of_place = (True, [''x'']), of_data = [], of_left = [0x68, 0x69, 0x0A, 0x21]\<rparr>)) =
    Some (Inr (Some ''hi''), f') \<and> local_reads.unread f' = [0x21]"
proof -
  let ?f = "File (replicate BUFFER_SIZE 0) (''/x'', \<lparr>of_place = (True, [''x'']), of_data = [],
    of_left = [0x68, 0x69, 0x0A, 0x21]\<rparr>)"
  have "local_reads.reader_ok ?f" by (rule local_reads.File_reader_ok) simp
  moreover have "getline_text [0x68, 0x69, 0x0A, 0x21] = Some (''hi'', [0x21])" by code_simp
  ultimately show ?thesis
    using getline_total [OF local_reads.reliable_source_axioms, of ?f "Some 0" None] by auto
qed

text \<open>
  C15. A request for n > 0 bytes is served from the front of what is still to come, in order and
  never with more than n; with the flag that asks for all, it delivers exactly n bytes or
  everything that is left, and an empty result always means the end.
\<close>

theorem getbytes_exact:
  assumes "reliable_source readbytes remaining" "byte_source.reader_ok remaining f" "0 < n"
  shows "\<exists>bs f'. getbytes readbytes n whole f = (Inr bs, f') \<and> byte_source.reader_ok remaining f' \<and>
    byte_source.unread remaining f = bs @ byte_source.unread remaining f' \<and> length bs \<le> n \<and>
    (bs = [] \<longrightarrow> byte_source.unread remaining f = []) \<and>
    (whole \<longrightarrow> length bs = min n (length (byte_source.unread remaining f)))"
proof -
  obtain bs f' where r: "getbytes readbytes n whole f = (Inr bs, f')"
    using reliable_source.getbytes_total [OF assms] by blast
  show ?thesis
    using r byte_source.getbytes_ok [OF reliable_source.axioms(1) [OF assms(1)] assms(2,3) r] by blast
qed

theorem getbytes_exact_witness:
  "\<exists>bs f'. getbytes (LocalFile_readbytes (disk_posix (Some 0) None)) 3 True
      (File (replicate BUFFER_SIZE 0) (''/x'', \<lparr>of_place = (True, [''x'']), of_data = [], of_left = [1, 2, 3, 4]\<rparr>)) =
    (Inr bs, f') \<and> length bs = 3 \<and> bs @ local_reads.unread f' = [1, 2, 3, 4]"
proof -
  let ?f = "File (replicate BUFFER_SIZE 0) (''/x'', \<lparr>of_place = (True, [''x'']), of_data = [], of_left = [1, 2, 3, 4]\<rparr>)"
  have "local_reads.reader_ok ?f" by (rule local_reads.File_reader_ok) simp
  then obtain bs f' where "getbytes (LocalFile_readbytes (disk_posix (Some 0) None)) 3 True ?f = (Inr bs, f')"
      "local_reads.unread ?f = bs @ local_reads.unread f'" and len: "length bs = min 3 (length (local_reads.unread ?f))"
    using getbytes_exact [OF local_reads.reliable_source_axioms, of ?f 3 "Some 0" None True] by auto
  moreover have "length bs = 3" using len by simp
  ultimately show ?thesis by auto
qed

text \<open>
  C16. The loops that read a file to its end return, and hand on all of its bytes, in order, in
  non-empty pieces no larger than their buffer, unless the receiver of a piece throws.
\<close>

theorem read_loop_complete:
  assumes "reliable_source readbytes remaining" "byte_source.reader_ok remaining f" "0 < sz"
  shows "\<exists>r f' s' cs rest. read_loop readbytes sz sink f s = Some (r, f', s') \<and> chunking sz cs \<and>
    concat cs @ rest = byte_source.unread remaining f \<and> for_chunks sink cs s = (r, s') \<and>
    (r = Inr () \<longrightarrow> rest = [])"
  using reliable_source.read_loop_total [OF assms, of sink s] by blast

theorem read_loop_complete_witness:
  "\<exists>f'. read_loop (LocalFile_readbytes (disk_posix (Some 0) None)) 16 (\<lambda>bs s. (Inr (), s @ bs))
      (File (replicate BUFFER_SIZE 0) (''/x'', \<lparr>of_place = (True, [''x'']), of_data = [], of_left = [1, 2, 3]\<rparr>)) [] =
    Some (Inr (), f', [1, 2, 3])"
proof -
  let ?f = "File (replicate BUFFER_SIZE 0) (''/x'', \<lparr>of_place = (True, [''x'']), of_data = [], of_left = [1, 2, 3]\<rparr>)"
  have collect: "for_chunks (\<lambda>bs s. (Inr (), s @ bs)) cs s = (Inr (), s @ concat cs)" for cs :: "bytes list" and s
    by (induction cs arbitrary: s) simp_all
  have "local_reads.reader_ok ?f" by (rule local_reads.File_reader_ok) simp
  then obtain r f' s' cs rest where "read_loop (LocalFile_readbytes (disk_posix (Some 0) None)) 16
      (\<lambda>bs s. (Inr (), s @ bs)) ?f [] = Some (r, f', s')" "concat cs @ rest = [1, 2, 3]" "(Inr (), concat cs) = (r, s')"
      "r = Inr () \<longrightarrow> rest = []"
    using read_loop_complete [OF local_reads.reliable_source_axioms, of ?f 16 "Some 0" None
        "\<lambda>bs s. (Inr (), s @ bs)" "[]"] unfolding collect by auto
  then show ?thesis by auto
qed

text \<open>
  C17. What is put into a file and flushed is on the device, byte for byte and in order, behind
  what was there, through any number of buffer fills; the file may then be closed.
\<close>

theorem put_flush_exact:
  assumes "byte_sink writebytes synchronize written there" "byte_sink.writer_ok f"
    and "put writebytes synchronize s f = (Inr (), g)" "flush writebytes synchronize g = (Inr (), f')"
    and "there (dev f)"
  shows "written (dev f') = byte_sink.out_bytes written f @ s \<and> File_destructor_ok f'"
  by (rule byte_sink.put_flush_ok [OF assms])

theorem put_flush_exact_witness:
  "\<exists>f'. andThen (put (LocalFile_writebytes (disk_posix None None) []) File_synchronize [7, 8])
      (\<lambda>_. flush (LocalFile_writebytes (disk_posix None None) []) File_synchronize)
      (File (replicate BUFFER_SIZE 0) ((''/x'', \<lparr>of_place = (True, [''x'']), of_data = [], of_left = []\<rparr>), \<lparr>nodes = []\<rparr>)) =
    (Inr (), f') \<and> file_bytes (snd (dev f')) (True, [''x'']) = [7, 8]"
proof -
  let ?wb = "LocalFile_writebytes (disk_posix None None) []"
  let ?f = "File (replicate BUFFER_SIZE 0) ((''/x'', \<lparr>of_place = (True, [''x'']), of_data = [], of_left = []\<rparr>), \<lparr>nodes = []\<rparr>)"
  have ok: "local_writes.writer_ok ?f" by (rule local_writes.File_writer_ok) simp
  obtain g where g: "put ?wb File_synchronize [7, 8] ?f = (Inr (), g)" "dev g = dev ?f" "mode g = Writing" "next_pos g = 2"
    by (simp add: put_byte_def flush_def andThen_def on_dev_def File_def File_synchronize_def BUFFER_SIZE_def)
  obtain f' where f': "flush ?wb File_synchronize g = (Inr (), f')" "fst (fst (dev f')) = ''/x''"
      "of_place (snd (fst (dev f'))) = (True, [''x''])"
    using g(2-4) by (auto simp: flush_def on_dev_def andThen_def LocalFile_writebytes_def write_loop_complete
        File_synchronize_def File_def)
  have "(\<lambda>((path, fd), w). file_bytes w (of_place fd)) (dev f') = [7, 8]"
    using put_flush_exact [OF local_writes.byte_sink_axioms ok g(1) f'(1) TrueI]
    unfolding local_writes.File_out_bytes by (simp add: file_bytes_def)
  then show ?thesis using g(1) f' by (cases "dev f'") (auto intro!: exI [of _ f'])
qed


section \<open>Index files\<close>

text \<open>
  C19. An index written as the program writes it (every entry a non-empty list of fields, URL-
  encoded, one line each, then the end mark) and read back through a buffered file gives the loop
  exactly these entries, in order; of a key given twice the last value counts. The loop returns.
\<close>

theorem index_round_trip:
  assumes "reliable_source readbytes remaining" "byte_source.reader_ok remaining f"
    and "byte_source.unread remaining f = index_text entries" "\<forall>kvs \<in> set entries. kvs \<noteq> []"
  shows "\<exists>f' s' r. index_loop readbytes body f acc s = Some (r, f', s') \<and>
    for_entries body (map (\<lambda>kvs. map_of (rev kvs)) entries) acc s = (r, s')"
  using reliable_source.index_loop_refines [OF assms(1,2), of body acc s]
    index_details_good [OF index_details_text [OF assms(4)], of body acc s] assms(3) by auto

theorem index_round_trip_witness:
  "\<exists>f'. index_loop (LocalFile_readbytes (disk_posix (Some 0) None)) (\<lambda>l acc s. (Inr (acc @ [l ''name'']), s))
      (File (replicate BUFFER_SIZE 0) (''/i'', \<lparr>of_place = (True, [''i'']), of_data = [], of_left = index_text sample_entries\<rparr>))
      [] \<lparr>errors = 0, warnings = 0, stderr_lines = []\<rparr> =
    Some (Inr [Some ''a b'', Some ''c''], f', \<lparr>errors = 0, warnings = 0, stderr_lines = []\<rparr>)"
proof -
  let ?f = "File (replicate BUFFER_SIZE 0)
    (''/i'', \<lparr>of_place = (True, [''i'']), of_data = [], of_left = index_text sample_entries\<rparr>)"
  have "local_reads.reader_ok ?f" by (rule local_reads.File_reader_ok) simp
  then show ?thesis
    using index_round_trip [OF local_reads.reliable_source_axioms, of ?f sample_entries "Some 0" None
        "\<lambda>l acc s. (Inr (acc @ [l ''name'']), s)" "[]" "\<lparr>errors = 0, warnings = 0, stderr_lines = []\<rparr>"]
    by (simp add: sample_entries_def HASH_NAME_def)
qed

text \<open>
  C20. Reading an index through the buffered file refines reading its text: the loop over the
  lines returns on every contents, well formed or not, with the result, the state and the
  exception that the definition on the whole text gives.
\<close>

theorem index_loop_refines_text:
  assumes "reliable_source readbytes remaining" "byte_source.reader_ok remaining f"
  shows "\<exists>f'. index_loop readbytes body f acc s =
    Some (case for_index body (byte_source.unread remaining f) acc s of (r, s') \<Rightarrow> (r, f', s'))"
  using reliable_source.index_loop_refines [OF assms, of body acc s] by (auto split: prod.split)

theorem index_loop_refines_text_witness:
  "\<exists>f' s'. index_loop (LocalFile_readbytes (disk_posix (Some 0) None)) (\<lambda>l acc s. (Inr (Suc acc), s))
      (File (replicate BUFFER_SIZE 0) (''/i'', \<lparr>of_place = (True, [''i'']), of_data = [], of_left = truncated_bytes\<rparr>))
      0 \<lparr>errors = 0, warnings = 0, stderr_lines = []\<rparr> =
    Some (Inl (BadIndexFile ''unexpected end of file''), f', s')"
proof -
  let ?f = "File (replicate BUFFER_SIZE 0)
    (''/i'', \<lparr>of_place = (True, [''i'']), of_data = [], of_left = truncated_bytes\<rparr>)"
  have "local_reads.reader_ok ?f" by (rule local_reads.File_reader_ok) simp
  moreover have "fst (for_index (\<lambda>l acc s. (Inr (Suc acc), s)) truncated_bytes 0
      \<lparr>errors = 0, warnings = 0, stderr_lines = []\<rparr>) = Inl (BadIndexFile ''unexpected end of file'')"
    by code_simp
  then obtain s' where "for_index (\<lambda>l acc s. (Inr (Suc acc), s)) truncated_bytes 0
      \<lparr>errors = 0, warnings = 0, stderr_lines = []\<rparr> = (Inl (BadIndexFile ''unexpected end of file''), s')"
    by (metis prod.collapse)
  ultimately show ?thesis
    using index_loop_refines_text [OF local_reads.reliable_source_axioms, of ?f "Some 0" None
        "\<lambda>l acc s. (Inr (Suc acc), s)" 0 "\<lparr>errors = 0, warnings = 0, stderr_lines = []\<rparr>"]
    by auto
qed

text \<open>
  C21. parseIndexLine, which works with positions in the line, computes what the definition of the
  format says (fields separated by &, key and value by the first =, both URL-encoded): on every
  line it returns those fields, or throws BadIndexFile silently, or one of the decoding exceptions
  after exactly one message.
\<close>

theorem parseIndexLine_equiv:
  "case parse_line line of
     Some l \<Rightarrow> parseIndexLine line d = (Inr l, d)
   | None \<Rightarrow> parseIndexLine line d = (Inl (BadIndexFile line), d) \<or>
       (\<exists>e. parseIndexLine line d = (Inl e, error (''invalid URL-encoded string: '' @ c_str line) d) \<and>
          (e = BadHexDigit \<or> (\<exists>t. e = BadHex t)))"
  using parseIndexLine_ref [of line d] by (simp add: parses_as_def split: option.splits)

section \<open>Directories\<close>

text \<open>
  C22. makedirs of a path without a trailing slash makes the directory and those above it that are
  missing, and nothing else, where no part of the path is something else than a directory.
\<close>

theorem makedirs_creates:
  assumes "directories fs absolute present dirs" "plain_path p" "(hd p = CHR ''/'') = absolute"
    and "\<forall>k. take k (components p) \<in> present w \<longrightarrow> take k (components p) \<in> dirs w" "last p \<noteq> CHR ''/''"
  shows "\<exists>w'. makedirs fs p w = (Inr (), w') \<and> components p \<in> dirs w' \<and> dirs w \<subseteq> dirs w' \<and>
    present w \<subseteq> present w' \<and> present w' \<subseteq> present w \<union> range (\<lambda>k. take k (components p))"
  using directories.makedirs_ok [OF assms(1), of p w] assms(2-5)
  by (simp add: directories.here_def [OF assms(1)] directories.clear_path_def [OF assms(1)])

theorem makedirs_creates_witness:
  "\<exists>w'. makedirs (LocalFilesystem (disk_posix None None) []) ''/a//b'' \<lparr>nodes = []\<rparr> = (Inr (), w') \<and>
    [''a'', ''b''] \<in> disk_dirs True w'"
proof -
  have c: "components ''/a//b'' = [''a'', ''b'']" by code_simp
  have "k \<noteq> 0 \<Longrightarrow> take k [''a'', ''b''] \<notin> disk_present True \<lparr>nodes = []\<rparr>" for k
    by (cases k) (simp_all add: disk_present_def node_at_def)
  then have "\<forall>k. take k [''a'', ''b''] \<in> disk_present True \<lparr>nodes = []\<rparr> \<longrightarrow>
      take k [''a'', ''b''] \<in> disk_dirs True \<lparr>nodes = []\<rparr>"
    by (metis local_dirs.top_dir take_0)
  then show ?thesis
    using makedirs_creates [OF local_dirs.directories_axioms, of "''/a//b''" True "\<lparr>nodes = []\<rparr>" None None "[]"] c
    by (auto simp: plain_path_def)
qed

section \<open>Text encodings\<close>

text \<open>
  C23. An encoded name, anywhere in a longer text, is decoded to the name, silently; so the fields
  of an index line can be decoded in place.
\<close>

theorem url_round_trip:
  "urldecode (pre @ urlencode t @ post) (length pre) (Some (length pre + length (urlencode t))) d = (Inr t, d)"
  by (rule urldecode_ok [where limit = "length pre + length (urlencode t)"]) (simp_all add: urldecode_ref_urlencode)

text \<open>
  C24. The encoding of any name has only printable characters, none of them a blank, a newline or
  a separator of the index format, and is at most three times as long.
\<close>

theorem urlencode_clean:
  "set (urlencode s) \<subseteq> {c. 32 < (of_char c :: nat) \<and> (of_char c :: nat) < 127} - {CHR ''&'', CHR ''=''} \<and>
   length (urlencode s) \<le> 3 * length s"
  using urlencode_safe [of s] length_urlencode [of s] by (auto simp: url_safe_def)

text \<open>
  C25. hashdecode accepts exactly the texts of 40 hexadecimal digits of either case and inverts
  hexencode up to the case of the digits; any other length is rejected silently, a bad digit after
  one message.
\<close>

theorem hashdecode_exact:
  "if length hex \<noteq> 40 then hashdecode hex d = (Inl (BadHex hex), d)
   else if \<exists>c \<in> set hex. hex_value c = None
   then hashdecode hex d = (Inl BadHexDigit, error (''invalid hex string: '' @ c_str hex) d)
   else \<exists>h. hashdecode hex d = (Inr h, d) \<and> length h = HASH_SIZE \<and> hexencode h = map to_lower hex"
proof (cases "length hex \<noteq> 40 \<or> (\<exists>c \<in> set hex. hex_value c = None)")
  case True
  then show ?thesis using hashdecode_length [of hex d] hashdecode_bad_digit [of hex d] by auto
next
  case False
  then have "length hex = 40" "\<forall>c \<in> set hex. hex_value c \<noteq> None" by auto
  then obtain h where "hashdecode hex d = (Inr h, d)" "length h = HASH_SIZE" "hexencode h = map to_lower hex"
    by (rule hashdecode_good)
  then show ?thesis using False by auto
qed

text \<open>
  C26. The text of a hash, as it stands in an index, decodes to the hash.
\<close>

theorem hash_round_trip:
  assumes "length h = HASH_SIZE"
  shows "hashdecode (hexencode h) d = (Inr h, d)"
  by (rule hashdecode_hexencode [OF assms])

theorem hash_round_trip_witness:
  "hashdecode (hexencode (replicate 20 0xAB)) \<lparr>errors = 2, warnings = 0, stderr_lines = []\<rparr> =
     (Inr (replicate 20 0xAB), \<lparr>errors = 2, warnings = 0, stderr_lines = []\<rparr>)"
  by (rule hash_round_trip) (simp add: HASH_SIZE_def)

text \<open>
  C27. Two different hashes never share a file of the repository, and every path hashpath builds
  fits its buffer with the terminating NUL.
\<close>

theorem hash_file_unique:
  assumes "length g = HASH_SIZE" "length h = HASH_SIZE"
  shows "(hash_file opts g = hash_file opts h) = (g = h) \<and>
    length (hashpath h) + 1 = 3 * DEPTH + 2 * HASH_SIZE + 1"
  using repo_path.encode_eq_iff [OF assms] hashpath_fits_buffer [OF assms(2)] by (simp add: hash_file_def)

theorem hash_file_unique_witness:
  "hash_file sample_opts (replicate 20 1) \<noteq> hash_file sample_opts (replicate 20 2)"
  using hash_file_unique [of "replicate 20 1" "replicate 20 2" sample_opts] by (simp add: HASH_SIZE_def)

section \<open>The set of hashes\<close>

text \<open>
  C28. The hash table, with its buckets and chains, is a set: after any insertions into a new
  table, has is membership in what was inserted, and stats counts every element once.
\<close>

theorem hashset_refines_set:
  "HashSet_has h (fold HashSet_insert hs HashSet_new) = (h \<in> set hs) \<and>
   fst (HashSet_stats (fold HashSet_insert hs HashSet_new)) = card (set hs)"
proof -
  have "table_ok (fold HashSet_insert hs HashSet_new)" "table_elems (fold HashSet_insert hs HashSet_new) = set hs"
    using hashes.fold_ins_ok [OF HashSet_new_ok(1), of hs] HashSet_new_ok(2) by simp_all
  then show ?thesis using hashes.has_fold_ins [of hs h] HashSet_stats_counts by simp
qed

section \<open>From a backup to a restore\<close>

text \<open>
  C29. Backup writes the first file of a directory with its whole name and the others as ./name;
  whatever sequence of directories with their files it writes, the rules by which restore
  completes relative names give every file its name below the root back.
\<close>

theorem names_round_trip:
  assumes "\<forall>g \<in> set gs. plain_dir (fst g) \<and> (\<forall>n \<in> set (snd g). plain_file n)"
  shows "restore_names prev (concat (map dir_names gs)) =
    Some (concat (map (\<lambda>g. map (local_name (fst g)) (snd g)) gs))"
  by (rule restore_names_backup [OF assms])

theorem names_round_trip_witness:
  "restore_names ''x'' [''a'', ''d'', ''d/b'', ''./c''] = Some [''a'', ''d'', ''d/b'', ''d/c'']"
  using names_round_trip [of "[(''.'', [''a'', ''d'']), (''d'', [''b'', ''c''])]" "''x''"]
  by (simp add: plain_dir_def plain_file_def dir_names_def local_name_def relative_name_def rfind_def)

text \<open>
  C30. The line that backup writes for a file parses, and what restore takes from it is what the
  file had: its name, its permissions, its owner and group (looked up by name where there is one),
  its times (any 64-bit number of seconds, also negative), and every further field.
\<close>

theorem entry_round_trip:
  assumes "consistent db" "st_perm sb < 2 ^ 12"
    and "- (2 ^ 63) \<le> st_atime sb" "st_atime sb < 2 ^ 63" "- (2 ^ 63) \<le> st_mtime sb" "st_mtime sb < 2 ^ 63"
    and "distinct (map fst kvs)"
      "set (map fst kvs) \<inter> {''name'', ''perms'', ''uid'', ''gid'', ''atime'', ''ctime'', ''mtime''} = {}"
  shows "\<exists>l. parseIndexLine
      (generic_details relname sb (uid_name db (st_uid sb)) (gid_name db (st_gid sb)) @ more_fields kvs) d = (Inr l, d) \<and>
    subscript l ''name'' = relname \<and>
    unat (word_of_int (strtol (subscript l ''perms'') 8) :: 32 word) = st_perm sb \<and>
    name_uid db (subscript l ''uid'') = Some (st_uid sb) \<and> name_gid db (subscript l ''gid'') = Some (st_gid sb) \<and>
    file_time l ''atime'' = st_atime sb \<and> file_time l ''mtime'' = st_mtime sb \<and>
    (\<forall>(k, v) \<in> set kvs. getdetail l k = Some v)"
proof -
  obtain l where l: "parseIndexLine (generic_details relname sb (uid_name db (st_uid sb)) (gid_name db (st_gid sb)) @
        more_fields kvs) d = (Inr l, d)"
      "\<forall>kv \<in> set (generic_fields relname sb (uid_name db (st_uid sb)) (gid_name db (st_gid sb)) @ kvs). l (fst kv) = Some (snd kv)"
    using entry_fields [OF assms(7,8)] by blast
  then have sub: "subscript l ''name'' = relname" "subscript l ''perms'' = octal (st_perm sb)"
      "subscript l ''uid'' = uid_name db (st_uid sb)" "subscript l ''gid'' = gid_name db (st_gid sb)"
      "subscript l ''atime'' = format_llu (st_atime sb)" "subscript l ''mtime'' = format_llu (st_mtime sb)"
    by (simp_all add: generic_fields_def subscript_def)
  have "\<forall>(k, v) \<in> set kvs. getdetail l k = Some v" using l(2) by (force simp: getdetail_def)
  then show ?thesis
    using l(1) sub assms(1-6) permissions_format uid_round_trip gid_round_trip file_time_format by auto
qed

theorem entry_round_trip_witness:
  "\<exists>l. parseIndexLine (generic_details ''./a'' (node_stat (FileNode [0])) (uid_name sample_accounts 0)
      (gid_name sample_accounts 0) @ more_fields [(''data'', ''x&y'')]) (initial_globals ()) = (Inr l, initial_globals ()) \<and>
    unat (word_of_int (strtol (subscript l ''perms'') 8) :: 32 word) = 420 \<and> getdetail l ''data'' = Some ''x&y''"
  using entry_round_trip [OF sample_consistent, of "node_stat (FileNode [0])" "[(''data'', ''x&y'')]" "''./a''" "initial_globals ()"]
  by auto



section \<open>The command line and the libraries\<close>





text \<open>
  C35. A name is excluded exactly if one of the patterns matches it, and the test changes nothing,
  provided the library does not fail on a pattern; if it fails on one before any other has
  matched, the program stops.
\<close>

theorem excluded_exact:
  assumes "\<forall>x \<in> set xs. \<not> fails lib (c_str path) x"
  shows "excluded lib xs path d = (Inr (\<exists>x \<in> set xs. accepts lib (c_str path) x), d) \<and>
    ((\<forall>x \<in> set xs. \<not> accepts lib (c_str path) x) \<longrightarrow> fails lib (c_str path) y \<longrightarrow>
       (\<exists>msg d'. excluded lib (xs @ y # ys) path d = (Inl (Fatal msg), d')))"
  using excluded_ok [OF assms] excluded_fails [of xs lib path y ys d] assms by blast

theorem excluded_exact_witness:
  "excluded sample_pcre [(''a/'', ()), (''b'', ())] ''bin'' (initial_globals ()) = (Inr True, initial_globals ())"
  using excluded_exact [of "[(''a/'', ()), (''b'', ())]" sample_pcre "''bin''" "initial_globals ()"]
  by (simp add: sample_pcre_never_fails accepts_def) (simp add: sample_pcre_def c_str_def)

text \<open>
  C36. With an iconv that keeps its contract, the conversion of a name always ends, whatever the
  output buffer holds at a time, and is the character by character conversion in which every byte
  that starts no character becomes a question mark.
\<close>

theorem convert_reference:
  assumes "iconv_ok lib char1"
  shows "\<exists>cd'. convert lib lc (Some cd) s d = (Inr (recode_ref char1 (length s) s, Some cd'), d)"
  by (rule convert_ok [OF assms])

theorem convert_reference_witness:
  "\<exists>cd'. convert sample_iconv sample_libc (Some ()) [CHR ''a'', CHR 0xE9, CHR ''b''] (initial_globals ()) =
    (Inr (''a?b'', Some cd'), initial_globals ())"
  using convert_reference [OF sample_iconv_ok, of sample_libc "()" "[CHR ''a'', CHR 0xE9, CHR ''b'']" "initial_globals ()"]
  by (simp add: ascii_char_def ascii_def)

section \<open>The SFTP protocol\<close>

text \<open>
  C37. Numbers of 32 and 64 bits, any number of strings, and status structures come out of a
  packet as they went in, wherever they stand in it, and the index ends right behind them.
\<close>

theorem packets_round_trip:
  assumes "\<forall>t \<in> set ts. countable_string t" "countable_status st"
  shows "unpack_uint32 (pack_uint32 s u @ rest) (length s) = (Inr u, length s + 4) \<and>
    unpack_uint64 (pack_uint64 s v @ rest) (length s) = (Inr v, length s + 8) \<and>
    unpack_list unpack_string (length ts) (foldl pack_string s ts @ rest) (length s) =
      (Inr ts, length (foldl pack_string s ts)) \<and>
    unpack_status (pack_status s st @ rest) (length s) = (Inr st, length (pack_status s st))"
  using uint32.unpack_at [where x = u and s = "pack_uint32 s u @ rest" and u = s and i = "length s"]
    uint64.unpack_at [where x = v and s = "pack_uint64 s v @ rest" and u = s and i = "length s"]
    counted.unpack_pack_list [OF assms(1), of s rest]
    statuses.unpack_at [OF assms(2), of "pack_status s st @ rest" s rest "length s"]
    pack_uint32_append [of s u] pack_uint64_append [of s v] statuses.pack_append [of s st]
  by simp

theorem packets_round_trip_witness:
  "unpack_list unpack_string 2 (pack_string (pack_string ''x'' ''/a'') ''b'' @ ''z'') 1 = (Inr [''/a'', ''b''], 12)"
proof -
  have "\<forall>t \<in> set [''/a'', ''b'']. countable_string t"
      "countable_status \<lparr>status = 2, message = ''m'', lang = ''en''\<rparr>"
    by (simp_all add: countable_string_def countable_status_def)
  from packets_round_trip [OF this, of "''x''" 0 "''z''" 0] show ?thesis
    by (simp add: numeral_2_eq_2 del: unpack_list.simps)
qed

section \<open>The SFTP client\<close>

text \<open>
  C38. The client refines a mailbox: whatever order the server answers several requests in,
  whatever pieces the pipe delivers the answers in, and whatever order the program asks for them
  in, each request gets its own answer; what has arrived besides stays in the pipe, other replies
  that wait stay where they are, and await always returns.
\<close>

theorem replies_in_any_order:
  assumes "reliable_source (pipe_readbytes c) remaining" "link_ok s"
    and "incoming remaining s = concat (map frame ps) @ rest" "\<forall>p \<in> set ps. valid_packet p"
    and "fresh_packets ps (mailbox_of s)" "distinct ids" "set ids = set (map packet_id ps)"
  shows "\<exists>rs s'. awaits c ids s = (Inr rs, s') \<and> map packet_id rs = ids \<and> set rs = set ps \<and>
    link_ok s' \<and> incoming remaining s' = rest \<and> the_rest s' = the_rest s \<and> mailbox_of s' = mailbox_of s"
proof -
  have "distinct (map packet_id ps)" using assms(5) by (simp add: fresh_packets_def)
  note rs = answers [OF this assms(7) refl]
  then have "\<forall>r \<in> set (map (\<lambda>i. the (map_of (map (\<lambda>p. (packet_id p, p)) ps) i)) ids). r \<noteq> []"
    using assms(4) by (auto simp: valid_packet_def)
  then show ?thesis
    using sftp_link.awaits_ok [OF sftp_link.intro [OF assms(1)] assms(2-4) fetches_all [OF assms(5-7)]] rs
    by (metis (no_types, lifting) append_Nil concat.simps(1) list.map(1))
qed

theorem replies_in_any_order_witness:
  "\<exists>s'. awaits sample_client [1, 2] sample_session = (Inr [sample_packet 1, sample_packet 2], s') \<and>
    incoming inbound s' = []"
proof -
  have ids: "fresh_packets [sample_packet 2, sample_packet 1] (mailbox_of sample_session)"
      "\<forall>p \<in> set [sample_packet 2, sample_packet 1]. valid_packet p" "distinct [1, 2 :: u32]"
      "set [1, 2] = set (map packet_id [sample_packet 2, sample_packet 1])"
    by (auto simp: sample_packet_ok sample_session_ok fresh_packets_def)
  obtain rs s' where rs: "awaits sample_client [1, 2] sample_session = (Inr rs, s')" "map packet_id rs = [1, 2]"
      "set rs = {sample_packet 2, sample_packet 1}" "incoming inbound s' = []"
    using replies_in_any_order [OF sample_link sample_session_ok(1,2) ids(2,1,3,4)] by (auto simp del: awaits.simps)
  from rs(2,3) have "rs = [sample_packet 1, sample_packet 2]" by (auto simp: sample_packet_ok doubleton_eq_iff)
  then show ?thesis using rs by blast
qed



text \<open>
  C40. Request identifiers are never 0, the value the program uses for none, and any sequence of
  less than 2^32 of them, wherever the 32-bit counter stands and also when it wraps around, has no
  repetition.
\<close>

theorem identifiers_distinct:
  assumes "newids n s = (Inr xs, s')"
  shows "0 \<notin> set xs \<and> length xs = n \<and> (n < 2 ^ 32 \<longrightarrow> distinct xs)"
  using newids_distinct [OF assms] newids_length [OF assms] by simp

theorem identifiers_distinct_witness:
  "\<exists>s'. newids 2 (sample_session\<lparr>next_id := - 1\<rparr>) = (Inr [- 1, 1], s') \<and> distinct [- 1, 1 :: u32]"
proof -
  obtain s' where "newids 2 (sample_session\<lparr>next_id := - 1\<rparr>) = (Inr [- 1, 1], s')"
    by (simp add: numeral_2_eq_2 newid_eq first_id_def)
  then show ?thesis using identifiers_distinct [of 2 _ "[- 1, 1]" s'] by auto
qed

section \<open>Smaller facts that the findings and the text encodings rest on\<close>

text \<open>A request for no bytes marks the file as ended although there are bytes to come.\<close>

lemma getbytes_zero_ends:
  assumes "mode f = Reading" "next_pos f < top_pos f"
  shows "getbytes readbytes 0 whole f = (Inr [], f\<lparr>eof := True\<rparr>)"
  using assms by (simp add: getbytes_def getbytes_loop.simps [of readbytes whole 0] getbytes_chunk_def Let_def)

text \<open>
  makedirs of a missing directory named with a slash at its end makes the directory and then fails with
  EEXIST.
\<close>

lemma makedirs_trailing_slash:
  assumes "directories fs absolute present dirs" "plain_path p" "(hd p = CHR ''/'') = absolute"
    and "\<forall>k. take k (components p) \<in> present w \<longrightarrow> take k (components p) \<in> dirs w" "components p \<notin> present w"
  shows "\<exists>w'. makedirs fs (p @ ''/'') w =
    (Inl (FileError ''creating directory'' (p @ ''/'') EEXIST), w') \<and> components p \<in> dirs w'"
  using directories.makedirs_slash [OF assms(1), of p w] assms(2-5)
  by (simp add: directories.here_def [OF assms(1)] directories.clear_path_def [OF assms(1)])

text \<open>urldecode of a part of a text agrees with URL decoding by recursion on that part, errors included.\<close>

lemma urldecode_equiv:
  assumes "limit \<le> length s" "fin = Some limit \<or> fin = None \<and> limit = length s"
  shows "case urldecode_ref (take (limit - start) (drop start s)) of
     Some u \<Rightarrow> urldecode s start fin d = (Inr u, d)
   | None \<Rightarrow> \<exists>e. urldecode s start fin d = (Inl e, error (''invalid URL-encoded string: '' @ c_str s) d) \<and>
       (e = BadHexDigit \<or> (\<exists>t. e = BadHex t))"
proof -
  have l: "limit = (case fin of None \<Rightarrow> length s | Some e \<Rightarrow> e)" using assms(2) by auto
  show ?thesis
  proof (cases "urldecode_ref (take (limit - start) (drop start s))")
    case None
    then show ?thesis using urldecode_fails [OF l assms(1) None, of d] by auto
  next
    case (Some u)
    then show ?thesis using urldecode_ok [OF l assms(1) Some, of d] by simp
  qed
qed

end
